(* ===== verification/Client_Prelude.thy ===== *)
theory Client_Prelude
  imports Main "HOL-Library.Word" "HOL-Library.Sublist"
begin

text \<open>
  Shared vocabulary of the development: the machine integers of the Rust sources as words,
  the pieces of the Rust standard library the client relies on (little-endian byte order,
  \<^verbatim>\<open>String::from_utf8_lossy\<close>, saturating integer conversions, decimal printing, trimming of
  strings), and the generic lemmas about lists, options and words used by the component theories.

  Conventions. A Rust integer is a word of its width: \<open>u8\<close>, \<open>u16\<close>, \<open>u32\<close>, \<open>u64\<close> and, read through
  \<^const>\<open>sint\<close>, \<open>i32\<close> and \<open>i64\<close>. A \<^verbatim>\<open>usize\<close> that counts elements in memory is a \<^typ>\<open>nat\<close>. A Rust
  \<^verbatim>\<open>String\<close> is the list of its UTF-8 bytes as characters, so \<^const>\<open>length\<close> is \<^verbatim>\<open>str::len\<close>.
  A \<^verbatim>\<open>Result<T, String>\<close> is a sum with the error on the left.
\<close>

type_synonym u8 = "8 word"
type_synonym u16 = "16 word"
type_synonym u32 = "32 word"
type_synonym u64 = "64 word"
type_synonym i32 = "32 word"
type_synonym i64 = "64 word"
type_synonym bytes = "u8 list"
type_synonym 'a result = "string + 'a"

named_theorems wire_simps \<open>round trips of the wire format\<close>
named_theorems cursor_simps \<open>how a read moves the cursor of a message\<close>
named_theorems conv_simps \<open>saturating conversions between integer types\<close>

subsection \<open>Little-endian byte order\<close>

fun le_encode :: "nat \<Rightarrow> nat \<Rightarrow> bytes" where
  "le_encode 0 k = []"
| "le_encode (Suc n) k = of_nat (k mod 256) # le_encode n (k div 256)"

fun le_decode :: "bytes \<Rightarrow> nat" where
  "le_decode [] = 0"
| "le_decode (b # bs) = unat b + 256 * le_decode bs"

subsection \<open>Strings and their bytes\<close>

definition as_bytes :: "string \<Rightarrow> bytes" where
  "as_bytes s = map (\<lambda>c. of_nat (of_char c)) s"

definition of_bytes :: "bytes \<Rightarrow> string" where
  "of_bytes bs = map (\<lambda>b. char_of (unat b)) bs"

text \<open>
  \<^verbatim>\<open>String::from_utf8_lossy\<close>: maximal well-formed pieces are kept, every maximal ill-formed
  prefix of a sequence becomes one U+FFFD. \<open>utf8_head\<close> looks at the front of a non-empty list and
  says whether a well-formed sequence starts there and how many bytes to consume.
\<close>

definition get0 :: "bytes \<Rightarrow> nat \<Rightarrow> nat" where
  "get0 bs i = (if i < length bs then unat (bs ! i) else 0)"

definition utf8_cont :: "nat \<Rightarrow> bool" where
  "utf8_cont b \<longleftrightarrow> 128 \<le> b \<and> b \<le> 191"

definition utf8_second3 :: "nat \<Rightarrow> nat \<Rightarrow> bool" where
  "utf8_second3 a b \<longleftrightarrow>
     (if a = 224 then 160 \<le> b \<and> b \<le> 191
      else if a = 237 then 128 \<le> b \<and> b \<le> 159
      else 128 \<le> b \<and> b \<le> 191)"

definition utf8_second4 :: "nat \<Rightarrow> nat \<Rightarrow> bool" where
  "utf8_second4 a b \<longleftrightarrow>
     (if a = 240 then 144 \<le> b \<and> b \<le> 191
      else if a = 244 then 128 \<le> b \<and> b \<le> 143
      else 128 \<le> b \<and> b \<le> 191)"

definition utf8_seq :: "nat \<Rightarrow> nat \<Rightarrow> nat \<Rightarrow> nat \<Rightarrow> bool \<times> nat" where
  "utf8_seq a b c d =
     (if a < 128 then (True, 1)
      else if 194 \<le> a \<and> a \<le> 223 then
        (if utf8_cont b then (True, 2) else (False, 1))
      else if 224 \<le> a \<and> a \<le> 239 then
        (if \<not> utf8_second3 a b then (False, 1)
         else if \<not> utf8_cont c then (False, 2) else (True, 3))
      else if 240 \<le> a \<and> a \<le> 244 then
        (if \<not> utf8_second4 a b then (False, 1)
         else if \<not> utf8_cont c then (False, 2)
         else if \<not> utf8_cont d then (False, 3) else (True, 4))
      else (False, 1))"

definition utf8_head :: "bytes \<Rightarrow> bool \<times> nat" where
  "utf8_head bs = utf8_seq (get0 bs 0) (get0 bs 1) (get0 bs 2) (get0 bs 3)"

lemma utf8_head_pos: "0 < snd (utf8_head bs)"
  by (simp add: utf8_head_def utf8_seq_def)

function utf8_lossy :: "bytes \<Rightarrow> bytes" where
  "utf8_lossy bs =
     (if bs = [] then []
      else (if fst (utf8_head bs) then take (snd (utf8_head bs)) bs else [239, 191, 189])
           @ utf8_lossy (drop (snd (utf8_head bs)) bs))"
  by pat_completeness auto
termination
  by (relation "measure length") (auto simp: utf8_head_pos)

function utf8_valid :: "bytes \<Rightarrow> bool" where
  "utf8_valid bs =
     (if bs = [] then True
      else fst (utf8_head bs) \<and> utf8_valid (drop (snd (utf8_head bs)) bs))"
  by pat_completeness auto
termination
  by (relation "measure length") (auto simp: utf8_head_pos)

declare utf8_lossy.simps [simp del] utf8_valid.simps [simp del]

definition from_utf8_lossy :: "bytes \<Rightarrow> string" where
  "from_utf8_lossy bs = of_bytes (utf8_lossy bs)"

text \<open>The type invariant of \<^verbatim>\<open>String\<close>: its bytes are well-formed UTF-8.\<close>

definition wf_str :: "string \<Rightarrow> bool" where
  "wf_str s \<longleftrightarrow> utf8_valid (as_bytes s)"

subsection \<open>Saturating integer conversions\<close>

text \<open>\<^verbatim>\<open>i64::try_from(u64).unwrap_or(i64::MAX)\<close> and its relatives.\<close>

definition u64_to_i64_max :: "u64 \<Rightarrow> i64" where
  "u64_to_i64_max v = (if unat v < 2 ^ 63 then v else 2 ^ 63 - 1)"

definition u32_to_i32_max :: "u32 \<Rightarrow> i32" where
  "u32_to_i32_max v = (if unat v < 2 ^ 31 then v else 2 ^ 31 - 1)"

definition i64_to_u64_or_0 :: "i64 \<Rightarrow> u64" where
  "i64_to_u64_or_0 v = (if sint v < 0 then 0 else v)"

definition i32_to_u32_max :: "i32 \<Rightarrow> u32" where
  "i32_to_u32_max v = (if sint v < 0 then - 1 else v)"

definition i64_to_u32_max :: "i64 \<Rightarrow> u32" where
  "i64_to_u32_max v = (if 0 \<le> sint v \<and> sint v < 2 ^ 32 then ucast v else - 1)"

definition u64_to_u32_max :: "u64 \<Rightarrow> u32" where
  "u64_to_u32_max v = (if unat v < 2 ^ 32 then ucast v else - 1)"

definition usize_to_u32_max :: "nat \<Rightarrow> u32" where
  "usize_to_u32_max n = (if n < 2 ^ 32 then of_nat n else - 1)"

definition i32_saturating_add :: "i32 \<Rightarrow> int \<Rightarrow> i32" where
  "i32_saturating_add a b =
     (if sint a + b > 2 ^ 31 - 1 then 2 ^ 31 - 1
      else if sint a + b < - (2 ^ 31) then 2 ^ 31
      else word_of_int (sint a + b))"

definition u64_saturating_add :: "u64 \<Rightarrow> u64 \<Rightarrow> u64" where
  "u64_saturating_add a b = (if unat a + unat b < 2 ^ 64 then a + b else - 1)"

definition u64_saturating_sub :: "u64 \<Rightarrow> u64 \<Rightarrow> u64" where
  "u64_saturating_sub a b = (if b \<le> a then a - b else 0)"

definition i64_saturating_sub :: "i64 \<Rightarrow> i64 \<Rightarrow> i64" where
  "i64_saturating_sub a b =
     (if sint a - sint b > 2 ^ 63 - 1 then 2 ^ 63 - 1
      else if sint a - sint b < - (2 ^ 63) then 2 ^ 63
      else a - b)"

subsection \<open>Decimal printing\<close>

definition digit_char :: "nat \<Rightarrow> char" where
  "digit_char d = char_of (48 + d)"

fun show_nat :: "nat \<Rightarrow> string" where
  "show_nat n = (if n < 10 then [digit_char n] else show_nat (n div 10) @ [digit_char (n mod 10)])"

declare show_nat.simps [simp del]

definition show_int :: "int \<Rightarrow> string" where
  "show_int i = (if i < 0 then CHR ''-'' # show_nat (nat (- i)) else show_nat (nat i))"

subsection \<open>Trimming\<close>

text \<open>\<^verbatim>\<open>str::trim_start_matches('/')\<close>.\<close>

definition trim_start_slashes :: "string \<Rightarrow> string" where
  "trim_start_slashes s = dropWhile (\<lambda>c. c = CHR ''/'') s"

subsection \<open>Lemmas: byte order\<close>

lemma length_le_encode [simp]: "length (le_encode n k) = n"
  by (induction n arbitrary: k) auto

lemma unat_of_nat_byte [simp]: "unat (of_nat (k mod 256) :: u8) = k mod 256"
  by (simp add: unat_of_nat)

lemma le_decode_encode: "le_decode (le_encode n k) = k mod 256 ^ n"
proof (induction n arbitrary: k)
  case 0
  then show ?case by simp
next
  case (Suc n)
  have "k mod 256 + 256 * (k div 256 mod 256 ^ n) = k mod (256 * 256 ^ n)"
    by (simp add: mod_mult2_eq)
  with Suc show ?case by simp
qed

lemma le_decode_less: "le_decode bs < 256 ^ length bs"
proof (induction bs)
  case Nil
  then show ?case by simp
next
  case (Cons b bs)
  have "unat b < 256" using unsigned_less [of b] by simp
  with Cons show ?case by simp
qed

lemma le_encode_decode: "le_encode (length bs) (le_decode bs) = bs"
proof (induction bs)
  case Nil
  then show ?case by simp
next
  case (Cons b bs)
  have "unat b < 256" using unsigned_less [of b] by simp
  then have "(unat b + 256 * le_decode bs) mod 256 = unat b"
    and "(unat b + 256 * le_decode bs) div 256 = le_decode bs" by simp_all
  with Cons show ?case by simp
qed

text \<open>A word of \<open>n\<close> bytes survives encoding and decoding.\<close>

lemma le_word_roundtrip:
  assumes "LENGTH('a::len) = 8 * n"
  shows "of_nat (le_decode (le_encode n (unat w))) = (w :: 'a word)"
proof -
  have "256 ^ n = (2::nat) ^ LENGTH('a)" by (simp add: assms power_mult)
  then have "unat w mod 256 ^ n = unat w" using unsigned_less [of w] by simp
  then show ?thesis by (simp add: le_decode_encode)
qed

subsection \<open>Lemmas: strings\<close>

lemma length_as_bytes [simp]: "length (as_bytes s) = length s"
  by (simp add: as_bytes_def)

lemma of_bytes_as_bytes [simp]: "of_bytes (as_bytes s) = s"
proof -
  have "char_of (unat (of_nat (of_char c) :: u8)) = c" for c
  proof -
    have "of_char c < (256::nat)" by simp
    then have "unat (of_nat (of_char c) :: u8) = of_char c" by (simp add: unat_of_nat)
    then show ?thesis by simp
  qed
  then show ?thesis by (simp add: of_bytes_def as_bytes_def o_def)
qed

lemma as_bytes_of_bytes [simp]: "as_bytes (of_bytes bs) = bs"
proof -
  have "(of_nat (of_char (char_of (unat b))) :: u8) = b" for b :: u8
  proof -
    have "unat b < 256" using unsigned_less [of b] by simp
    then show ?thesis by simp
  qed
  then show ?thesis by (simp add: as_bytes_def of_bytes_def o_def)
qed

lemma as_bytes_inject [simp]: "as_bytes s = as_bytes t \<longleftrightarrow> s = t"
  by (metis of_bytes_as_bytes)

lemma utf8_lossy_valid: "utf8_valid bs \<Longrightarrow> utf8_lossy bs = bs"
proof (induction bs rule: utf8_lossy.induct)
  case (1 bs)
  show ?case
  proof (cases "bs = []")
    case True
    then show ?thesis by (simp add: utf8_lossy.simps)
  next
    case False
    with 1 have "fst (utf8_head bs)" "utf8_lossy (drop (snd (utf8_head bs)) bs) = drop (snd (utf8_head bs)) bs"
      by (auto simp: utf8_valid.simps [of bs])
    with False show ?thesis by (simp add: utf8_lossy.simps [of bs])
  qed
qed

lemma from_utf8_lossy_as_bytes [simp]: "wf_str s \<Longrightarrow> from_utf8_lossy (as_bytes s) = s"
  by (simp add: from_utf8_lossy_def wf_str_def utf8_lossy_valid)

text \<open>A decoded sequence lies inside the input, and its decoding does not look beyond it.\<close>

lemma get0_append: "i < length xs \<Longrightarrow> get0 (xs @ ys) i = get0 xs i"
  by (simp add: get0_def nth_append)

lemma get0_take: "i < n \<Longrightarrow> get0 (take n xs) i = get0 xs i"
  by (simp add: get0_def)

lemma utf8_second_0 [simp]: "\<not> utf8_second3 a 0" "\<not> utf8_second4 a 0" "\<not> utf8_cont 0"
  by (simp_all add: utf8_second3_def utf8_second4_def utf8_cont_def)

lemma get0_beyond: "length bs \<le> i \<Longrightarrow> get0 bs i = 0"
  by (simp add: get0_def)

lemma utf8_seq_cases:
  assumes "fst (utf8_seq a b c d)"
  obtains "\<And>b c d. utf8_seq a b c d = (True, 1)"
  | "b \<noteq> 0" "\<And>c d. utf8_seq a b c d = (True, 2)"
  | "b \<noteq> 0" "c \<noteq> 0" "\<And>d. utf8_seq a b c d = (True, 3)"
  | "b \<noteq> 0" "c \<noteq> 0" "d \<noteq> 0" "utf8_seq a b c d = (True, 4)"
proof -
  consider "a < 128" | "194 \<le> a" "a \<le> 223" "utf8_cont b"
    | "224 \<le> a" "a \<le> 239" "utf8_second3 a b" "utf8_cont c"
    | "240 \<le> a" "a \<le> 244" "utf8_second4 a b" "utf8_cont c" "utf8_cont d"
    using assms by (fastforce simp: utf8_seq_def split: if_splits)
  then show thesis
  proof cases
    case 1
    then show ?thesis by (intro that(1)) (simp add: utf8_seq_def)
  next
    case 2
    then show ?thesis by (intro that(2)) (auto simp: utf8_seq_def utf8_cont_def)
  next
    case 3
    then show ?thesis
      by (intro that(3)) (auto simp: utf8_seq_def utf8_cont_def utf8_second3_def split: if_splits)
  next
    case 4
    then show ?thesis
      by (intro that(4)) (auto simp: utf8_seq_def utf8_cont_def utf8_second4_def split: if_splits)
  qed
qed

lemma get0_nonzero: "0 < get0 bs i \<Longrightarrow> i < length bs"
  by (simp add: get0_def split: if_splits)

lemma utf8_head_length:
  assumes "fst (utf8_head bs)" "bs \<noteq> []"
  shows "snd (utf8_head bs) \<le> length bs"
  using assms(1) [unfolded utf8_head_def]
proof (cases rule: utf8_seq_cases)
  case 1
  then show ?thesis using assms(2) by (simp add: utf8_head_def Suc_le_eq)
qed (auto simp: utf8_head_def dest!: get0_nonzero)

lemma utf8_head_prefix:
  assumes "fst (utf8_head bs)" "bs \<noteq> []"
  shows "utf8_head (take (snd (utf8_head bs)) bs @ ys) = utf8_head bs"
proof -
  let ?n = "snd (utf8_head bs)"
  have len: "?n \<le> length bs" using assms by (rule utf8_head_length)
  have same: "get0 (take ?n bs @ ys) i = get0 bs i" if "i < ?n" for i
    using that len by (simp add: get0_append get0_take)
  from assms(1) [unfolded utf8_head_def] show ?thesis
  proof (cases rule: utf8_seq_cases)
    case 1
    then show ?thesis using same [of 0] by (simp add: utf8_head_def)
  next
    case 2
    then show ?thesis using same [of 0] same [of 1] by (simp add: utf8_head_def)
  next
    case 3
    then show ?thesis using same [of 0] same [of 1] same [of 2] by (simp add: utf8_head_def)
  next
    case 4
    then show ?thesis using same [of 0] same [of 1] same [of 2] same [of 3]
      by (simp add: utf8_head_def)
  qed
qed

lemma utf8_head_fffd: "utf8_head (239 # 191 # 189 # ys) = (True, 3)"
  by (simp add: utf8_head_def utf8_seq_def get0_def utf8_second3_def utf8_cont_def)

lemma utf8_valid_lossy: "utf8_valid (utf8_lossy bs)"
proof (induction bs rule: utf8_lossy.induct)
  case (1 bs)
  show ?case
  proof (cases "bs = []")
    case True
    then show ?thesis by (simp add: utf8_lossy.simps utf8_valid.simps)
  next
    case False
    let ?rest = "utf8_lossy (drop (snd (utf8_head bs)) bs)"
    have IH: "utf8_valid ?rest" using 1 False by simp
    show ?thesis
    proof (cases "fst (utf8_head bs)")
      case True
      then have "snd (utf8_head bs) \<le> length bs" using False by (rule utf8_head_length)
      with True False IH utf8_head_prefix [OF True False, of ?rest] show ?thesis
        by (simp add: utf8_lossy.simps [of bs] utf8_valid.simps [of "take (snd (utf8_head bs)) bs @ ?rest"])
    next
      case bad: False
      with False IH show ?thesis
        by (simp add: utf8_lossy.simps [of bs] utf8_valid.simps [of "239 # 191 # 189 # ?rest"] utf8_head_fffd)
    qed
  qed
qed

text \<open>Replacing ill-formed bytes at most triples the length.\<close>

lemma length_utf8_lossy: "length (utf8_lossy bs) \<le> 3 * length bs"
proof (induction bs rule: utf8_lossy.induct)
  case (1 bs)
  show ?case
  proof (cases "bs = []")
    case True
    then show ?thesis by (simp add: utf8_lossy.simps)
  next
    case False
    then have "3 \<le> 3 * length bs" by (cases bs) simp_all
    then show ?thesis
      using 1 [OF False] utf8_head_pos [of bs] False
      by (cases "snd (utf8_head bs) \<le> length bs") (auto simp: utf8_lossy.simps [of bs])
  qed
qed

lemma length_from_utf8_lossy: "length (from_utf8_lossy bs) \<le> 3 * length bs"
  using length_utf8_lossy [of bs] by (simp add: from_utf8_lossy_def of_bytes_def)

lemma wf_from_utf8_lossy [simp]: "wf_str (from_utf8_lossy bs)"
  by (simp add: wf_str_def from_utf8_lossy_def utf8_valid_lossy)

text \<open>ASCII strings, and so every literal and every number of the program, are well formed.\<close>

lemma utf8_valid_ascii: "(\<And>b. b \<in> set bs \<Longrightarrow> unat b < 128) \<Longrightarrow> utf8_valid bs"
proof (induction bs)
  case Nil
  then show ?case by (simp add: utf8_valid.simps)
next
  case (Cons b bs)
  then have "utf8_head (b # bs) = (True, 1)" by (simp add: utf8_head_def utf8_seq_def get0_def)
  with Cons show ?case by (subst utf8_valid.simps) simp
qed

lemma wf_str_ascii: "(\<And>c. c \<in> set s \<Longrightarrow> of_char c < (128::nat)) \<Longrightarrow> wf_str s"
  unfolding wf_str_def by (rule utf8_valid_ascii) (auto simp: as_bytes_def unat_of_nat)

subsection \<open>Lemmas: decimal printing\<close>

definition read_nat :: "string \<Rightarrow> nat" where
  "read_nat s = foldl (\<lambda>a c. 10 * a + (of_char c - 48)) 0 s"

lemma of_char_digit [simp]: "d < 10 \<Longrightarrow> of_char (digit_char d) = 48 + d"
  by (simp add: digit_char_def)

lemma read_show_nat [simp]: "read_nat (show_nat n) = n"
proof (induction n rule: show_nat.induct)
  case (1 n)
  show ?case
  proof (cases "n < 10")
    case True
    then show ?thesis by (simp add: show_nat.simps read_nat_def)
  next
    case False
    with 1 have "read_nat (show_nat (n div 10)) = n div 10" by simp
    with False show ?thesis by (simp add: show_nat.simps [of n] read_nat_def)
  qed
qed

lemma show_nat_inject [simp]: "show_nat m = show_nat n \<longleftrightarrow> m = n"
  by (metis read_show_nat)

lemma show_nat_digits: "c \<in> set (show_nat n) \<Longrightarrow> (48::nat) \<le> of_char c \<and> of_char c < (58::nat)"
proof (induction n rule: show_nat.induct)
  case (1 n)
  show ?case
  proof (cases "n < 10")
    case True
    with 1 show ?thesis by (auto simp: show_nat.simps [of n])
  next
    case False
    with 1 show ?thesis by (auto simp: show_nat.simps [of n])
  qed
qed

lemma length_show_nat: "length (show_nat n) \<le> Suc n"
proof (induction n rule: show_nat.induct)
  case (1 n)
  show ?case
  proof (cases "n < 10")
    case True
    then show ?thesis by (simp add: show_nat.simps [of n])
  next
    case False
    with 1 have "length (show_nat (n div 10)) \<le> Suc (n div 10)" by simp
    with False show ?thesis by (simp add: show_nat.simps [of n])
  qed
qed

lemma minus_not_digit: "CHR ''-'' \<notin> set (show_nat n)"
  using show_nat_digits [of "CHR ''-''" n] by auto

lemma show_int_inject [simp]: "show_int i = show_int j \<longleftrightarrow> i = j"
proof -
  have "CHR ''-'' # s \<noteq> show_nat n" "show_nat n \<noteq> CHR ''-'' # s" for s n
    using minus_not_digit [of n] by (metis list.set_intros(1))+
  then show ?thesis by (auto simp: show_int_def)
qed

lemma wf_show_int [simp]: "wf_str (show_int i)"
  by (rule wf_str_ascii) (auto simp: show_int_def split: if_splits dest: show_nat_digits)

subsection \<open>Lemmas: conversions\<close>

lemma shifted_mod:
  fixes k m :: int
  assumes "0 \<le> k" "k < 2 * m"
  shows "(k + m) mod (2 * m) - m = (if k < m then k else k - 2 * m)"
proof (cases "k < m")
  case True
  with assms have "(k + m) mod (2 * m) = k + m" by (intro mod_pos_pos_trivial) auto
  with True show ?thesis by simp
next
  case False
  have "(k + m) mod (2 * m) = (k - m) mod (2 * m)"
    using mod_add_self2 [of "k - m" "2 * m"] by (simp add: algebra_simps)
  also have "\<dots> = k - m" using assms False by (intro mod_pos_pos_trivial) auto
  finally show ?thesis using False by simp
qed

lemma sint_cases_64:
  "sint (v :: 64 word) = (if unat v < 2 ^ 63 then int (unat v) else int (unat v) - 2 ^ 64)"
proof -
  have "0 \<le> uint v" "uint v < 2 * 2 ^ 63"
    using unsigned_less [of v, where ?'a = int] by simp_all
  from shifted_mod [OF this] show ?thesis
    by (simp add: sint_uint signed_take_bit_eq_take_bit_shift take_bit_eq_mod nat_less_iff
        flip: nat_uint_eq)
qed

lemma sint_cases_32:
  "sint (v :: 32 word) = (if unat v < 2 ^ 31 then int (unat v) else int (unat v) - 2 ^ 32)"
proof -
  have "0 \<le> uint v" "uint v < 2 * 2 ^ 31"
    using unsigned_less [of v, where ?'a = int] by simp_all
  from shifted_mod [OF this] show ?thesis
    by (simp add: sint_uint signed_take_bit_eq_take_bit_shift take_bit_eq_mod nat_less_iff
        flip: nat_uint_eq)
qed

lemma unat_less_64: "unat (v :: 64 word) < 2 ^ 64"
  using unsigned_less [of v, where ?'a = nat] by simp

lemma unat_less_32: "unat (v :: 32 word) < 2 ^ 32"
  using unsigned_less [of v, where ?'a = nat] by simp

lemma sint_nonneg_iff_64: "0 \<le> sint (v :: 64 word) \<longleftrightarrow> unat v < 2 ^ 63"
  using unsigned_less [of v, where ?'a = int] by (simp add: sint_cases_64)

lemma sint_nonneg_iff_32: "0 \<le> sint (v :: 32 word) \<longleftrightarrow> unat v < 2 ^ 31"
  using unsigned_less [of v, where ?'a = int] by (simp add: sint_cases_32)

lemma u64_i64_roundtrip [conv_simps]: "0 \<le> sint v \<Longrightarrow> u64_to_i64_max (i64_to_u64_or_0 v) = v"
  using sint_nonneg_iff_64 [of v] by (simp add: u64_to_i64_max_def i64_to_u64_or_0_def)

lemma u32_i32_roundtrip [conv_simps]: "0 \<le> sint v \<Longrightarrow> u32_to_i32_max (i32_to_u32_max v) = v"
  using sint_nonneg_iff_32 [of v] by (simp add: u32_to_i32_max_def i32_to_u32_max_def)

lemma u64_to_i64_max_nonneg [simp]: "0 \<le> sint (u64_to_i64_max v)"
  by (simp add: u64_to_i64_max_def sint_nonneg_iff_64)

lemma u32_to_i32_max_nonneg [simp]: "0 \<le> sint (u32_to_i32_max v)"
  by (simp add: u32_to_i32_max_def sint_nonneg_iff_32)

lemma u64_to_i64_max_eq_0 [simp]: "u64_to_i64_max v = 0 \<longleftrightarrow> v = 0"
  by (auto simp: u64_to_i64_max_def)

lemma unat_ucast_32_64 [simp]: "unat (ucast (w :: 32 word) :: 64 word) = unat w"
  using unat_less_32 [of w] by (simp add: unsigned_ucast_eq take_bit_nat_eq_self)

lemma sint_ucast_32_64: "sint (ucast (w :: 32 word) :: 64 word) = int (unat w)"
  using unat_less_32 [of w] by (simp add: sint_cases_64)

lemma ucast_32_64_eq_0: "(ucast (w :: 32 word) :: 64 word) = 0 \<longleftrightarrow> w = 0"
  by (metis unat_ucast_32_64 unsigned_eq_0_iff)

lemma sint_small_32: "0 \<le> n \<Longrightarrow> n < 2 ^ 31 \<Longrightarrow> sint (word_of_int n :: 32 word) = n"
  by (simp add: sint_uint signed_take_bit_int_eq_self take_bit_int_eq_self uint_word_of_int_eq)

lemma sint_less_32: "sint (v :: 32 word) < 2 ^ 31"
  using sint_lt [of v] by simp

subsection \<open>Systems of interleaved threads\<close>

text \<open>
  The interface of a step relation with an inductive invariant. A second predicate that is stable under
  steps from states with the invariant holds ever after.
\<close>

locale invariant_system =
  fixes start :: 's and step :: "'s \<Rightarrow> 's \<Rightarrow> bool" and inv :: "'s \<Rightarrow> bool"
  assumes inv_start: "inv start"
    and inv_step: "step s s' \<Longrightarrow> inv s \<Longrightarrow> inv s'"
begin

lemma inv_steps: "step\<^sup>*\<^sup>* s s' \<Longrightarrow> inv s \<Longrightarrow> inv s'"
  by (induction rule: rtranclp_induct) (auto intro: inv_step)

lemma inv_always: "step\<^sup>*\<^sup>* start s \<Longrightarrow> inv s"
  using inv_steps [OF _ inv_start] .

lemma stable_ever_after:
  assumes "step\<^sup>*\<^sup>* s s'" "inv s" "Q s" and "\<And>u u'. step u u' \<Longrightarrow> inv u \<Longrightarrow> Q u \<Longrightarrow> Q u'"
  shows "Q s'"
  using assms(1)
proof (induction rule: rtranclp_induct)
  case (step u u')
  then show ?case using assms(4) inv_steps [OF step(1) assms(2)] by blast
qed (fact assms(3))

end

end
