(* ===== verification/Messaging.thy ===== *)
theory Messaging
  imports Client_Prelude
begin

text \<open>
  The binary protocol of \<^verbatim>\<open>src/src/src/messaging.rs\<close>: message identifiers, job states, the
  \<^verbatim>\<open>Priority\<close> enumeration, the \<^verbatim>\<open>Message\<close> structure with its write buffer and read cursor, and every
  push and pop operation. A message is built by appending little-endian fields to its buffer and read
  by popping them in the same order; a read that would run past the buffer returns a default and
  leaves the cursor where it was.

  The locale \<open>wire_codec\<close> is the contract between a push operation and its pop operation. It is
  interpreted for the thirteen pairs of the source. The lemmas at the end use it to show that any
  sequence of pushes is read back unchanged behind the header, and that no read, on any bytes
  whatever, moves the cursor past the end of the buffer.
\<close>

subsection \<open>Identifiers, states and priorities\<close>

abbreviation SYSTEM_SOURCE :: string where "SYSTEM_SOURCE \<equiv> ''system''"
abbreviation JOB_COMPLETION_SOURCE :: string where "JOB_COMPLETION_SOURCE \<equiv> ''_job_completion_''"

abbreviation SERVER_READY :: u32 where "SERVER_READY \<equiv> 1000"
abbreviation SUBMIT_JOB :: u32 where "SUBMIT_JOB \<equiv> 2000"
abbreviation UPDATE_JOB :: u32 where "UPDATE_JOB \<equiv> 2001"
abbreviation CANCEL_JOB :: u32 where "CANCEL_JOB \<equiv> 2002"
abbreviation DELETE_JOB :: u32 where "DELETE_JOB \<equiv> 2003"
abbreviation FILE_DOWNLOAD :: u32 where "FILE_DOWNLOAD \<equiv> 4000"
abbreviation FILE_DOWNLOAD_DETAILS :: u32 where "FILE_DOWNLOAD_DETAILS \<equiv> 4001"
abbreviation FILE_DOWNLOAD_ERROR :: u32 where "FILE_DOWNLOAD_ERROR \<equiv> 4002"
abbreviation FILE_CHUNK :: u32 where "FILE_CHUNK \<equiv> 4003"
abbreviation PAUSE_FILE_CHUNK_STREAM :: u32 where "PAUSE_FILE_CHUNK_STREAM \<equiv> 4004"
abbreviation RESUME_FILE_CHUNK_STREAM :: u32 where "RESUME_FILE_CHUNK_STREAM \<equiv> 4005"
abbreviation FILE_LIST :: u32 where "FILE_LIST \<equiv> 4006"
abbreviation FILE_LIST_ERROR :: u32 where "FILE_LIST_ERROR \<equiv> 4007"
abbreviation UPLOAD_FILE :: u32 where "UPLOAD_FILE \<equiv> 4500"
abbreviation FILE_UPLOAD_CHUNK :: u32 where "FILE_UPLOAD_CHUNK \<equiv> 4501"
abbreviation FILE_UPLOAD_ERROR :: u32 where "FILE_UPLOAD_ERROR \<equiv> 4502"
abbreviation FILE_UPLOAD_COMPLETE :: u32 where "FILE_UPLOAD_COMPLETE \<equiv> 4503"
abbreviation DB_JOB_GET_BY_JOB_ID :: u32 where "DB_JOB_GET_BY_JOB_ID \<equiv> 5000"
abbreviation DB_JOB_GET_BY_ID :: u32 where "DB_JOB_GET_BY_ID \<equiv> 5001"
abbreviation DB_JOB_GET_RUNNING_JOBS :: u32 where "DB_JOB_GET_RUNNING_JOBS \<equiv> 5002"
abbreviation DB_JOB_DELETE :: u32 where "DB_JOB_DELETE \<equiv> 5003"
abbreviation DB_JOB_SAVE :: u32 where "DB_JOB_SAVE \<equiv> 5004"
abbreviation DB_JOBSTATUS_GET_BY_JOB_ID_AND_WHAT :: u32 where
  "DB_JOBSTATUS_GET_BY_JOB_ID_AND_WHAT \<equiv> 6000"
abbreviation DB_JOBSTATUS_GET_BY_JOB_ID :: u32 where "DB_JOBSTATUS_GET_BY_JOB_ID \<equiv> 6001"
abbreviation DB_JOBSTATUS_DELETE_BY_ID_LIST :: u32 where "DB_JOBSTATUS_DELETE_BY_ID_LIST \<equiv> 6002"
abbreviation DB_JOBSTATUS_SAVE :: u32 where "DB_JOBSTATUS_SAVE \<equiv> 6003"
abbreviation DB_RESPONSE :: u32 where "DB_RESPONSE \<equiv> 7000"
abbreviation DB_BUNDLE_CREATE_OR_UPDATE_JOB :: u32 where "DB_BUNDLE_CREATE_OR_UPDATE_JOB \<equiv> 8000"
abbreviation DB_BUNDLE_GET_JOB_BY_ID :: u32 where "DB_BUNDLE_GET_JOB_BY_ID \<equiv> 8001"
abbreviation DB_BUNDLE_DELETE_JOB :: u32 where "DB_BUNDLE_DELETE_JOB \<equiv> 8002"

abbreviation SUBMITTED :: u32 where "SUBMITTED \<equiv> 30"
abbreviation CANCELLED :: u32 where "CANCELLED \<equiv> 70"
abbreviation DELETED :: u32 where "DELETED \<equiv> 90"
abbreviation ERROR :: u32 where "ERROR \<equiv> 400"
abbreviation COMPLETED :: u32 where "COMPLETED \<equiv> 500"

datatype priority = Highest | Medium | Lowest

fun priority_level :: "priority \<Rightarrow> nat" where
  "priority_level Highest = 0"
| "priority_level Medium = 10"
| "priority_level Lowest = 19"

instantiation priority :: linorder
begin

definition less_eq_priority :: "priority \<Rightarrow> priority \<Rightarrow> bool" where
  "less_eq_priority p q \<longleftrightarrow> priority_level p \<le> priority_level q"

definition less_priority :: "priority \<Rightarrow> priority \<Rightarrow> bool" where
  "less_priority p q \<longleftrightarrow> priority_level p < priority_level q"

instance
proof
  fix p q :: priority
  show "p \<le> q \<Longrightarrow> q \<le> p \<Longrightarrow> p = q"
    by (cases p; cases q) (auto simp: less_eq_priority_def)
qed (auto simp: less_eq_priority_def less_priority_def)

end

subsection \<open>Messages\<close>

record message =
  msg_id :: u32
  msg_source :: string
  msg_priority :: priority
  msg_data :: bytes
  msg_index :: nat

definition append_raw_bytes :: "message \<Rightarrow> bytes \<Rightarrow> message" where
  "append_raw_bytes m bs = m\<lparr>msg_data := msg_data m @ bs\<rparr>"

definition remaining_len :: "message \<Rightarrow> nat" where
  "remaining_len m = length (msg_data m) - msg_index m"

definition get_data :: "message \<Rightarrow> bytes" where
  "get_data m = msg_data m"

text \<open>
  The common shape of the fixed-width reads: check, read \<open>n\<close> bytes at the cursor, advance.
  \<open>None\<close> is the underflow branch, in which the caller returns its default.
\<close>

definition pop_fixed :: "nat \<Rightarrow> message \<Rightarrow> nat option \<times> message" where
  "pop_fixed n m =
     (if msg_index m + n > length (msg_data m) then (None, m)
      else (Some (le_decode (take n (drop (msg_index m) (msg_data m)))),
            m\<lparr>msg_index := msg_index m + n\<rparr>))"

definition pop_word :: "nat \<Rightarrow> message \<Rightarrow> 'a::len word \<times> message" where
  "pop_word n m = (case pop_fixed n m of (None, m') \<Rightarrow> (0, m') | (Some k, m') \<Rightarrow> (of_nat k, m'))"

definition push_word :: "nat \<Rightarrow> message \<Rightarrow> 'a::len word \<Rightarrow> message" where
  "push_word n m v = append_raw_bytes m (le_encode n (unat v))"

definition push_ubyte :: "message \<Rightarrow> u8 \<Rightarrow> message" where
  "push_ubyte m v = push_word 1 m v"

definition pop_ubyte :: "message \<Rightarrow> u8 \<times> message" where
  "pop_ubyte m = pop_word 1 m"

definition push_bool :: "message \<Rightarrow> bool \<Rightarrow> message" where
  "push_bool m b = push_ubyte m (if b then 1 else 0)"

definition pop_bool :: "message \<Rightarrow> bool \<times> message" where
  "pop_bool m = (case pop_ubyte m of (v, m') \<Rightarrow> (v = 1, m'))"

definition push_byte :: "message \<Rightarrow> 8 word \<Rightarrow> message" where
  "push_byte m v = push_word 1 m v"

definition pop_byte :: "message \<Rightarrow> 8 word \<times> message" where
  "pop_byte m = pop_word 1 m"

definition push_ushort :: "message \<Rightarrow> u16 \<Rightarrow> message" where
  "push_ushort m v = push_word 2 m v"

definition pop_ushort :: "message \<Rightarrow> u16 \<times> message" where
  "pop_ushort m = pop_word 2 m"

definition push_short :: "message \<Rightarrow> 16 word \<Rightarrow> message" where
  "push_short m v = push_word 2 m v"

definition pop_short :: "message \<Rightarrow> 16 word \<times> message" where
  "pop_short m = pop_word 2 m"

definition push_uint :: "message \<Rightarrow> u32 \<Rightarrow> message" where
  "push_uint m v = push_word 4 m v"

definition pop_uint :: "message \<Rightarrow> u32 \<times> message" where
  "pop_uint m = pop_word 4 m"

definition push_int :: "message \<Rightarrow> i32 \<Rightarrow> message" where
  "push_int m v = push_word 4 m v"

definition pop_int :: "message \<Rightarrow> i32 \<times> message" where
  "pop_int m = pop_word 4 m"

definition push_ulong :: "message \<Rightarrow> u64 \<Rightarrow> message" where
  "push_ulong m v = push_word 8 m v"

definition pop_ulong :: "message \<Rightarrow> u64 \<times> message" where
  "pop_ulong m = pop_word 8 m"

definition push_long :: "message \<Rightarrow> i64 \<Rightarrow> message" where
  "push_long m v = push_word 8 m v"

definition pop_long :: "message \<Rightarrow> i64 \<times> message" where
  "pop_long m = pop_word 8 m"

text \<open>Floating-point values are their IEEE bit patterns; \<^verbatim>\<open>0.0\<close> is the pattern 0.\<close>

definition push_float :: "message \<Rightarrow> 32 word \<Rightarrow> message" where
  "push_float m v = push_word 4 m v"

definition pop_float :: "message \<Rightarrow> 32 word \<times> message" where
  "pop_float m = pop_word 4 m"

definition push_double :: "message \<Rightarrow> 64 word \<Rightarrow> message" where
  "push_double m v = push_word 8 m v"

definition pop_double :: "message \<Rightarrow> 64 word \<times> message" where
  "pop_double m = pop_word 8 m"

definition push_bytes :: "message \<Rightarrow> bytes \<Rightarrow> message" where
  "push_bytes m bs = append_raw_bytes (push_ulong m (of_nat (length bs))) bs"

definition pop_bytes :: "message \<Rightarrow> bytes \<times> message" where
  "pop_bytes m =
     (case pop_ulong m of (v, m') \<Rightarrow>
        let len = unat v in
        if len = 0 then ([], m')
        else if len > length (msg_data m') - msg_index m' then ([], m')
        else (take len (drop (msg_index m') (msg_data m')),
              m'\<lparr>msg_index := msg_index m' + len\<rparr>))"

definition push_string :: "message \<Rightarrow> string \<Rightarrow> message" where
  "push_string m s = append_raw_bytes (push_ulong m (of_nat (length s))) (as_bytes s)"

definition pop_string :: "message \<Rightarrow> string \<times> message" where
  "pop_string m = (case pop_bytes m of (bs, m') \<Rightarrow> (from_utf8_lossy bs, m'))"

definition message_new :: "u32 \<Rightarrow> priority \<Rightarrow> string \<Rightarrow> message" where
  "message_new i p src =
     push_uint
       (push_string
          \<lparr>msg_id = i, msg_source = src, msg_priority = p, msg_data = [], msg_index = 0\<rparr> src) i"

definition from_data :: "bytes \<Rightarrow> message" where
  "from_data bs =
     (case pop_string
        \<lparr>msg_id = 0, msg_source = [], msg_priority = Lowest, msg_data = bs, msg_index = 0\<rparr> of
        (s, m) \<Rightarrow> (case pop_uint (m\<lparr>msg_source := s\<rparr>) of (i, m') \<Rightarrow> m'\<lparr>msg_id := i\<rparr>))"

definition clone_for_payload_reading :: "message \<Rightarrow> message" where
  "clone_for_payload_reading m = (if msg_index m = 0 then from_data (msg_data m) else m)"

definition clone_payload_bytes :: "message \<Rightarrow> bytes" where
  "clone_payload_bytes m = (let parsed = from_data (msg_data m) in drop (msg_index parsed) (msg_data parsed))"

subsection \<open>Sequences of fields\<close>

text \<open>
  The handlers of the client push and pop fields of mixed types in a fixed order. A value tagged
  with its type stands for one push, the tag alone for one pop.
\<close>

datatype wire_tag =
  TBool | TUbyte | TByte | TUshort | TShort | TUint | TInt | TUlong | TLong | TFloat | TDouble
  | TBytes | TString

datatype wire_value =
  VBool bool | VUbyte u8 | VByte "8 word" | VUshort u16 | VShort "16 word" | VUint u32 | VInt i32
  | VUlong u64 | VLong i64 | VFloat "32 word" | VDouble "64 word" | VBytes bytes | VString string

fun tag_of :: "wire_value \<Rightarrow> wire_tag" where
  "tag_of (VBool _) = TBool" | "tag_of (VUbyte _) = TUbyte" | "tag_of (VByte _) = TByte"
| "tag_of (VUshort _) = TUshort" | "tag_of (VShort _) = TShort" | "tag_of (VUint _) = TUint"
| "tag_of (VInt _) = TInt" | "tag_of (VUlong _) = TUlong" | "tag_of (VLong _) = TLong"
| "tag_of (VFloat _) = TFloat" | "tag_of (VDouble _) = TDouble" | "tag_of (VBytes _) = TBytes"
| "tag_of (VString _) = TString"

fun push_value :: "message \<Rightarrow> wire_value \<Rightarrow> message" where
  "push_value m (VBool v) = push_bool m v"
| "push_value m (VUbyte v) = push_ubyte m v"
| "push_value m (VByte v) = push_byte m v"
| "push_value m (VUshort v) = push_ushort m v"
| "push_value m (VShort v) = push_short m v"
| "push_value m (VUint v) = push_uint m v"
| "push_value m (VInt v) = push_int m v"
| "push_value m (VUlong v) = push_ulong m v"
| "push_value m (VLong v) = push_long m v"
| "push_value m (VFloat v) = push_float m v"
| "push_value m (VDouble v) = push_double m v"
| "push_value m (VBytes v) = push_bytes m v"
| "push_value m (VString v) = push_string m v"

fun pop_value :: "wire_tag \<Rightarrow> message \<Rightarrow> wire_value \<times> message" where
  "pop_value TBool m = map_prod VBool id (pop_bool m)"
| "pop_value TUbyte m = map_prod VUbyte id (pop_ubyte m)"
| "pop_value TByte m = map_prod VByte id (pop_byte m)"
| "pop_value TUshort m = map_prod VUshort id (pop_ushort m)"
| "pop_value TShort m = map_prod VShort id (pop_short m)"
| "pop_value TUint m = map_prod VUint id (pop_uint m)"
| "pop_value TInt m = map_prod VInt id (pop_int m)"
| "pop_value TUlong m = map_prod VUlong id (pop_ulong m)"
| "pop_value TLong m = map_prod VLong id (pop_long m)"
| "pop_value TFloat m = map_prod VFloat id (pop_float m)"
| "pop_value TDouble m = map_prod VDouble id (pop_double m)"
| "pop_value TBytes m = map_prod VBytes id (pop_bytes m)"
| "pop_value TString m = map_prod VString id (pop_string m)"

definition push_values :: "message \<Rightarrow> wire_value list \<Rightarrow> message" where
  "push_values m vs = foldl push_value m vs"

fun pop_values :: "wire_tag list \<Rightarrow> message \<Rightarrow> wire_value list \<times> message" where
  "pop_values [] m = ([], m)"
| "pop_values (t # ts) m =
     (case pop_value t m of (v, m') \<Rightarrow> case pop_values ts m' of (vs, m'') \<Rightarrow> (v # vs, m''))"

text \<open>
  What a value must satisfy to be a value of its Rust type: a \<^verbatim>\<open>String\<close> is UTF-8, and no buffer in
  memory is longer than the address space.
\<close>

fun wf_value :: "wire_value \<Rightarrow> bool" where
  "wf_value (VBytes bs) \<longleftrightarrow> length bs < 2 ^ 64"
| "wf_value (VString s) \<longleftrightarrow> wf_str s \<and> length s < 2 ^ 64"
| "wf_value _ \<longleftrightarrow> True"

definition wf_message :: "message \<Rightarrow> bool" where
  "wf_message m \<longleftrightarrow> msg_index m \<le> length (msg_data m)"

definition unread :: "message \<Rightarrow> bytes" where
  "unread m = drop (msg_index m) (msg_data m)"

definition advance :: "nat \<Rightarrow> message \<Rightarrow> message" where
  "advance n m = m\<lparr>msg_index := msg_index m + n\<rparr>"

subsection \<open>Lemmas: the cursor\<close>

lemma msg_frame [simp]:
  "msg_data (advance n m) = msg_data m" "msg_id (advance n m) = msg_id m"
  "msg_source (advance n m) = msg_source m" "msg_priority (advance n m) = msg_priority m"
  "msg_index (advance n m) = msg_index m + n"
  by (simp_all add: advance_def)

lemma append_frame [simp]:
  "msg_data (append_raw_bytes m bs) = msg_data m @ bs" "msg_id (append_raw_bytes m bs) = msg_id m"
  "msg_source (append_raw_bytes m bs) = msg_source m"
  "msg_priority (append_raw_bytes m bs) = msg_priority m"
  "msg_index (append_raw_bytes m bs) = msg_index m"
  by (simp_all add: append_raw_bytes_def)

lemma append_append [simp]:
  "append_raw_bytes (append_raw_bytes m xs) ys = append_raw_bytes m (xs @ ys)"
  by (simp add: append_raw_bytes_def)

lemma append_raw_nil [simp]: "append_raw_bytes m [] = m"
  by (simp add: append_raw_bytes_def)

lemma advance_0 [simp]: "advance 0 m = m"
  by (simp add: advance_def)

lemma advance_advance [simp]: "advance a (advance b m) = advance (b + a) m"
  by (simp add: advance_def add.assoc)

lemma length_unread [simp]: "length (unread m) = remaining_len m"
  by (simp add: unread_def remaining_len_def)

lemma unread_advance [cursor_simps]: "unread (advance n m) = drop n (unread m)"
  by (simp add: unread_def add.commute)

lemma remaining_advance [cursor_simps]: "remaining_len (advance n m) = remaining_len m - n"
  by (simp add: remaining_len_def)

lemma wf_advance: "wf_message m \<Longrightarrow> n \<le> remaining_len m \<Longrightarrow> wf_message (advance n m)"
  by (simp add: wf_message_def remaining_len_def)

lemma pop_fixed_unread:
  assumes "unread m = bs @ rest" "bs \<noteq> []" "length bs = n"
  shows "pop_fixed n m = (Some (le_decode bs), advance n m)"
proof -
  from assms have "n \<le> remaining_len m" "0 < n"
    by (metis length_unread length_append le_add1, auto)
  then have "msg_index m + n \<le> length (msg_data m)" by (auto simp: remaining_len_def)
  with assms show ?thesis by (simp add: pop_fixed_def unread_def advance_def)
qed

lemma pop_fixed_short: "remaining_len m < n \<Longrightarrow> pop_fixed n m = (None, m)"
  by (auto simp: pop_fixed_def remaining_len_def)

lemma pop_fixed_cursor: "\<exists>k \<le> remaining_len m. snd (pop_fixed n m) = advance k m"
  by (auto simp: pop_fixed_def remaining_len_def advance_def intro: exI [of _ n] exI [of _ 0])

lemma pop_word_cursor: "\<exists>k \<le> remaining_len m. snd (pop_word n m :: 'a::len word \<times> message) = advance k m"
proof -
  have "snd (pop_word n m :: 'a word \<times> message) = snd (pop_fixed n m)"
    by (simp add: pop_word_def split: prod.split option.split)
  then show ?thesis using pop_fixed_cursor [of m n] by simp
qed

lemma pop_word_unread:
  assumes "LENGTH('a::len) = 8 * n" "unread m = le_encode n (unat v) @ rest"
  shows "pop_word n m = (v :: 'a word, advance n m)"
proof -
  have "n \<noteq> 0" using assms(1) by (metis len_gt_0 mult_0_right less_irrefl)
  then have "le_encode n (unat v) \<noteq> []" by (cases n) auto
  then have "pop_fixed n m = (Some (le_decode (le_encode n (unat v))), advance n m)"
    by (intro pop_fixed_unread [OF assms(2)]) auto
  then show ?thesis by (simp add: pop_word_def le_word_roundtrip [OF assms(1)])
qed

lemma pop_word_short: "remaining_len m < n \<Longrightarrow> pop_word n m = (0, m)"
  by (simp add: pop_word_def pop_fixed_short)

subsection \<open>The contract of a push and its pop\<close>

locale wire_codec =
  fixes push :: "message \<Rightarrow> 'v \<Rightarrow> message"
    and pop :: "message \<Rightarrow> 'v \<times> message"
    and enc :: "'v \<Rightarrow> bytes"
    and ok :: "'v \<Rightarrow> bool"
  assumes push_enc: "push m v = append_raw_bytes m (enc v)"
    and pop_enc: "ok v \<Longrightarrow> unread m = enc v @ rest \<Longrightarrow> pop m = (v, advance (length (enc v)) m)"
    and pop_cursor: "\<exists>k \<le> remaining_len m. snd (pop m) = advance k m"
begin

lemma data_pop: "msg_data (snd (pop m)) = msg_data m"
  using pop_cursor [of m] by auto

lemma wf_pop: "wf_message m \<Longrightarrow> wf_message (snd (pop m))"
  using pop_cursor [of m] by (auto simp: wf_advance)

lemma index_pop: "msg_index m \<le> msg_index (snd (pop m))"
  using pop_cursor [of m] by auto

text \<open>Reading a field that was pushed when the reader had consumed everything before it.\<close>

lemma pop_push:
  assumes "ok v" "unread m = []" "wf_message m"
  shows "pop (push m v) = (v, advance (length (enc v)) (push m v))"
  by (rule pop_enc [OF assms(1), of _ "[]"])
    (use assms in \<open>simp add: push_enc unread_def wf_message_def\<close>)

lemma unread_pop: "ok v \<Longrightarrow> unread m = enc v @ rest \<Longrightarrow> unread (snd (pop m)) = rest"
  by (simp add: pop_enc cursor_simps)

end

subsection \<open>The codecs of the source\<close>

lemma wire_codec_word:
  assumes "LENGTH('a::len) = 8 * n"
  shows "wire_codec (push_word n) (pop_word n :: message \<Rightarrow> 'a word \<times> message)
           (\<lambda>v. le_encode n (unat v)) (\<lambda>_. True)"
  by unfold_locales
    (simp_all add: push_word_def pop_word_unread [OF assms] pop_word_cursor)

interpretation ubyte: wire_codec push_ubyte pop_ubyte "\<lambda>v. le_encode 1 (unat v)" "\<lambda>_. True"
  using wire_codec_word [where 'a = 8, of 1]
  by (simp add: push_ubyte_def [abs_def] pop_ubyte_def [abs_def])

interpretation byte: wire_codec push_byte pop_byte "\<lambda>v. le_encode 1 (unat v)" "\<lambda>_. True"
  using wire_codec_word [where 'a = 8, of 1]
  by (simp add: push_byte_def [abs_def] pop_byte_def [abs_def])

interpretation ushort: wire_codec push_ushort pop_ushort "\<lambda>v. le_encode 2 (unat v)" "\<lambda>_. True"
  using wire_codec_word [where 'a = 16, of 2]
  by (simp add: push_ushort_def [abs_def] pop_ushort_def [abs_def])

interpretation short: wire_codec push_short pop_short "\<lambda>v. le_encode 2 (unat v)" "\<lambda>_. True"
  using wire_codec_word [where 'a = 16, of 2]
  by (simp add: push_short_def [abs_def] pop_short_def [abs_def])

interpretation uint: wire_codec push_uint pop_uint "\<lambda>v. le_encode 4 (unat v)" "\<lambda>_. True"
  using wire_codec_word [where 'a = 32, of 4]
  by (simp add: push_uint_def [abs_def] pop_uint_def [abs_def])

interpretation int: wire_codec push_int pop_int "\<lambda>v. le_encode 4 (unat v)" "\<lambda>_. True"
  using wire_codec_word [where 'a = 32, of 4]
  by (simp add: push_int_def [abs_def] pop_int_def [abs_def])

interpretation ulong: wire_codec push_ulong pop_ulong "\<lambda>v. le_encode 8 (unat v)" "\<lambda>_. True"
  using wire_codec_word [where 'a = 64, of 8]
  by (simp add: push_ulong_def [abs_def] pop_ulong_def [abs_def])

interpretation long: wire_codec push_long pop_long "\<lambda>v. le_encode 8 (unat v)" "\<lambda>_. True"
  using wire_codec_word [where 'a = 64, of 8]
  by (simp add: push_long_def [abs_def] pop_long_def [abs_def])

interpretation float: wire_codec push_float pop_float "\<lambda>v. le_encode 4 (unat v)" "\<lambda>_. True"
  using wire_codec_word [where 'a = 32, of 4]
  by (simp add: push_float_def [abs_def] pop_float_def [abs_def])

interpretation double: wire_codec push_double pop_double "\<lambda>v. le_encode 8 (unat v)" "\<lambda>_. True"
  using wire_codec_word [where 'a = 64, of 8]
  by (simp add: push_double_def [abs_def] pop_double_def [abs_def])

definition enc_bool :: "bool \<Rightarrow> bytes" where
  "enc_bool b = le_encode 1 (unat (if b then 1 else 0 :: u8))"

definition enc_bytes :: "bytes \<Rightarrow> bytes" where
  "enc_bytes bs = le_encode 8 (unat (of_nat (length bs) :: u64)) @ bs"

definition enc_string :: "string \<Rightarrow> bytes" where
  "enc_string s = enc_bytes (as_bytes s)"

interpretation boolean: wire_codec push_bool pop_bool enc_bool "\<lambda>_. True"
proof unfold_locales
  fix m v rest
  show "push_bool m v = append_raw_bytes m (enc_bool v)"
    by (simp add: push_bool_def ubyte.push_enc enc_bool_def)
  show "pop_bool m = (v, advance (length (enc_bool v)) m)" if "unread m = enc_bool v @ rest"
    using ubyte.pop_enc [OF TrueI, of m "if v then 1 else 0"] that
    by (auto simp: pop_bool_def enc_bool_def)
  have "snd (pop_bool m) = snd (pop_ubyte m)" by (simp add: pop_bool_def split: prod.split)
  then show "\<exists>k\<le>remaining_len m. snd (pop_bool m) = advance k m"
    using ubyte.pop_cursor [of m] by simp
qed

lemma pop_bytes_cases:
  obtains k v where "pop_ulong m = (v, advance k m)" "k \<le> remaining_len m"
  using ulong.pop_cursor [of m] by (metis prod.collapse)

lemma pop_bytes_cursor: "\<exists>k\<le>remaining_len m. snd (pop_bytes m) = advance k m"
proof -
  obtain k v where k: "pop_ulong m = (v, advance k m)" "k \<le> remaining_len m"
    by (rule pop_bytes_cases)
  show ?thesis
  proof (cases "unat v = 0 \<or> unat v > length (msg_data m) - (msg_index m + k)")
    case True
    with k show ?thesis by (auto simp: pop_bytes_def Let_def)
  next
    case False
    with k have "k + unat v \<le> remaining_len m" by (auto simp: remaining_len_def)
    moreover from False k have "snd (pop_bytes m) = advance (k + unat v) m"
      by (simp add: pop_bytes_def Let_def advance_def add.assoc)
    ultimately show ?thesis by blast
  qed
qed

lemma pop_bytes_unread:
  assumes "length bs < 2 ^ 64" "unread m = enc_bytes bs @ rest"
  shows "pop_bytes m = (bs, advance (length (enc_bytes bs)) m)"
proof -
  let ?m' = "advance 8 m"
  have pop: "pop_ulong m = (of_nat (length bs), ?m')"
    using ulong.pop_enc [OF TrueI, of m "of_nat (length bs)"] assms(2)
    by (simp add: enc_bytes_def del: le_encode.simps)
  have len: "unat (of_nat (length bs) :: u64) = length bs"
    using assms(1) by (simp add: unat_of_nat)
  have rest: "unread ?m' = bs @ rest" using assms(2) by (simp add: cursor_simps enc_bytes_def)
  then have "length bs \<le> remaining_len ?m'" by (metis length_unread length_append le_add1)
  with pop len rest show ?thesis
    by (auto simp: pop_bytes_def Let_def remaining_len_def unread_def enc_bytes_def advance_def)
qed

interpretation bytes: wire_codec push_bytes pop_bytes enc_bytes "\<lambda>bs. length bs < 2 ^ 64"
  by unfold_locales
    (simp_all add: push_bytes_def ulong.push_enc enc_bytes_def [symmetric] pop_bytes_unread
      pop_bytes_cursor)

interpretation str: wire_codec push_string pop_string enc_string "\<lambda>s. wf_str s \<and> length s < 2 ^ 64"
proof unfold_locales
  fix m s rest
  show "push_string m s = append_raw_bytes m (enc_string s)"
    by (simp add: push_string_def enc_string_def enc_bytes_def ulong.push_enc)
  show "pop_string m = (s, advance (length (enc_string s)) m)"
    if "wf_str s \<and> length s < 2 ^ 64" "unread m = enc_string s @ rest"
    using that pop_bytes_unread [of "as_bytes s" m rest]
    by (simp add: pop_string_def enc_string_def)
  have "snd (pop_string m) = snd (pop_bytes m)" by (simp add: pop_string_def split: prod.split)
  then show "\<exists>k\<le>remaining_len m. snd (pop_string m) = advance k m"
    using pop_bytes_cursor [of m] by simp
qed

fun enc_value :: "wire_value \<Rightarrow> bytes" where
  "enc_value (VBool v) = enc_bool v"
| "enc_value (VUbyte v) = le_encode 1 (unat v)"
| "enc_value (VByte v) = le_encode 1 (unat v)"
| "enc_value (VUshort v) = le_encode 2 (unat v)"
| "enc_value (VShort v) = le_encode 2 (unat v)"
| "enc_value (VUint v) = le_encode 4 (unat v)"
| "enc_value (VInt v) = le_encode 4 (unat v)"
| "enc_value (VUlong v) = le_encode 8 (unat v)"
| "enc_value (VLong v) = le_encode 8 (unat v)"
| "enc_value (VFloat v) = le_encode 4 (unat v)"
| "enc_value (VDouble v) = le_encode 8 (unat v)"
| "enc_value (VBytes v) = enc_bytes v"
| "enc_value (VString v) = enc_string v"

definition enc_values :: "wire_value list \<Rightarrow> bytes" where
  "enc_values vs = concat (map enc_value vs)"

lemmas push_encs = ubyte.push_enc byte.push_enc boolean.push_enc ushort.push_enc short.push_enc
  uint.push_enc int.push_enc ulong.push_enc long.push_enc float.push_enc double.push_enc
  bytes.push_enc str.push_enc

lemmas pop_encs = ubyte.pop_enc byte.pop_enc boolean.pop_enc ushort.pop_enc short.pop_enc
  uint.pop_enc int.pop_enc ulong.pop_enc long.pop_enc float.pop_enc double.pop_enc
  bytes.pop_enc str.pop_enc

lemmas pop_cursors = ubyte.pop_cursor byte.pop_cursor boolean.pop_cursor ushort.pop_cursor
  short.pop_cursor uint.pop_cursor int.pop_cursor ulong.pop_cursor long.pop_cursor
  float.pop_cursor double.pop_cursor bytes.pop_cursor str.pop_cursor

lemma push_value_enc: "push_value m v = append_raw_bytes m (enc_value v)"
  by (cases v) (simp_all add: push_encs del: le_encode.simps)

lemma push_values_enc: "push_values m vs = append_raw_bytes m (enc_values vs)"
  unfolding push_values_def enc_values_def
  by (induction vs arbitrary: m) (simp_all add: push_value_enc)

lemma pop_value_enc:
  "wf_value v \<Longrightarrow> unread m = enc_value v @ rest \<Longrightarrow>
   pop_value (tag_of v) m = (v, advance (length (enc_value v)) m)"
  by (cases v) (simp_all add: pop_encs del: le_encode.simps)

lemma pop_value_cursor: "\<exists>k\<le>remaining_len m. snd (pop_value t m) = advance k m"
  by (cases t) (simp_all add: pop_cursors)

lemma pop_values_enc:
  "(\<forall>v\<in>set vs. wf_value v) \<Longrightarrow> unread m = enc_values vs @ rest \<Longrightarrow>
   pop_values (map tag_of vs) m = (vs, advance (length (enc_values vs)) m)"
proof (induction vs arbitrary: m)
  case Nil
  then show ?case by (simp add: enc_values_def)
next
  case (Cons v vs)
  from Cons.prems have un: "unread m = enc_value v @ enc_values vs @ rest" and "wf_value v"
    by (simp_all add: enc_values_def)
  then have pop: "pop_value (tag_of v) m = (v, advance (length (enc_value v)) m)"
    by (intro pop_value_enc)
  have "unread (advance (length (enc_value v)) m) = enc_values vs @ rest"
    by (simp add: cursor_simps un)
  with Cons have "pop_values (map tag_of vs) (advance (length (enc_value v)) m) =
      (vs, advance (length (enc_values vs)) (advance (length (enc_value v)) m))" by simp
  with pop show ?case by (simp add: enc_values_def)
qed

lemma pop_values_cursor: "\<exists>k\<le>remaining_len m. snd (pop_values ts m) = advance k m"
proof (induction ts arbitrary: m)
  case Nil
  then show ?case by (auto intro: exI [of _ 0])
next
  case (Cons t ts)
  obtain v k where k: "pop_value t m = (v, advance k m)" "k \<le> remaining_len m"
    using pop_value_cursor [of m t] by (metis prod.collapse)
  obtain vs j where j: "pop_values ts (advance k m) = (vs, advance j (advance k m))"
    "j \<le> remaining_len (advance k m)"
    using Cons [of "advance k m"] by (metis prod.collapse)
  have "snd (pop_values (t # ts) m) = advance (k + j) m" using k j by simp
  moreover have "k + j \<le> remaining_len m" using k j by (simp add: cursor_simps)
  ultimately show ?case by blast
qed

subsection \<open>Lemmas: the header\<close>

definition header :: "u32 \<Rightarrow> string \<Rightarrow> bytes" where
  "header i src = enc_string src @ le_encode 4 (unat i)"

lemma message_new_data:
  "message_new i p src =
   \<lparr>msg_id = i, msg_source = src, msg_priority = p, msg_data = header i src, msg_index = 0\<rparr>"
  by (simp add: message_new_def push_encs header_def append_raw_bytes_def del: le_encode.simps)

lemma from_data_cursor: "\<exists>k\<le>length bs. msg_index (from_data bs) = k \<and> msg_data (from_data bs) = bs"
proof -
  let ?m = "\<lparr>msg_id = 0, msg_source = [], msg_priority = Lowest, msg_data = bs, msg_index = 0\<rparr>"
  obtain s k where k: "pop_string ?m = (s, advance k ?m)" "k \<le> remaining_len ?m"
    using str.pop_cursor [of ?m] by (metis prod.collapse)
  let ?m2 = "(advance k ?m)\<lparr>msg_source := s\<rparr>"
  obtain i j where j: "pop_uint ?m2 = (i, advance j ?m2)" "j \<le> remaining_len ?m2"
    using uint.pop_cursor [of ?m2] by (metis prod.collapse)
  show ?thesis using k j by (simp add: from_data_def remaining_len_def)
qed

lemma from_data_header:
  assumes "wf_str src" "length src < 2 ^ 64"
  shows "from_data (header i src @ rest) =
    \<lparr>msg_id = i, msg_source = src, msg_priority = Lowest, msg_data = header i src @ rest,
     msg_index = length (header i src)\<rparr>"
proof -
  let ?bs = "header i src @ rest"
  let ?m = "\<lparr>msg_id = 0, msg_source = [], msg_priority = Lowest, msg_data = ?bs, msg_index = 0\<rparr>"
  let ?n = "length (enc_string src)"
  have "unread ?m = enc_string src @ le_encode 4 (unat i) @ rest"
    by (simp add: unread_def header_def)
  then have 1: "pop_string ?m = (src, advance ?n ?m)"
    by (intro str.pop_enc) (use assms in simp)
  have "unread ((advance ?n ?m)\<lparr>msg_source := src\<rparr>) = le_encode 4 (unat i) @ rest"
    by (simp add: unread_def header_def)
  from uint.pop_enc [OF TrueI this] 1 show ?thesis
    by (simp add: from_data_def advance_def header_def del: le_encode.simps)
qed

lemma unread_from_data_header:
  "wf_str src \<Longrightarrow> length src < 2 ^ 64 \<Longrightarrow> unread (from_data (header i src @ rest)) = rest"
  by (simp add: from_data_header unread_def)

lemma header_nonempty [simp]: "header i src \<noteq> []"
proof
  assume "header i src = []"
  then have "length (header i src) = 0" by simp
  then show False by (simp add: header_def del: le_encode.simps)
qed

lemma clone_payload_header:
  "wf_str src \<Longrightarrow> length src < 2 ^ 64 \<Longrightarrow> msg_data m = header i src @ rest \<Longrightarrow>
   clone_payload_bytes m = rest"
  using unread_from_data_header [of src i rest] by (simp add: clone_payload_bytes_def unread_def)

text \<open>The values of a received message are those it was built from.\<close>

lemma received_fields:
  assumes "wf_str src" "length src < 2 ^ 64" "\<forall>v\<in>set vs. wf_value v"
  shows "fst (pop_values (map tag_of vs) (from_data (get_data (push_values (message_new i p src) vs)))) = vs"
proof -
  have "unread (from_data (header i src @ enc_values vs)) = enc_values vs @ []"
    using assms(1,2) by (simp add: unread_from_data_header)
  from pop_values_enc [OF assms(3) this] show ?thesis
    by (simp add: get_data_def push_values_enc message_new_data)
qed

subsection \<open>Properties\<close>

text \<open>
  C1. Round trip of the protocol. A message built by \<^verbatim>\<open>Message::new\<close> followed by any sequence of pushes,
  sent as its raw bytes and parsed with \<^verbatim>\<open>Message::from_data\<close>, has the identifier and source it was
  built with, yields exactly the pushed values when popped with the same types in the same order, and
  has nothing left to read afterwards.
\<close>

theorem message_roundtrip:
  assumes "wf_str src" "length src < 2 ^ 64" "\<forall>v\<in>set vs. wf_value v"
  shows "let m = from_data (get_data (push_values (message_new i p src) vs));
             (ws, m') = pop_values (map tag_of vs) m
         in msg_id m = i \<and> msg_source m = src \<and> ws = vs \<and> remaining_len m' = 0"
proof -
  let ?m = "from_data (header i src @ enc_values vs)"
  have data: "get_data (push_values (message_new i p src) vs) = header i src @ enc_values vs"
    by (simp add: get_data_def push_values_enc message_new_data)
  have "unread ?m = enc_values vs @ []" using assms(1,2) by (simp add: unread_from_data_header)
  then have "pop_values (map tag_of vs) ?m = (vs, advance (length (enc_values vs)) ?m)"
    by (rule pop_values_enc [OF assms(3)])
  with data show ?thesis using assms(1,2)
    by (simp add: from_data_header remaining_len_def)
qed

theorem message_roundtrip_witness:
  "let m = from_data (get_data (push_values (message_new 2001 Medium ''42'')
             [VUint 42, VString ''system'', VBool True, VBytes [255, 0]]));
       (ws, m') = pop_values [TUint, TString, TBool, TBytes] m
   in msg_id m = 2001 \<and> msg_source m = ''42''
      \<and> ws = [VUint 42, VString ''system'', VBool True, VBytes [255, 0]] \<and> remaining_len m' = 0"
proof -
  have "wf_str ''42''" "wf_str ''system''" by (rule wf_str_ascii; auto)+
  then show ?thesis
    using message_roundtrip [of "''42''"
        "[VUint 42, VString ''system'', VBool True, VBytes [255, 0]]" 2001 Medium]
    by simp
qed

text \<open>A value that is popped has the type that is asked for, whatever the bytes are.\<close>

lemma pop_bytes_length: "length (fst (pop_bytes m)) \<le> length (msg_data m)"
proof -
  obtain v m' where "pop_ulong m = (v, m')" by (cases "pop_ulong m")
  moreover have "msg_data (snd (pop_ulong m)) = msg_data m"
    using pop_value_cursor [of m TUlong] by (auto simp: map_prod_def split: prod.splits)
  ultimately show ?thesis by (auto simp: pop_bytes_def Let_def)
qed

lemma pop_value_typed:
  assumes "length (msg_data m) < 2 ^ 62"
  shows "tag_of (fst (pop_value t m)) = t \<and> wf_value (fst (pop_value t m))"
proof -
  have "length (fst (pop_bytes m)) < 2 ^ 62" using pop_bytes_length [of m] assms by linarith
  moreover have "fst (pop_string m) = from_utf8_lossy (fst (pop_bytes m))" by (simp add: pop_string_def split: prod.splits)
  moreover have "length (from_utf8_lossy (fst (pop_bytes m))) \<le> 3 * length (fst (pop_bytes m))"
    by (rule length_from_utf8_lossy)
  ultimately show ?thesis by (cases t) (simp_all add: fst_map_prod)
qed

lemma pop_values_typed:
  assumes "length (msg_data m) < 2 ^ 62"
  shows "map tag_of (fst (pop_values ts m)) = ts \<and> list_all wf_value (fst (pop_values ts m))"
  using assms
proof (induction ts arbitrary: m)
  case (Cons t ts)
  obtain v m' where v: "pop_value t m = (v, m')" by (cases "pop_value t m")
  then have "msg_data m' = msg_data m" using pop_value_cursor [of m t] by auto
  then show ?case using Cons.IH [of m'] pop_value_typed [OF Cons.prems, of t] Cons.prems v by (auto split: prod.splits)
qed simp

lemma from_data_source: "wf_str (msg_source (from_data bs))"
proof -
  let ?m = "\<lparr>msg_id = 0, msg_source = [], msg_priority = Lowest, msg_data = bs, msg_index = 0\<rparr> :: message"
  obtain b m where b: "pop_bytes ?m = (b, m)" by (cases "pop_bytes ?m")
  let ?m2 = "m\<lparr>msg_source := from_utf8_lossy b\<rparr>"
  obtain k where "snd (pop_value TUint ?m2) = advance k ?m2" using pop_value_cursor by blast
  then have "msg_source (snd (pop_uint ?m2)) = from_utf8_lossy b" by (simp add: snd_map_prod)
  then show ?thesis using b by (auto simp: from_data_def pop_string_def split: prod.splits)
qed

text \<open>
  C17. Decoding is type safe. On arbitrary bytes from the network, parsing the header and then popping any sequence of
  fields gives a value of each type that is asked for, with every string and the source well-formed UTF-8; it never
  moves the cursor past the end of the buffer and never changes the buffer, so no slice of the source can be out of range.
\<close>

theorem decoding_is_type_safe:
  assumes "length bs < 2 ^ 62"
  shows "let (vs, m) = pop_values ts (from_data bs)
     in map tag_of vs = ts \<and> list_all wf_value vs \<and> wf_str (msg_source (from_data bs))
        \<and> msg_data m = bs \<and> msg_index (from_data bs) \<le> msg_index m \<and> msg_index m \<le> length bs"
proof -
  obtain k where "k \<le> remaining_len (from_data bs)"
    "snd (pop_values ts (from_data bs)) = advance k (from_data bs)"
    using pop_values_cursor by blast
  moreover have "msg_data (from_data bs) = bs" using from_data_cursor [of bs] by auto
  moreover have "wf_str (msg_source (from_data bs))"
    by (rule from_data_source)
  ultimately show ?thesis
    using from_data_cursor [of bs] pop_values_typed [of "from_data bs" ts] assms
    by (auto simp: remaining_len_def split: prod.splits)
qed

theorem decoding_is_type_safe_witness:
  "map tag_of (fst (pop_values [TUint, TString] (from_data [1, 0, 0, 0, 0, 0, 0, 0, 255]))) = [TUint, TString]"
  using decoding_is_type_safe [of "[1, 0, 0, 0, 0, 0, 0, 0, 255]" "[TUint, TString]"] by (auto split: prod.splits)

text \<open>
  Underflow. When fewer bytes are left than the field needs, every fixed-width read returns its
  default (0, false or 0.0) and leaves the message unchanged; a length-prefixed read whose prefix is
  truncated does the same, and one whose declared length exceeds what is left returns the empty
  sequence having consumed exactly the eight-byte prefix.
\<close>

theorem underflow_returns_default:
  "(remaining_len m < 1 \<longrightarrow> pop_ubyte m = (0, m) \<and> pop_byte m = (0, m) \<and> pop_bool m = (False, m))
   \<and> (remaining_len m < 2 \<longrightarrow> pop_ushort m = (0, m) \<and> pop_short m = (0, m))
   \<and> (remaining_len m < 4 \<longrightarrow> pop_uint m = (0, m) \<and> pop_int m = (0, m) \<and> pop_float m = (0, m))
   \<and> (remaining_len m < 8 \<longrightarrow> pop_ulong m = (0, m) \<and> pop_long m = (0, m) \<and> pop_double m = (0, m)
        \<and> pop_bytes m = ([], m) \<and> pop_string m = ([], m))
   \<and> (unread m = le_encode 8 (unat (n :: u64)) @ rest \<and> length rest < unat n
        \<longrightarrow> pop_bytes m = ([], advance 8 m))"
proof (intro conjI impI)
  assume *: "remaining_len m < 8"
  show "pop_bytes m = ([], m)"
    using * by (simp add: pop_bytes_def pop_ulong_def pop_word_short)
  then show "pop_string m = ([], m)"
    by (simp add: pop_string_def from_utf8_lossy_def of_bytes_def utf8_lossy.simps)
next
  assume *: "unread m = le_encode 8 (unat n) @ rest \<and> length rest < unat n"
  then have "pop_ulong m = (n, advance 8 m)"
    using ulong.pop_enc [OF TrueI, of m n rest] by (simp del: le_encode.simps)
  moreover have "remaining_len (advance 8 m) = length rest"
    using * by (metis cursor_simps(2) length_unread append_eq_conv_conj length_le_encode cursor_simps(1))
  ultimately show "pop_bytes m = ([], advance 8 m)"
    using * by (simp add: pop_bytes_def Let_def remaining_len_def)
qed (simp_all add: pop_ubyte_def pop_byte_def pop_bool_def pop_ushort_def pop_short_def pop_uint_def
    pop_int_def pop_float_def pop_ulong_def pop_long_def pop_double_def pop_word_short)

theorem underflow_returns_default_witness:
  "pop_uint (from_data [7, 0, 0]) = (0, from_data [7, 0, 0])"
proof -
  have "remaining_len (from_data [7, 0, 0]) < 4"
    using from_data_cursor [of "[7, 0, 0]"] by (auto simp: remaining_len_def)
  then show ?thesis using underflow_returns_default [of "from_data [7, 0, 0]"] by blast
qed

end
