(* ===== verification/Paths.thy ===== *)
theory Paths
  imports Client_Prelude
begin

text \<open>
  Unix paths as the standard library's \<^verbatim>\<open>Path\<close> presents them: a list of components. Parsing drops
  repeated separators, a trailing separator and every \<open>.\<close> except a leading one; joining, taking the
  parent, testing and stripping a prefix work on whole components.
\<close>

datatype component = RootDir | CurDir | ParentDir | Normal string

type_synonym path = "component list"

fun split_slash :: "string \<Rightarrow> string list" where
  "split_slash [] = [[]]"
| "split_slash (c # cs) =
     (if c = CHR ''/'' then [] # split_slash cs
      else case split_slash cs of [] \<Rightarrow> [[c]] | w # ws \<Rightarrow> (c # w) # ws)"

definition component_of :: "string \<Rightarrow> component" where
  "component_of w = (if w = ''..'' then ParentDir else Normal w)"

definition parse_path :: "string \<Rightarrow> path" where
  "parse_path s =
     (let pieces = split_slash s;
          kept = map component_of (filter (\<lambda>w. w \<noteq> [] \<and> w \<noteq> ''.'') pieces)
      in if s \<noteq> [] \<and> hd s = CHR ''/'' then RootDir # kept
         else if hd pieces = ''.'' then CurDir # kept
         else kept)"

fun component_name :: "component \<Rightarrow> string" where
  "component_name RootDir = []"
| "component_name CurDir = ''.''"
| "component_name ParentDir = ''..''"
| "component_name (Normal w) = w"

fun join_names :: "string list \<Rightarrow> string" where
  "join_names [] = []"
| "join_names [w] = w"
| "join_names (w # v # ws) = w @ ''/'' @ join_names (v # ws)"

definition path_to_string :: "path \<Rightarrow> string" where
  "path_to_string p = (if p = [RootDir] then ''/'' else join_names (map component_name p))"

definition path_join :: "path \<Rightarrow> path \<Rightarrow> path" where
  "path_join p q =
     (if q \<noteq> [] \<and> hd q = RootDir then q
      else if p = [] then q
      else p @ filter (\<lambda>c. c \<noteq> CurDir) q)"

definition path_parent :: "path \<Rightarrow> path option" where
  "path_parent p = (if p = [] \<or> last p = RootDir then None else Some (butlast p))"

definition starts_with :: "path \<Rightarrow> path \<Rightarrow> bool" where
  "starts_with p base \<longleftrightarrow> prefix base p"

definition strip_prefix_or :: "path \<Rightarrow> path \<Rightarrow> path" where
  "strip_prefix_or base p = (if prefix base p then drop (length base) p else p)"

subsection \<open>Lemmas\<close>

lemma path_parent_length: "path_parent p = Some q \<Longrightarrow> length q < length p"
  by (auto simp: path_parent_def split: if_splits)

lemma path_parent_prefix: "path_parent p = Some q \<Longrightarrow> prefix q p"
  by (auto simp: path_parent_def prefixeq_butlast split: if_splits)

lemma parse_relative:
  assumes "s = [] \<or> hd s \<noteq> CHR ''/''"
  shows "RootDir \<notin> set (parse_path s)"
proof -
  have "component_of w \<noteq> RootDir" for w by (simp add: component_of_def)
  then have "RootDir \<notin> component_of ` A" for A by (metis imageE)
  with assms show ?thesis by (simp add: parse_path_def Let_def)
qed

lemma hd_trim_start: "trim_start_slashes s = [] \<or> hd (trim_start_slashes s) \<noteq> CHR ''/''"
  using hd_dropWhile [of "\<lambda>c. c = CHR ''/''" s] by (auto simp: trim_start_slashes_def)

text \<open>Joining the trimmed path of a request never leaves the base lexically.\<close>

lemma join_trimmed_prefix: "p \<noteq> [] \<Longrightarrow> prefix p (path_join p (parse_path (trim_start_slashes s)))"
proof -
  assume "p \<noteq> []"
  have "RootDir \<notin> set (parse_path (trim_start_slashes s))" using parse_relative hd_trim_start by blast
  then have "parse_path (trim_start_slashes s) = [] \<or> hd (parse_path (trim_start_slashes s)) \<noteq> RootDir"
    by (metis hd_in_set)
  with \<open>p \<noteq> []\<close> show ?thesis by (auto simp: path_join_def)
qed

end
