(* ===== verification/Environment.thy ===== *)
theory Environment
  imports Messaging Paths "HOL-Library.AList"
begin

text \<open>
  What the job, database and file code of the client sees of its surroundings. A handler runs as one
  task; every interaction it has with something outside its own code is an \<open>event\<close>, and its answer
  comes from an \<open>outside\<close> that may depend on all events so far. A theorem that holds for every \<open>outside\<close>
  therefore holds for every behaviour of the database server, the connection, the Python bundles, the
  file system and the other tasks, failures included. The events of a run are the observable
  behaviour of a handler: what it asks, what it sends and in which order.

  The JSON values exchanged with bundles and read from the configuration are \<open>json\<close>, with the accessors
  of \<^verbatim>\<open>serde_json::Value\<close> the sources use (indexing a missing key gives null, an accessor of the wrong
  type gives nothing).
\<close>

subsection \<open>JSON values\<close>

datatype json =
  JNull
| JBool bool
| JPos u64
| JNeg i64
| JFloat "64 word"
| JString string
| JArray "json list"
| JObject "(string \<times> json) list"

fun json_get :: "json \<Rightarrow> string \<Rightarrow> json option" where
  "json_get (JObject fs) key = map_of fs key"
| "json_get _ key = None"

definition json_index :: "json \<Rightarrow> string \<Rightarrow> json" where
  "json_index v key = (case json_get v key of None \<Rightarrow> JNull | Some x \<Rightarrow> x)"

text \<open>Assignment to an indexed object; the sources only assign into objects they have just built.\<close>

fun json_set :: "json \<Rightarrow> string \<Rightarrow> json \<Rightarrow> json" where
  "json_set (JObject fs) key v = JObject (AList.update key v fs)"
| "json_set JNull key v = JObject [(key, v)]"
| "json_set other key v = other"

fun as_array :: "json \<Rightarrow> json list option" where
  "as_array (JArray xs) = Some xs" | "as_array _ = None"

fun as_str :: "json \<Rightarrow> string option" where
  "as_str (JString s) = Some s" | "as_str _ = None"

fun as_u64 :: "json \<Rightarrow> u64 option" where
  "as_u64 (JPos n) = Some n" | "as_u64 _ = None"

fun as_bool :: "json \<Rightarrow> bool option" where
  "as_bool (JBool b) = Some b" | "as_bool _ = None"

definition json_of_i64 :: "i64 \<Rightarrow> json" where
  "json_of_i64 v = (if sint v < 0 then JNeg v else JPos v)"

fun json_of_option_i64 :: "i64 option \<Rightarrow> json" where
  "json_of_option_i64 None = JNull"
| "json_of_option_i64 (Some v) = json_of_i64 v"

definition unwrap_or :: "'a option \<Rightarrow> 'a \<Rightarrow> 'a" where
  "unwrap_or x d = (case x of None \<Rightarrow> d | Some v \<Rightarrow> v)"

subsection \<open>Events and their answers\<close>

text \<open>
  A frame of a websocket, what reading one from a stream can give (\<open>None\<close> is the end of the stream),
  and the metadata of a file.
\<close>

datatype ws_frame = Binary bytes | Text string | Ping | Pong | Close | Frame

type_synonym incoming = "ws_frame result option"

record metadata =
  m_is_dir :: bool
  m_is_file :: bool
  m_is_symlink :: bool
  m_len :: u64

type_synonym dir_entry = "path \<times> metadata result"

text \<open>
  The first four events are requests to the database, messages queued on the main connection, bundle
  calls and archiving; then come the operations on the file system, and those on the separate
  websocket of a file transfer.
\<close>

datatype event =
  DbRequest message
| QueueMessage string bytes priority
| RunBundle string string json string
| ArchiveDir string
| Canonicalize path
| PathExists path
| StatPath path
| ReadDir path
| CreateDirAll path
| CreateFile path
| OpenFile path
| WriteFile bytes
| FlushFile
| SyncFile
| RemoveFile path
| ConnectFile string string
| ReceiveFile
| SendFile ws_frame

type_synonym trace = "event list"
type_synonym 'a io = "trace \<Rightarrow> 'a \<times> trace"

record outside =
  o_db :: "trace \<Rightarrow> message result"
  o_closed :: "trace \<Rightarrow> bool"
  o_ready :: "trace \<Rightarrow> bool"
  o_uint64 :: "trace \<Rightarrow> u64"
  o_json :: "trace \<Rightarrow> json"
  o_bool :: "trace \<Rightarrow> bool"
  o_string :: "trace \<Rightarrow> string"
  o_archive :: "trace \<Rightarrow> unit result"
  o_config :: json
  o_canonicalize :: "trace \<Rightarrow> path option"
  o_exists :: "trace \<Rightarrow> bool"
  o_metadata :: "trace \<Rightarrow> metadata result"
  o_read_dir :: "trace \<Rightarrow> dir_entry result list option"
  o_fs :: "trace \<Rightarrow> unit result"
  o_valid_url :: "string \<Rightarrow> bool"
  o_valid_header :: "string \<Rightarrow> bool"
  o_connect :: "trace \<Rightarrow> bool"
  o_receive :: "trace \<Rightarrow> incoming"
  o_timeout :: "trace \<Rightarrow> bool"
  o_send :: "trace \<Rightarrow> unit result"

text \<open>Every answer depends on the events up to and including the request itself.\<close>

definition ask_db :: "outside \<Rightarrow> message \<Rightarrow> message result io" where
  "ask_db env msg tr = (let tr' = tr @ [DbRequest msg] in (o_db env tr', tr'))"

definition ask_uint64 :: "outside \<Rightarrow> string \<Rightarrow> string \<Rightarrow> json \<Rightarrow> string \<Rightarrow> u64 io" where
  "ask_uint64 env f hash details params tr =
     (let tr' = tr @ [RunBundle f hash details params] in (o_uint64 env tr', tr'))"

definition ask_json :: "outside \<Rightarrow> string \<Rightarrow> string \<Rightarrow> json \<Rightarrow> string \<Rightarrow> json io" where
  "ask_json env f hash details params tr =
     (let tr' = tr @ [RunBundle f hash details params] in (o_json env tr', tr'))"

definition ask_bool :: "outside \<Rightarrow> string \<Rightarrow> string \<Rightarrow> json \<Rightarrow> string \<Rightarrow> bool io" where
  "ask_bool env f hash details params tr =
     (let tr' = tr @ [RunBundle f hash details params] in (o_bool env tr', tr'))"

definition ask_string :: "outside \<Rightarrow> string \<Rightarrow> string \<Rightarrow> json \<Rightarrow> string \<Rightarrow> string io" where
  "ask_string env f hash details params tr =
     (let tr' = tr @ [RunBundle f hash details params] in (o_string env tr', tr'))"

definition ask_archive :: "outside \<Rightarrow> string \<Rightarrow> unit result io" where
  "ask_archive env dir tr = (let tr' = tr @ [ArchiveDir dir] in (o_archive env tr', tr'))"

definition ask_canonicalize :: "outside \<Rightarrow> path \<Rightarrow> path option io" where
  "ask_canonicalize env p tr = (let tr' = tr @ [Canonicalize p] in (o_canonicalize env tr', tr'))"

definition ask_exists :: "outside \<Rightarrow> path \<Rightarrow> bool io" where
  "ask_exists env p tr = (let tr' = tr @ [PathExists p] in (o_exists env tr', tr'))"

definition ask_metadata :: "outside \<Rightarrow> path \<Rightarrow> metadata result io" where
  "ask_metadata env p tr = (let tr' = tr @ [StatPath p] in (o_metadata env tr', tr'))"

definition ask_read_dir :: "outside \<Rightarrow> path \<Rightarrow> dir_entry result list option io" where
  "ask_read_dir env p tr = (let tr' = tr @ [ReadDir p] in (o_read_dir env tr', tr'))"

definition ask_fs :: "outside \<Rightarrow> event \<Rightarrow> unit result io" where
  "ask_fs env e tr = (let tr' = tr @ [e] in (o_fs env tr', tr'))"

definition ask_connect :: "outside \<Rightarrow> string \<Rightarrow> string \<Rightarrow> bool io" where
  "ask_connect env endpoint token tr = (let tr' = tr @ [ConnectFile endpoint token] in (o_connect env tr', tr'))"

definition ask_receive :: "outside \<Rightarrow> incoming io" where
  "ask_receive env tr = (let tr' = tr @ [ReceiveFile] in (o_receive env tr', tr'))"

definition ask_send :: "outside \<Rightarrow> ws_frame \<Rightarrow> unit result io" where
  "ask_send env f tr = (let tr' = tr @ [SendFile f] in (o_send env tr', tr'))"

definition emit_message :: "string \<Rightarrow> bytes \<Rightarrow> priority \<Rightarrow> trace \<Rightarrow> trace" where
  "emit_message src d p tr = tr @ [QueueMessage src d p]"

definition disconnected :: "outside \<Rightarrow> trace \<Rightarrow> bool" where
  "disconnected env tr \<longleftrightarrow> o_closed env tr \<or> \<not> o_ready env tr"

lemmas ask_defs = ask_db_def ask_uint64_def ask_json_def ask_bool_def ask_string_def ask_archive_def
  ask_canonicalize_def ask_exists_def ask_metadata_def ask_read_dir_def ask_fs_def ask_connect_def
  ask_receive_def ask_send_def Let_def

text \<open>\<^verbatim>\<open>resolve_working_directory\<close> of the bundle manager, shared by the job and the file handlers.\<close>

definition resolve_working_directory :: "outside \<Rightarrow> string \<Rightarrow> json \<Rightarrow> string \<Rightarrow> string io" where
  "resolve_working_directory env hash details job_data tr =
     ask_string env ''working_directory'' hash details job_data tr"

subsection \<open>Traces\<close>

text \<open>What a step of a task adds to the trace, and that it never rewrites what happened.\<close>

definition new_events :: "trace \<Rightarrow> trace \<Rightarrow> trace" where
  "new_events tr tr' = drop (length tr) tr'"

lemma json_index_set [simp]:
  "json_index (json_set (JObject fs) k v) k' = (if k' = k then v else json_index (JObject fs) k')"
  by (simp add: json_index_def update_conv)

text \<open>
  The contract of a computation in this setting: it extends the trace, and every event it adds
  satisfies \<open>P\<close>. It is closed under sequencing, which is how the handlers are composed.
\<close>

definition emits_only :: "(event \<Rightarrow> bool) \<Rightarrow> trace \<Rightarrow> trace \<Rightarrow> bool" where
  "emits_only P tr tr' \<longleftrightarrow> (\<exists>es. tr' = tr @ es \<and> list_all P es)"

lemma emits_refl [simp, intro]: "emits_only P tr tr"
  by (simp add: emits_only_def)

lemma emits_trans: "emits_only P tr tr' \<Longrightarrow> emits_only P tr' tr'' \<Longrightarrow> emits_only P tr tr''"
  by (auto simp: emits_only_def)

lemma emits_snoc [simp]: "emits_only P tr (tr @ [e]) \<longleftrightarrow> P e"
  by (simp add: emits_only_def)

lemma emits_mono: "emits_only P tr tr' \<Longrightarrow> (\<And>e. P e \<Longrightarrow> Q e) \<Longrightarrow> emits_only Q tr tr'"
  by (auto simp: emits_only_def list_all_iff)

lemma emits_new: "emits_only P tr tr' \<Longrightarrow> tr' = tr @ new_events tr tr' \<and> list_all P (new_events tr tr')"
  by (auto simp: emits_only_def new_events_def)

end
