(* ===== verification/Database.thy ===== *)
theory Database
  imports Environment
begin

text \<open>
  The client side of the database protocol, \<^verbatim>\<open>src/src/src/db/mod.rs\<close> with the models of
  \<^verbatim>\<open>db/job.rs\<close> and \<^verbatim>\<open>db/jobstatus.rs\<close>. Every operation builds one request, sends it over the websocket
  (an event answered by the outside) and decodes the response. The lemmas relate the fields a save
  writes to the fields a parse reads, and bound what a parse can return on arbitrary bytes.
\<close>

subsection \<open>Models\<close>

record job =
  j_id :: i64
  j_job_id :: "i64 option"
  j_scheduler_id :: "i64 option"
  j_submitting :: bool
  j_submitting_count :: i32
  j_bundle_hash :: string
  j_working_directory :: string
  j_running :: bool
  j_deleted :: bool
  j_deleting :: bool

definition default_job :: job where
  "default_job =
     \<lparr>j_id = 0, j_job_id = None, j_scheduler_id = None, j_submitting = False, j_submitting_count = 0,
      j_bundle_hash = [], j_working_directory = [], j_running = False, j_deleted = False,
      j_deleting = False\<rparr>"

record jobstatus =
  s_id :: i64
  s_what :: string
  s_state :: i32
  s_job_id :: i64

subsection \<open>Decoding responses\<close>

definition parse_response :: "message \<Rightarrow> message" where
  "parse_response resp = clone_for_payload_reading resp"

definition pop_id :: "message \<Rightarrow> i64 \<times> message" where
  "pop_id resp = (case pop_ulong resp of (v, resp') \<Rightarrow> (u64_to_i64_max v, resp'))"

definition pop_optional_id :: "message \<Rightarrow> i64 option \<times> message" where
  "pop_optional_id resp = (case pop_id resp of (v, resp') \<Rightarrow> (if v \<noteq> 0 then Some v else None, resp'))"

definition pop_count :: "message \<Rightarrow> nat \<times> message" where
  "pop_count resp = (case pop_uint resp of (n, resp') \<Rightarrow> (min (unat n) (remaining_len resp'), resp'))"

definition cap_status_count :: "nat \<Rightarrow> u32" where
  "cap_status_count len = usize_to_u32_max len"

definition parse_job :: "message \<Rightarrow> job \<times> message" where
  "parse_job resp =
     (case pop_id resp of (i, r1) \<Rightarrow>
      case pop_optional_id r1 of (ji, r2) \<Rightarrow>
      case pop_optional_id r2 of (si, r3) \<Rightarrow>
      case pop_bool r3 of (sub, r4) \<Rightarrow>
      case pop_uint r4 of (cnt, r5) \<Rightarrow>
      case pop_string r5 of (hash, r6) \<Rightarrow>
      case pop_string r6 of (wd, r7) \<Rightarrow>
      case pop_bool r7 of (run, r8) \<Rightarrow>
      case pop_bool r8 of (dlting, r9) \<Rightarrow>
      case pop_bool r9 of (dlted, r10) \<Rightarrow>
        (\<lparr>j_id = i, j_job_id = ji, j_scheduler_id = si, j_submitting = sub,
          j_submitting_count = u32_to_i32_max cnt, j_bundle_hash = hash, j_working_directory = wd,
          j_running = run, j_deleted = dlted, j_deleting = dlting\<rparr>, r10))"

definition parse_status :: "message \<Rightarrow> jobstatus \<times> message" where
  "parse_status resp =
     (case pop_id resp of (i, r1) \<Rightarrow>
      case pop_id r1 of (ji, r2) \<Rightarrow>
      case pop_string r2 of (what, r3) \<Rightarrow>
      case pop_uint r3 of (st, r4) \<Rightarrow>
        (\<lparr>s_id = i, s_what = what, s_state = u32_to_i32_max st, s_job_id = ji\<rparr>, r4))"

fun parse_n :: "(message \<Rightarrow> 'a \<times> message) \<Rightarrow> nat \<Rightarrow> message \<Rightarrow> 'a list \<times> message" where
  "parse_n p 0 m = ([], m)"
| "parse_n p (Suc n) m = (case p m of (x, m') \<Rightarrow> case parse_n p n m' of (xs, m'') \<Rightarrow> (x # xs, m''))"

subsection \<open>Requests\<close>

abbreviation db_message :: "u32 \<Rightarrow> message" where
  "db_message i \<equiv> message_new i Medium ''database''"

definition send_db_request_timed :: "outside \<Rightarrow> message \<Rightarrow> message result io" where
  "send_db_request_timed env msg tr = ask_db env msg tr"

definition get_running_jobs :: "outside \<Rightarrow> job list result io" where
  "get_running_jobs env tr =
     (case send_db_request_timed env (db_message DB_JOB_GET_RUNNING_JOBS) tr of
        (Inl e, tr') \<Rightarrow> (Inl e, tr')
      | (Inr raw, tr') \<Rightarrow>
          (case pop_count (parse_response raw) of (n, resp) \<Rightarrow> (Inr (fst (parse_n parse_job n resp)), tr')))"

definition get_job_by_message :: "outside \<Rightarrow> u32 \<Rightarrow> i64 \<Rightarrow> job option result io" where
  "get_job_by_message env msg_type i tr =
     (case send_db_request_timed env (push_ulong (db_message msg_type) (i64_to_u64_or_0 i)) tr of
        (Inl e, tr') \<Rightarrow> (Inl e, tr')
      | (Inr raw, tr') \<Rightarrow>
          (case pop_count (parse_response raw) of (n, resp) \<Rightarrow>
             if n = 0 then (Inr None, tr') else (Inr (Some (fst (parse_job resp))), tr')))"

definition get_job_by_id :: "outside \<Rightarrow> i64 \<Rightarrow> job option result io" where
  "get_job_by_id env i tr = get_job_by_message env DB_JOB_GET_BY_ID i tr"

definition get_job_by_job_id :: "outside \<Rightarrow> i64 \<Rightarrow> job option result io" where
  "get_job_by_job_id env i tr = get_job_by_message env DB_JOB_GET_BY_JOB_ID i tr"

definition delete_job :: "outside \<Rightarrow> i64 \<Rightarrow> unit result io" where
  "delete_job env i tr =
     (case send_db_request_timed env (push_ulong (db_message DB_JOB_DELETE) (i64_to_u64_or_0 i)) tr of
        (Inl e, tr') \<Rightarrow> (Inl e, tr')
      | (Inr raw, tr') \<Rightarrow> (Inr (), tr'))"

definition get_or_create_by_job_id :: "outside \<Rightarrow> i64 \<Rightarrow> job result io" where
  "get_or_create_by_job_id env i tr =
     (case get_job_by_job_id env i tr of
        (Inl e, tr') \<Rightarrow> (Inl e, tr')
      | (Inr (Some j), tr') \<Rightarrow> (Inr j, tr')
      | (Inr None, tr') \<Rightarrow> (Inr default_job, tr'))"

definition get_job_statuses :: "outside \<Rightarrow> message \<Rightarrow> jobstatus list result io" where
  "get_job_statuses env msg tr =
     (case send_db_request_timed env msg tr of
        (Inl e, tr') \<Rightarrow> (Inl e, tr')
      | (Inr raw, tr') \<Rightarrow>
          (case pop_count (parse_response raw) of (n, resp) \<Rightarrow>
             (Inr (fst (parse_n parse_status n resp)), tr')))"

definition get_job_status_by_job_id_and_what :: "outside \<Rightarrow> i64 \<Rightarrow> string \<Rightarrow> jobstatus list result io" where
  "get_job_status_by_job_id_and_what env i what tr =
     get_job_statuses env
       (push_string (push_ulong (db_message DB_JOBSTATUS_GET_BY_JOB_ID_AND_WHAT) (i64_to_u64_or_0 i)) what) tr"

definition get_job_status_by_job_id :: "outside \<Rightarrow> i64 \<Rightarrow> jobstatus list result io" where
  "get_job_status_by_job_id env i tr =
     get_job_statuses env (push_ulong (db_message DB_JOBSTATUS_GET_BY_JOB_ID) (i64_to_u64_or_0 i)) tr"

definition delete_status_message :: "i64 list \<Rightarrow> message" where
  "delete_status_message ids =
     (let count = cap_status_count (length ids)
      in foldl (\<lambda>m i. push_ulong m (i64_to_u64_or_0 i))
           (push_uint (db_message DB_JOBSTATUS_DELETE_BY_ID_LIST) count) (take (unat count) ids))"

definition delete_status_by_id_list :: "outside \<Rightarrow> i64 list \<Rightarrow> unit result io" where
  "delete_status_by_id_list env ids tr =
     (case send_db_request_timed env (delete_status_message ids) tr of
        (Inl e, tr') \<Rightarrow> (Inl e, tr')
      | (Inr raw, tr') \<Rightarrow> (Inr (), tr'))"

definition send_save_request :: "outside \<Rightarrow> message \<Rightarrow> string \<Rightarrow> i64 result io" where
  "send_save_request env msg error_string tr =
     (case send_db_request_timed env msg tr of
        (Inl e, tr') \<Rightarrow> (Inl e, tr')
      | (Inr raw, tr') \<Rightarrow>
          (let saved_id = fst (pop_id (parse_response raw))
           in if saved_id = 0 then (Inl error_string, tr') else (Inr saved_id, tr')))"

text \<open>The fields of a model in the order \<^verbatim>\<open>save_job\<close> and \<^verbatim>\<open>save_status\<close> push them.\<close>

definition push_job :: "message \<Rightarrow> job \<Rightarrow> message" where
  "push_job m j =
     (let m1 = push_ulong m (i64_to_u64_or_0 (j_id j));
          m2 = push_ulong m1 (i64_to_u64_or_0 (unwrap_or (j_job_id j) 0));
          m3 = push_ulong m2 (i64_to_u64_or_0 (unwrap_or (j_scheduler_id j) 0));
          m4 = push_bool m3 (j_submitting j);
          m5 = push_uint m4 (i32_to_u32_max (j_submitting_count j));
          m6 = push_string m5 (j_bundle_hash j);
          m7 = push_string m6 (j_working_directory j);
          m8 = push_bool m7 (j_running j);
          m9 = push_bool m8 (j_deleting j)
      in push_bool m9 (j_deleted j))"

definition save_job_message :: "job \<Rightarrow> message" where
  "save_job_message j = push_job (db_message DB_JOB_SAVE) j"

definition save_job :: "outside \<Rightarrow> job \<Rightarrow> job result io" where
  "save_job env j tr =
     (case send_save_request env (save_job_message j) ''Database operation failed to save job'' tr of
        (Inl e, tr') \<Rightarrow> (Inl e, tr')
      | (Inr saved_id, tr') \<Rightarrow> (Inr (j\<lparr>j_id := saved_id\<rparr>), tr'))"

definition push_status :: "message \<Rightarrow> jobstatus \<Rightarrow> message" where
  "push_status m s =
     (let m1 = push_ulong m (i64_to_u64_or_0 (s_id s));
          m2 = push_ulong m1 (i64_to_u64_or_0 (s_job_id s));
          m3 = push_string m2 (s_what s)
      in push_uint m3 (i32_to_u32_max (s_state s)))"

definition save_status_message :: "jobstatus \<Rightarrow> message" where
  "save_status_message s = push_status (db_message DB_JOBSTATUS_SAVE) s"

definition save_status :: "outside \<Rightarrow> jobstatus \<Rightarrow> jobstatus result io" where
  "save_status env s tr =
     (case send_save_request env (save_status_message s)
             ''Database operation failed to save job status'' tr of
        (Inl e, tr') \<Rightarrow> (Inl e, tr')
      | (Inr saved_id, tr') \<Rightarrow> (Inr (s\<lparr>s_id := saved_id\<rparr>), tr'))"


subsection \<open>Well-formed models\<close>

text \<open>
  The models the client itself builds: identifiers and counters are not negative, strings are UTF-8.
  On the wire an absent identifier and the identifier 0 are the same, so the normal form has no \<open>Some 0\<close>.
\<close>

definition wf_string :: "string \<Rightarrow> bool" where
  "wf_string s \<longleftrightarrow> wf_str s \<and> length s < 2 ^ 64"

definition wf_opt_id :: "i64 option \<Rightarrow> bool" where
  "wf_opt_id x \<longleftrightarrow> (case x of None \<Rightarrow> True | Some v \<Rightarrow> 0 \<le> sint v)"

definition wf_job :: "job \<Rightarrow> bool" where
  "wf_job j \<longleftrightarrow>
     0 \<le> sint (j_id j) \<and> wf_opt_id (j_job_id j) \<and> wf_opt_id (j_scheduler_id j)
     \<and> 0 \<le> sint (j_submitting_count j) \<and> wf_string (j_bundle_hash j) \<and> wf_string (j_working_directory j)"

definition wf_status :: "jobstatus \<Rightarrow> bool" where
  "wf_status s \<longleftrightarrow> 0 \<le> sint (s_id s) \<and> 0 \<le> sint (s_job_id s) \<and> 0 \<le> sint (s_state s) \<and> wf_string (s_what s)"

definition normal_id :: "i64 option \<Rightarrow> i64 option" where
  "normal_id x = (if x = Some 0 then None else x)"

definition normal_job :: "job \<Rightarrow> job" where
  "normal_job j = j\<lparr>j_job_id := normal_id (j_job_id j), j_scheduler_id := normal_id (j_scheduler_id j)\<rparr>"

definition job_values :: "job \<Rightarrow> wire_value list" where
  "job_values j =
     [VUlong (i64_to_u64_or_0 (j_id j)), VUlong (i64_to_u64_or_0 (unwrap_or (j_job_id j) 0)),
      VUlong (i64_to_u64_or_0 (unwrap_or (j_scheduler_id j) 0)), VBool (j_submitting j),
      VUint (i32_to_u32_max (j_submitting_count j)), VString (j_bundle_hash j),
      VString (j_working_directory j), VBool (j_running j), VBool (j_deleting j), VBool (j_deleted j)]"

definition status_values :: "jobstatus \<Rightarrow> wire_value list" where
  "status_values s =
     [VUlong (i64_to_u64_or_0 (s_id s)), VUlong (i64_to_u64_or_0 (s_job_id s)), VString (s_what s),
      VUint (i32_to_u32_max (s_state s))]"

subsection \<open>Lemmas: models on the wire\<close>

lemma push_job_values: "push_job m j = append_raw_bytes m (enc_values (job_values j))"
  unfolding push_values_enc [symmetric] by (simp add: push_job_def push_values_def job_values_def Let_def)

lemma push_status_values: "push_status m s = append_raw_bytes m (enc_values (status_values s))"
  unfolding push_values_enc [symmetric]
  by (simp add: push_status_def push_values_def status_values_def Let_def)

definition job_of_values :: "wire_value list \<Rightarrow> job" where
  "job_of_values vs =
     (case vs of
        [VUlong i, VUlong ji, VUlong si, VBool sub, VUint cnt, VString hash, VString wd, VBool run,
         VBool dlting, VBool dlted] \<Rightarrow>
          \<lparr>j_id = u64_to_i64_max i, j_job_id = normal_id (Some (u64_to_i64_max ji)),
           j_scheduler_id = normal_id (Some (u64_to_i64_max si)), j_submitting = sub,
           j_submitting_count = u32_to_i32_max cnt, j_bundle_hash = hash, j_working_directory = wd,
           j_running = run, j_deleted = dlted, j_deleting = dlting\<rparr>
      | _ \<Rightarrow> default_job)"

definition status_of_values :: "wire_value list \<Rightarrow> jobstatus" where
  "status_of_values vs =
     (case vs of
        [VUlong i, VUlong ji, VString what, VUint st] \<Rightarrow>
          \<lparr>s_id = u64_to_i64_max i, s_what = what, s_state = u32_to_i32_max st, s_job_id = u64_to_i64_max ji\<rparr>
      | _ \<Rightarrow> \<lparr>s_id = 0, s_what = [], s_state = 0, s_job_id = 0\<rparr>)"

abbreviation job_tags :: "wire_tag list" where
  "job_tags \<equiv> [TUlong, TUlong, TUlong, TBool, TUint, TString, TString, TBool, TBool, TBool]"

abbreviation status_tags :: "wire_tag list" where
  "status_tags \<equiv> [TUlong, TUlong, TString, TUint]"

lemma parse_job_values: "parse_job m = map_prod job_of_values id (pop_values job_tags m)"
  by (simp add: parse_job_def pop_optional_id_def pop_id_def job_of_values_def normal_id_def split: prod.split)

lemma parse_status_values: "parse_status m = map_prod status_of_values id (pop_values status_tags m)"
  by (simp add: parse_status_def pop_id_def status_of_values_def split: prod.split)

lemma normal_id_roundtrip:
  "wf_opt_id x \<Longrightarrow> normal_id (Some (u64_to_i64_max (i64_to_u64_or_0 (unwrap_or x 0)))) = normal_id x"
  by (cases x) (simp_all add: wf_opt_id_def unwrap_or_def normal_id_def conv_simps)

lemma job_values_roundtrip: "wf_job j \<Longrightarrow> job_of_values (job_values j) = normal_job j"
  by (simp add: wf_job_def job_of_values_def job_values_def normal_job_def conv_simps normal_id_roundtrip)

lemma status_values_roundtrip: "wf_status s \<Longrightarrow> status_of_values (status_values s) = s"
  by (simp add: wf_status_def status_of_values_def status_values_def conv_simps)

lemma wf_job_values: "wf_job j \<Longrightarrow> \<forall>v\<in>set (job_values j). wf_value v"
  by (simp add: wf_job_def job_values_def wf_string_def)

lemma wf_status_values: "wf_status s \<Longrightarrow> \<forall>v\<in>set (status_values s). wf_value v"
  by (simp add: wf_status_def status_values_def wf_string_def)

lemma parse_job_enc:
  assumes "wf_job j" "unread m = enc_values (job_values j) @ rest"
  shows "parse_job m = (normal_job j, advance (length (enc_values (job_values j))) m)"
proof -
  have "map tag_of (job_values j) = job_tags" by (simp add: job_values_def)
  then show ?thesis
    using pop_values_enc [OF wf_job_values [OF assms(1)] assms(2)]
    by (simp only: parse_job_values map_prod_simp job_values_roundtrip [OF assms(1)] id_apply)
qed

lemma parse_status_enc:
  assumes "wf_status s" "unread m = enc_values (status_values s) @ rest"
  shows "parse_status m = (s, advance (length (enc_values (status_values s))) m)"
proof -
  have "map tag_of (status_values s) = status_tags" by (simp add: status_values_def)
  then show ?thesis
    using pop_values_enc [OF wf_status_values [OF assms(1)] assms(2)]
    by (simp only: parse_status_values map_prod_simp status_values_roundtrip [OF assms(1)] id_apply)
qed

lemma parse_job_cursor: "\<exists>k\<le>remaining_len m. snd (parse_job m) = advance k m"
  using pop_values_cursor [of m job_tags] by (simp only: parse_job_values snd_map_prod id_apply)

lemma parse_status_cursor: "\<exists>k\<le>remaining_len m. snd (parse_status m) = advance k m"
  using pop_values_cursor [of m status_tags] by (simp only: parse_status_values snd_map_prod id_apply)

text \<open>Both models are codecs of the protocol, on their normal forms.\<close>

interpretation job_codec: wire_codec push_job parse_job "\<lambda>j. enc_values (job_values j)"
    "\<lambda>j. wf_job j \<and> normal_job j = j"
  using parse_job_enc parse_job_cursor by unfold_locales (auto simp: push_job_values)

interpretation status_codec: wire_codec push_status parse_status "\<lambda>s. enc_values (status_values s)" wf_status
  using parse_status_enc parse_status_cursor by unfold_locales (auto simp: push_status_values)

context wire_codec
begin

lemma parse_n_enc:
  assumes "list_all ok vs" "unread m = concat (map enc vs) @ rest"
  shows "parse_n pop (length vs) m = (vs, advance (length (concat (map enc vs))) m)"
  using assms
proof (induction vs arbitrary: m)
  case Nil
  then show ?case by simp
next
  case (Cons v vs)
  then have v: "pop m = (v, advance (length (enc v)) m)" by (intro pop_enc [of _ _ "concat (map enc vs) @ rest"]) auto
  have "unread (advance (length (enc v)) m) = concat (map enc vs) @ rest"
    using Cons.prems by (simp add: cursor_simps)
  from Cons.IH [OF _ this] Cons.prems(1) v show ?case by simp
qed

lemma foldl_push: "foldl push m vs = append_raw_bytes m (concat (map enc vs))"
  by (induction vs arbitrary: m) (simp_all add: push_enc)

end

subsection \<open>Lemmas: requests and responses\<close>

text \<open>
  The response message a waiting request receives for a body: parsed from its bytes, with the request
  number already popped.
\<close>

definition db_reply :: "bytes \<Rightarrow> message" where
  "db_reply body =
     snd (pop_uint (from_data (get_data
       (append_raw_bytes (push_uint (message_new DB_RESPONSE Medium ''database'') 0) body))))"

lemma wf_database [simp]: "wf_str ''database''"
  by (rule wf_str_ascii) auto

lemma unread_db_reply: "unread (parse_response (db_reply body)) = body"
proof -
  let ?m = "from_data (header DB_RESPONSE ''database'' @ le_encode 4 (unat (0::u32)) @ body)"
  have un: "unread ?m = le_encode 4 (unat (0::u32)) @ body" by (intro unread_from_data_header) simp_all
  have "db_reply body = advance 4 ?m"
    using uint.pop_enc [OF TrueI un]
    by (simp add: db_reply_def get_data_def message_new_data uint.push_enc del: le_encode.simps)
  then show ?thesis using un
    by (simp add: parse_response_def clone_for_payload_reading_def cursor_simps del: le_encode.simps)
qed

lemma save_job_payload: "clone_payload_bytes (save_job_message j) = enc_values (job_values j)"
  by (rule clone_payload_header [of "''database''" _ DB_JOB_SAVE])
    (simp_all add: save_job_message_def push_job_values message_new_data)

lemma save_status_payload: "clone_payload_bytes (save_status_message s) = enc_values (status_values s)"
  by (rule clone_payload_header [of "''database''" _ DB_JOBSTATUS_SAVE])
    (simp_all add: save_status_message_def push_status_values message_new_data)

lemma pop_count_enc:
  assumes "unread m = le_encode 4 (unat (of_nat n :: u32)) @ rest" "n < 2 ^ 32" "n \<le> length rest"
  shows "pop_count m = (n, advance 4 m)" "unread (advance 4 m) = rest"
proof -
  show un: "unread (advance 4 m) = rest" using assms(1) by (simp add: cursor_simps del: le_encode.simps)
  have "pop_uint m = (of_nat n, advance 4 m)"
    using uint.pop_enc [OF TrueI assms(1)] by (simp del: le_encode.simps)
  moreover have "remaining_len (advance 4 m) = length rest" using un by (metis length_unread)
  ultimately show "pop_count m = (n, advance 4 m)"
    using assms(2,3) by (simp add: pop_count_def unat_of_nat min_def)
qed

lemma enc_job_nonempty: "0 < length (enc_values (job_values j))"
  by (simp add: enc_values_def job_values_def del: le_encode.simps)

lemma enc_status_nonempty: "0 < length (enc_values (status_values s))"
  by (simp add: enc_values_def status_values_def del: le_encode.simps)

lemma length_le_concat: "(\<And>x. x \<in> set xs \<Longrightarrow> 0 < length (f x)) \<Longrightarrow> length xs \<le> length (concat (map f xs))"
proof (induction xs)
  case Nil
  then show ?case by simp
next
  case (Cons x xs)
  have "0 < length (f x)" using Cons.prems by simp
  moreover have "length xs \<le> length (concat (map f xs))" using Cons by simp
  ultimately show ?case by (simp del: length_greater_0_conv)
qed

lemma job_values_normal: "job_values (normal_job j) = job_values j"
  by (simp add: job_values_def normal_job_def normal_id_def unwrap_or_def)

lemma wf_normal_job: "wf_job j \<Longrightarrow> wf_job (normal_job j) \<and> normal_job (normal_job j) = normal_job j"
  by (auto simp: wf_job_def normal_job_def normal_id_def wf_opt_id_def)

lemma parse_n_length: "length (fst (parse_n p n m)) = n"
  by (induction n arbitrary: m) (auto split: prod.splits, metis fst_conv)

lemma parse_n_all: "(\<And>m. P (fst (p m))) \<Longrightarrow> x \<in> set (fst (parse_n p n m)) \<Longrightarrow> P x"
proof (induction n arbitrary: m)
  case 0
  then show ?case by simp
next
  case (Suc n)
  obtain y m1 where y: "p m = (y, m1)" by (cases "p m")
  obtain ys m2 where ys: "parse_n p n m1 = (ys, m2)" by (cases "parse_n p n m1")
  from Suc.prems(2) y ys have "x = y \<or> x \<in> set ys" by simp
  then show ?case using Suc.IH [of m1] Suc.prems(1) [of m] Suc.prems(1) y ys by auto
qed

text \<open>What every parsed model satisfies, whatever the bytes were.\<close>

definition sane_id :: "i64 option \<Rightarrow> bool" where
  "sane_id x \<longleftrightarrow> (case x of None \<Rightarrow> True | Some v \<Rightarrow> 0 < sint v)"

definition sane_job :: "job \<Rightarrow> bool" where
  "sane_job j \<longleftrightarrow>
     0 \<le> sint (j_id j) \<and> sane_id (j_job_id j) \<and> sane_id (j_scheduler_id j) \<and> 0 \<le> sint (j_submitting_count j)
     \<and> wf_str (j_bundle_hash j) \<and> wf_str (j_working_directory j)"

definition sane_status :: "jobstatus \<Rightarrow> bool" where
  "sane_status s \<longleftrightarrow> 0 \<le> sint (s_id s) \<and> 0 \<le> sint (s_job_id s) \<and> 0 \<le> sint (s_state s) \<and> wf_str (s_what s)"

lemma sint_pos_64: "0 \<le> sint (v :: 64 word) \<Longrightarrow> v \<noteq> 0 \<Longrightarrow> 0 < sint v"
  by (metis order_le_less signed_0 signed_word_eqI)

lemma sane_pop_optional: "sane_id (fst (pop_optional_id m))"
  by (auto simp: pop_optional_id_def pop_id_def sane_id_def sint_pos_64 split: prod.split)

lemma wf_pop_string: "wf_str (fst (pop_string m))"
  by (simp add: pop_string_def split: prod.split)

lemma sane_parse_job: "sane_job (fst (parse_job m))"
  using sane_pop_optional wf_pop_string
  by (auto simp: parse_job_def sane_job_def pop_id_def split: prod.splits) (metis fst_conv)+

lemma sane_parse_status: "sane_status (fst (parse_status m))"
  using wf_pop_string
  by (auto simp: parse_status_def sane_status_def pop_id_def split: prod.splits) (metis fst_conv)+

text \<open>A response with one stored job is decoded to that job, whichever request asked for it.\<close>

lemma stored_job_found:
  assumes "wf_job j"
    and "o_db env (tr @ [DbRequest (push_ulong (db_message msg_type) (i64_to_u64_or_0 i))]) =
      Inr (db_reply (le_encode 4 (unat (1::u32)) @ clone_payload_bytes (save_job_message j)))"
  shows "get_job_by_message env msg_type i tr =
    (Inr (Some (normal_job j)), tr @ [DbRequest (push_ulong (db_message msg_type) (i64_to_u64_or_0 i))])"
proof -
  let ?m = "parse_response (db_reply (le_encode 4 (unat (1::u32)) @ clone_payload_bytes (save_job_message j)))"
  have un: "unread ?m = le_encode 4 (unat (of_nat 1 :: u32)) @ enc_values (job_values j)"
    by (simp add: unread_db_reply save_job_payload del: le_encode.simps)
  have "1 \<le> length (enc_values (job_values j))" using enc_job_nonempty [of j] by linarith
  note cnt = pop_count_enc [OF un _ this]
  have "parse_job (advance 4 ?m) = (normal_job j, advance (length (enc_values (job_values j))) (advance 4 ?m))"
    using parse_job_enc [OF assms(1), of "advance 4 ?m" "[]"] cnt(2) by simp
  then show ?thesis using assms(2) cnt(1)
    by (simp add: get_job_by_message_def send_db_request_timed_def ask_defs del: le_encode.simps)
qed

subsection \<open>Properties\<close>

text \<open>
  C16. A saved job is read back as it was. If the server stores the body that \<^verbatim>\<open>save_job\<close> sends and
  later returns it for a lookup, the lookup yields the same job in every field; only an identifier
  stored as 0 comes back as absent. It asks the server exactly once.
\<close>

theorem saved_job_is_read_back:
  assumes "wf_job j"
    and "o_db env (tr @ [DbRequest (push_ulong (db_message DB_JOB_GET_BY_ID) (i64_to_u64_or_0 i))]) =
      Inr (db_reply (le_encode 4 (unat (1::u32)) @ clone_payload_bytes (save_job_message j)))"
  shows "get_job_by_id env i tr =
    (Inr (Some (normal_job j)),
     tr @ [DbRequest (push_ulong (db_message DB_JOB_GET_BY_ID) (i64_to_u64_or_0 i))])"
  unfolding get_job_by_id_def using assms by (rule stored_job_found)

definition sample_job :: job where
  "sample_job = default_job\<lparr>j_id := 7, j_job_id := Some 42, j_scheduler_id := Some 0, j_submitting_count := 3,
     j_running := True, j_deleting := True\<rparr>"

definition quiet_outside :: outside where
  "quiet_outside =
     \<lparr>o_db = (\<lambda>_. Inl ''WebSocket is disconnected''), o_closed = (\<lambda>_. False), o_ready = (\<lambda>_. True),
      o_uint64 = (\<lambda>_. 0), o_json = (\<lambda>_. JNull), o_bool = (\<lambda>_. False), o_string = (\<lambda>_. []),
      o_archive = (\<lambda>_. Inr ()), o_config = JNull, o_canonicalize = (\<lambda>_. None), o_exists = (\<lambda>_. False),
      o_metadata = (\<lambda>_. Inl []), o_read_dir = (\<lambda>_. None), o_fs = (\<lambda>_. Inr ()), o_valid_url = (\<lambda>_. True),
      o_valid_header = (\<lambda>_. True), o_connect = (\<lambda>_. False),
      o_receive = (\<lambda>_. None), o_timeout = (\<lambda>_. False), o_send = (\<lambda>_. Inr ())\<rparr>"

lemma wf_nil [simp]: "wf_str []"
  by (rule wf_str_ascii) simp

lemma wf_sample: "wf_job sample_job"
  by (simp add: wf_job_def sample_job_def default_job_def wf_opt_id_def wf_string_def)

theorem saved_job_is_read_back_witness:
  "fst (get_job_by_id
      (quiet_outside\<lparr>o_db := (\<lambda>_. Inr (db_reply (le_encode 4 (unat (1::u32))
          @ clone_payload_bytes (save_job_message sample_job))))\<rparr>) 7 []) =
   Inr (Some (sample_job\<lparr>j_scheduler_id := None\<rparr>))"
proof -
  have "normal_job sample_job = sample_job\<lparr>j_scheduler_id := None\<rparr>"
    by (simp add: normal_job_def normal_id_def sample_job_def)
  then show ?thesis
    using saved_job_is_read_back [OF wf_sample, of "quiet_outside\<lparr>o_db := (\<lambda>_. Inr (db_reply
        (le_encode 4 (unat (1::u32)) @ clone_payload_bytes (save_job_message sample_job))))\<rparr>" "[]" 7]
    by simp
qed

text \<open>
  Lists of jobs are decoded completely and in order. A response that carries a count and that many
  encoded jobs yields exactly these jobs, with no job invented or dropped.
\<close>

theorem running_jobs_roundtrip:
  assumes "list_all wf_job js" "length js < 2 ^ 32"
    and "o_db env (tr @ [DbRequest (db_message DB_JOB_GET_RUNNING_JOBS)]) =
      Inr (db_reply (le_encode 4 (unat (of_nat (length js) :: u32))
        @ concat (map (clone_payload_bytes \<circ> save_job_message) js)))"
  shows "get_running_jobs env tr =
    (Inr (map normal_job js), tr @ [DbRequest (db_message DB_JOB_GET_RUNNING_JOBS)])"
proof -
  define body where "body = concat (map (\<lambda>j. enc_values (job_values j)) js)"
  define m where "m = parse_response (db_reply (le_encode 4 (unat (of_nat (length js) :: u32)) @ body))"
  have un: "unread m = le_encode 4 (unat (of_nat (length js) :: u32)) @ body"
    by (simp add: m_def unread_db_reply del: le_encode.simps)
  have "length js \<le> length body"
    unfolding body_def by (rule length_le_concat) (simp only: enc_job_nonempty)
  note cnt = pop_count_enc [OF un assms(2) this]
  have "list_all (\<lambda>j. wf_job j \<and> normal_job j = j) (map normal_job js)"
    using assms(1) wf_normal_job by (auto simp: list_all_iff)
  from job_codec.parse_n_enc [OF this, of "advance 4 m" "[]"] cnt(2)
  have "fst (parse_n parse_job (length js) (advance 4 m)) = map normal_job js"
    by (simp add: o_def job_values_normal body_def)
  moreover have "o_db env (tr @ [DbRequest (db_message DB_JOB_GET_RUNNING_JOBS)]) =
      Inr (db_reply (le_encode 4 (unat (of_nat (length js) :: u32)) @ body))"
    using assms(3) by (simp add: body_def o_def save_job_payload del: le_encode.simps)
  ultimately show ?thesis using cnt(1)
    by (simp add: get_running_jobs_def send_db_request_timed_def ask_defs m_def del: le_encode.simps)
qed

theorem running_jobs_roundtrip_witness:
  "fst (get_running_jobs
      (quiet_outside\<lparr>o_db := (\<lambda>_. Inr (db_reply (le_encode 4 (unat (2::u32))
          @ concat (map (clone_payload_bytes \<circ> save_job_message) [sample_job, default_job]))))\<rparr>) []) =
   Inr [normal_job sample_job, default_job]"
proof -
  have "wf_job default_job" "normal_job default_job = default_job"
    by (simp_all add: wf_job_def default_job_def wf_opt_id_def wf_string_def normal_job_def normal_id_def)
  then show ?thesis
    using running_jobs_roundtrip [of "[sample_job, default_job]" "quiet_outside\<lparr>o_db := (\<lambda>_. Inr (db_reply
        (le_encode 4 (unat (2::u32)) @ concat (map (clone_payload_bytes \<circ> save_job_message) [sample_job, default_job]))))\<rparr>" "[]"]
      wf_sample by simp
qed

text \<open>
  Responses cannot make the client invent or allocate without bound. Whatever bytes the server
  sends, the number of jobs or statuses returned is at most the number of bytes left in the response,
  whatever its count field says; every identifier and counter is non-negative, no optional identifier
  is zero, and every string is UTF-8. An error of the request is passed on unchanged.
\<close>

theorem decoded_lists_are_bounded:
  "(case o_db env (tr @ [DbRequest (db_message DB_JOB_GET_RUNNING_JOBS)]) of
      Inl e \<Rightarrow> fst (get_running_jobs env tr) = Inl e
    | Inr raw \<Rightarrow>
        (\<exists>js. fst (get_running_jobs env tr) = Inr js \<and> list_all sane_job js
           \<and> length js \<le> remaining_len (snd (pop_uint (parse_response raw)))))
   \<and> (case o_db env (tr @ [DbRequest msg]) of
        Inl e \<Rightarrow> fst (get_job_statuses env msg tr) = Inl e
      | Inr raw \<Rightarrow>
          (\<exists>ss. fst (get_job_statuses env msg tr) = Inr ss \<and> list_all sane_status ss
             \<and> length ss \<le> remaining_len (snd (pop_uint (parse_response raw)))))"
  using parse_n_all [of sane_job parse_job] sane_parse_job
    parse_n_all [of sane_status parse_status] sane_parse_status
  by (auto simp: get_running_jobs_def get_job_statuses_def send_db_request_timed_def ask_defs
      list_all_iff pop_count_def parse_n_length split: sum.splits prod.splits)

text \<open>
  Saving reports exactly what the server did. The request is sent once; a transport error is
  returned as it is, a saved identifier of 0 is the documented failure, and otherwise the result is the
  same model with the positive identifier of the server.
\<close>

theorem save_job_outcome:
  "case save_job env j tr of (result, tr') \<Rightarrow>
     tr' = tr @ [DbRequest (save_job_message j)]
     \<and> (case o_db env tr' of
          Inl e \<Rightarrow> result = Inl e
        | Inr raw \<Rightarrow>
            (let saved = pop_id (parse_response raw)
             in if fst saved = 0 then result = Inl ''Database operation failed to save job''
                else result = Inr (j\<lparr>j_id := fst saved\<rparr>) \<and> 0 < sint (fst saved)))"
proof -
  have "0 \<le> sint (fst (pop_id m))" for m by (simp add: pop_id_def split: prod.split)
  then show ?thesis
    by (auto simp: save_job_def send_save_request_def send_db_request_timed_def ask_defs
        intro: sint_pos_64 split: sum.splits prod.splits if_splits)
qed

end
