(* ===== verification/Jobs.thy ===== *)
theory Jobs
  imports Database
begin

text \<open>
  The job handlers of \<^verbatim>\<open>src/src/src/jobs/mod.rs\<close>: submission, status checks, cancellation
  and deletion. A handler is a function from the trace of events before
  it to the trace after it; database, bundles, archiver and connection state are answered by the
  outside. Concurrent tasks are covered because those answers are arbitrary: another task that changes
  the database or drops the connection is an outside that answers accordingly. The sources hold
  \<^verbatim>\<open>SUBMIT_MUTEX\<close> from the lookup to the first save of a submission.
\<close>

subsection \<open>Conversions and messages\<close>

abbreviation MAX_SUBMIT_COUNT :: int where "MAX_SUBMIT_COUNT \<equiv> 60"
abbreviation ARCHIVE_FILE_NAME :: string where "ARCHIVE_FILE_NAME \<equiv> ''archive.tar.gz''"
abbreviation MAX_ARCHIVE_SIZE_BYTES :: u64 where "MAX_ARCHIVE_SIZE_BYTES \<equiv> 1073741824"

definition saturating_increment_submit_count :: "i32 \<Rightarrow> i32" where
  "saturating_increment_submit_count count = i32_saturating_add count 1"

definition status_to_i32 :: "u32 \<Rightarrow> i32" where
  "status_to_i32 status = u32_to_i32_max status"

definition state_to_u32 :: "i32 \<Rightarrow> u32" where
  "state_to_u32 state = i32_to_u32_max state"

definition get_default_job_details :: "outside \<Rightarrow> json" where
  "get_default_job_details env = JObject [(''cluster'', json_index (o_config env) ''cluster'')]"

definition cap_scheduler_id :: "u64 \<Rightarrow> i64" where
  "cap_scheduler_id scheduler_id = u64_to_i64_max scheduler_id"

definition cap_job_id_for_wire :: "i64 \<Rightarrow> u32" where
  "cap_job_id_for_wire job_id = i64_to_u32_max job_id"

definition update_message :: "i64 \<Rightarrow> string \<Rightarrow> u32 \<Rightarrow> string \<Rightarrow> message" where
  "update_message job_id src status text =
     (let m0 = message_new UPDATE_JOB Medium (show_int (sint job_id));
          m1 = push_uint m0 (cap_job_id_for_wire job_id);
          m2 = push_string m1 src;
          m3 = push_uint m2 status
      in push_string m3 text)"

definition update_event :: "i64 \<Rightarrow> string \<Rightarrow> u32 \<Rightarrow> string \<Rightarrow> event" where
  "update_event job_id src status text =
     QueueMessage (show_int (sint job_id)) (get_data (update_message job_id src status text)) Medium"

definition queue_job_update :: "i64 \<Rightarrow> string \<Rightarrow> u32 \<Rightarrow> string \<Rightarrow> trace \<Rightarrow> trace" where
  "queue_job_update job_id src status text tr =
     emit_message (show_int (sint job_id)) (get_data (update_message job_id src status text)) Medium tr"

definition capped_status_from_json :: "json \<Rightarrow> u32" where
  "capped_status_from_json v = u64_to_u32_max (unwrap_or (as_u64 v) 0)"

definition get_job_details :: "outside \<Rightarrow> job \<Rightarrow> json" where
  "get_job_details env j =
     json_set (json_set (get_default_job_details env) ''job_id'' (json_of_option_i64 (j_job_id j)))
       ''scheduler_id'' (json_of_option_i64 (j_scheduler_id j))"

definition save_job_or_abort :: "outside \<Rightarrow> job \<Rightarrow> job option io" where
  "save_job_or_abort env j tr =
     (case save_job env j tr of (Inl e, tr') \<Rightarrow> (None, tr') | (Inr j', tr') \<Rightarrow> (Some j', tr'))"

definition get_or_create_job_or_abort :: "outside \<Rightarrow> i64 \<Rightarrow> job option io" where
  "get_or_create_job_or_abort env job_id tr =
     (case get_or_create_by_job_id env job_id tr of
        (Inl e, tr') \<Rightarrow> (None, tr') | (Inr j, tr') \<Rightarrow> (Some j, tr'))"

definition archive_job :: "outside \<Rightarrow> job \<Rightarrow> unit result io" where
  "archive_job env j tr = ask_archive env (j_working_directory j) tr"

subsection \<open>Status checks\<close>

definition statuses_or_empty :: "jobstatus list result \<times> trace \<Rightarrow> jobstatus list \<times> trace" where
  "statuses_or_empty r = (case r of (Inl e, tr) \<Rightarrow> ([], tr) | (Inr ss, tr) \<Rightarrow> (ss, tr))"

definition check_one_status :: "outside \<Rightarrow> job \<Rightarrow> bool \<Rightarrow> json \<Rightarrow> trace \<Rightarrow> trace" where
  "check_one_status env j force stat tr =
     (let info = unwrap_or (as_str (json_index stat ''info'')) [];
          json_status = json_index stat ''status'';
          what = unwrap_or (as_str (json_index stat ''what'')) [];
          job_id = unwrap_or (j_job_id j) 0
      in if json_status = JNull then tr
         else
           let status = capped_status_from_json json_status
           in case statuses_or_empty (get_job_status_by_job_id_and_what env (j_id j) what tr) of (found, tr1) \<Rightarrow>
             case (if length found > 1
                   then ([], snd (delete_status_by_id_list env (map s_id found) tr1))
                   else (found, tr1)) of (v_status, tr2) \<Rightarrow>
               if force \<or> v_status = [] \<or> status \<noteq> state_to_u32 (s_state (hd v_status)) then
                 let base = (if v_status = []
                             then \<lparr>s_id = 0, s_what = what, s_state = status_to_i32 status, s_job_id = j_id j\<rparr>
                             else hd v_status);
                     state_item = base\<lparr>s_what := what, s_state := status_to_i32 status\<rparr>
                 in queue_job_update job_id what status info (snd (save_status env state_item tr2))
               else tr2)"

definition job_error_of :: "jobstatus list \<Rightarrow> u32" where
  "job_error_of v_status =
     (let errs = map (state_to_u32 \<circ> s_state)
                   (filter (\<lambda>s. ERROR \<le> state_to_u32 (s_state s) \<and> state_to_u32 (s_state s) \<noteq> COMPLETED) v_status)
      in if errs = [] then 0 else last errs)"

definition job_complete_of :: "jobstatus list \<Rightarrow> bool" where
  "job_complete_of v_status \<longleftrightarrow> list_all (\<lambda>s. state_to_u32 (s_state s) = COMPLETED) v_status"

definition check_job_status :: "outside \<Rightarrow> job \<Rightarrow> bool \<Rightarrow> trace \<Rightarrow> trace" where
  "check_job_status env j force tr =
     (let job_id = unwrap_or (j_job_id j) 0
      in if disconnected env tr then tr
         else case ask_json env ''status'' (j_bundle_hash j) (get_job_details env j) [] tr of (status_json, tr1) \<Rightarrow>
           let tr2 = (case as_array (json_index status_json ''status'') of
                        None \<Rightarrow> tr1
                      | Some statuses \<Rightarrow> fold (check_one_status env j force) statuses tr1)
           in case statuses_or_empty (get_job_status_by_job_id env (j_id j) tr2) of (v_status, tr3) \<Rightarrow>
             let job_error = job_error_of v_status
             in if job_error \<noteq> 0
                   \<or> (unwrap_or (as_bool (json_index status_json ''complete'')) False \<and> job_complete_of v_status)
                then
                  let tr4 = snd (save_job env (j\<lparr>j_running := False\<rparr>) tr3);
                      tr5 = snd (archive_job env j tr4)
                  in queue_job_update job_id JOB_COMPLETION_SOURCE
                       (if job_error \<noteq> 0 then job_error else COMPLETED) ''Job has completed'' tr5
                else tr3)"

text \<open>
  The status checks of all running jobs are spawned as tasks and run concurrently. Each task has a trace of its own,
  and \<open>tasks i\<close> is what the task of the \<open>i\<close>-th job sees, the other tasks included. The result is the trace of the
  caller and the traces of the tasks, all of which it awaits.
\<close>

definition check_all_jobs_status ::
    "outside \<Rightarrow> (nat \<Rightarrow> outside) \<Rightarrow> trace \<Rightarrow> trace \<times> trace list" where
  "check_all_jobs_status env tasks tr =
     (if disconnected env tr then (tr, [])
      else case get_running_jobs env tr of
             (Inl e, tr') \<Rightarrow> (tr', [])
           | (Inr jobs, tr') \<Rightarrow> (tr', map (\<lambda>(i, j). check_job_status (tasks i) j False []) (enumerate 0 jobs)))"

subsection \<open>Submission\<close>

text \<open>
  What is to be done with the job found under the mutex: it is being submitted and its counter is
  saved, it has been submitted already and is only checked, or it is submitted now.
\<close>

datatype submit_decision = StillSubmitting job | AlreadySubmitted job | SubmitNow job

definition decide_submit :: "i64 \<Rightarrow> job \<Rightarrow> submit_decision" where
  "decide_submit job_id j =
     (let count = saturating_increment_submit_count (j_submitting_count j);
          bumped = j\<lparr>j_submitting_count := count\<rparr>
      in if j_submitting j \<and> \<not> sint count \<ge> MAX_SUBMIT_COUNT then StillSubmitting bumped
         else
           let j' = (if j_submitting j then bumped\<lparr>j_submitting_count := 0, j_job_id := Some 0\<rparr> else j)
           in if job_id \<noteq> 0 \<and> j_job_id j' = Some job_id then AlreadySubmitted j' else SubmitNow j')"

abbreviation submit_failed_text :: string where
  "submit_failed_text \<equiv> ''Unable to submit job. Please check the logs as to why.''"

definition finish_submit :: "outside \<Rightarrow> i64 \<Rightarrow> u64 \<Rightarrow> job \<Rightarrow> trace \<Rightarrow> trace" where
  "finish_submit env job_id scheduler_id j tr =
     (let j1 = j\<lparr>j_scheduler_id := Some (cap_scheduler_id scheduler_id)\<rparr>
      in if scheduler_id = 0 then
           let tr1 = snd (delete_job env (j_id j1) tr)
           in queue_job_update job_id JOB_COMPLETION_SOURCE ERROR submit_failed_text
                (queue_job_update job_id SYSTEM_SOURCE ERROR submit_failed_text tr1)
         else
           let tr1 = snd (save_job env (j1\<lparr>j_submitting := False, j_running := True\<rparr>) tr)
           in queue_job_update job_id SYSTEM_SOURCE SUBMITTED ''Job submitted successfully'' tr1)"

definition submit_now :: "outside \<Rightarrow> i64 \<Rightarrow> string \<Rightarrow> string \<Rightarrow> job \<Rightarrow> trace \<Rightarrow> trace" where
  "submit_now env job_id hash params j tr =
     (let details = json_set (get_default_job_details env) ''job_id'' (json_of_i64 job_id);
          j1 = j\<lparr>j_job_id := Some job_id, j_bundle_hash := hash, j_submitting := True,
                 j_working_directory := []\<rparr>
      in case save_job_or_abort env j1 tr of
           (None, tr1) \<Rightarrow> tr1
         | (Some j2, tr1) \<Rightarrow>
             case resolve_working_directory env hash details [] tr1 of (working_dir, tr2) \<Rightarrow>
               case save_job_or_abort env (j2\<lparr>j_working_directory := working_dir\<rparr>) tr2 of
                 (None, tr3) \<Rightarrow> tr3
               | (Some j3, tr3) \<Rightarrow>
                   case ask_uint64 env ''submit'' hash details params tr3 of (scheduler_id, tr4) \<Rightarrow>
                     finish_submit env job_id scheduler_id j3 tr4)"

text \<open>The task that a handler spawns, on the fields of the message.\<close>

definition submit_task :: "outside \<Rightarrow> i64 \<Rightarrow> string \<Rightarrow> string \<Rightarrow> trace \<Rightarrow> trace" where
  "submit_task env job_id hash params tr =
     (if disconnected env tr then tr
      else case get_or_create_job_or_abort env job_id tr of
        (None, tr1) \<Rightarrow> tr1
      | (Some j, tr1) \<Rightarrow>
          (case decide_submit job_id j of
             StillSubmitting j' \<Rightarrow> snd (save_job env j' tr1)
           | AlreadySubmitted j' \<Rightarrow> check_job_status env j' True tr1
           | SubmitNow j' \<Rightarrow> submit_now env job_id hash params j' tr1))"

definition handle_job_submit :: "outside \<Rightarrow> message \<Rightarrow> trace \<Rightarrow> trace" where
  "handle_job_submit env msg tr =
     (case pop_uint msg of (wire_id, m1) \<Rightarrow>
      case pop_string m1 of (hash, m2) \<Rightarrow>
      case pop_string m2 of (params, m3) \<Rightarrow> submit_task env (ucast wire_id) hash params tr)"

subsection \<open>Cancellation and deletion\<close>

definition reload_job_or_abort :: "outside \<Rightarrow> job \<Rightarrow> job option io" where
  "reload_job_or_abort env j tr =
     (case get_job_by_id env (j_id j) tr of
        (Inr (Some j'), tr') \<Rightarrow> (Some j', tr')
      | (Inr None, tr') \<Rightarrow> (None, tr')
      | (Inl e, tr') \<Rightarrow> (None, tr'))"

definition run_bundle_bool_for_job :: "outside \<Rightarrow> string \<Rightarrow> string \<Rightarrow> json \<Rightarrow> bool io" where
  "run_bundle_bool_for_job env f hash details tr = ask_bool env f hash details [] tr"

definition already_cancelled :: "jobstatus list \<Rightarrow> bool" where
  "already_cancelled ss \<longleftrightarrow> list_ex (\<lambda>s. state_to_u32 (s_state s) = CANCELLED) ss"

definition cancel_running :: "outside \<Rightarrow> i64 \<Rightarrow> job \<Rightarrow> trace \<Rightarrow> trace" where
  "cancel_running env job_id j tr =
     (case run_bundle_bool_for_job env ''cancel'' (j_bundle_hash j) (get_job_details env j) tr of (cancelled, tr1) \<Rightarrow>
        if \<not> cancelled then tr1
        else case reload_job_or_abort env j tr1 of
          (None, tr2) \<Rightarrow> tr2
        | (Some j2, tr2) \<Rightarrow>
            let tr3 = check_job_status env j2 False tr2
            in case statuses_or_empty (get_job_status_by_job_id env (j_id j2) tr3) of (ss, tr4) \<Rightarrow>
              if already_cancelled ss then tr4
              else
                let j3 = j2\<lparr>j_running := False\<rparr>;
                    tr5 = snd (save_job env j3 tr4);
                    tr6 = snd (archive_job env j3 tr5)
                in queue_job_update job_id JOB_COMPLETION_SOURCE CANCELLED ''Job has been cancelled'' tr6)"

definition cancel_task :: "outside \<Rightarrow> i64 \<Rightarrow> trace \<Rightarrow> trace" where
  "cancel_task env job_id tr =
     (case get_or_create_job_or_abort env job_id tr of
        (None, tr1) \<Rightarrow> tr1
      | (Some j, tr1) \<Rightarrow>
          if j_id j = 0 \<or> \<not> j_running j \<or> j_submitting j then
            (if \<not> j_submitting j
             then queue_job_update job_id JOB_COMPLETION_SOURCE CANCELLED ''Job has been cancelled'' tr1
             else tr1)
          else case statuses_or_empty (get_job_status_by_job_id env (j_id j) tr1) of (ss, tr2) \<Rightarrow>
            if already_cancelled ss then tr2
            else
              let tr3 = check_job_status env j False tr2
              in case reload_job_or_abort env j tr3 of
                (None, tr4) \<Rightarrow> tr4
              | (Some j2, tr4) \<Rightarrow> if \<not> j_running j2 then tr4 else cancel_running env job_id j2 tr4)"

definition handle_job_cancel :: "outside \<Rightarrow> message \<Rightarrow> trace \<Rightarrow> trace" where
  "handle_job_cancel env msg tr = cancel_task env (ucast (fst (pop_uint msg))) tr"

definition delete_task :: "outside \<Rightarrow> i64 \<Rightarrow> trace \<Rightarrow> trace" where
  "delete_task env job_id tr =
     (case get_or_create_job_or_abort env job_id tr of
        (None, tr1) \<Rightarrow> tr1
      | (Some j, tr1) \<Rightarrow>
          if j_id j = 0 \<or> j_running j \<or> j_submitting j \<or> j_deleted j then
            (if j_id j = 0 \<or> j_deleted j
             then queue_job_update job_id JOB_COMPLETION_SOURCE DELETED ''Job has been deleted'' tr1
             else tr1)
          else if j_deleting j then tr1
          else case save_job_or_abort env (j\<lparr>j_deleting := True\<rparr>) tr1 of
            (None, tr2) \<Rightarrow> tr2
          | (Some j2, tr2) \<Rightarrow>
              (case run_bundle_bool_for_job env ''delete'' (j_bundle_hash j2) (get_job_details env j2) tr2 of
                 (deleted, tr3) \<Rightarrow>
                   if \<not> deleted then snd (save_job env (j2\<lparr>j_deleting := False\<rparr>) tr3)
                   else queue_job_update job_id JOB_COMPLETION_SOURCE DELETED ''Job has been deleted''
                          (snd (save_job env (j2\<lparr>j_deleting := False, j_deleted := True\<rparr>) tr3))))"

definition handle_job_delete :: "outside \<Rightarrow> message \<Rightarrow> trace \<Rightarrow> trace" where
  "handle_job_delete env msg tr = delete_task env (ucast (fst (pop_uint msg))) tr"

subsection \<open>Lemmas: one request, one event\<close>

abbreviation save_event :: "job \<Rightarrow> event" where
  "save_event j \<equiv> DbRequest (save_job_message j)"

abbreviation lookup_event :: "i64 \<Rightarrow> event" where
  "lookup_event i \<equiv> DbRequest (push_ulong (db_message DB_JOB_GET_BY_JOB_ID) (i64_to_u64_or_0 i))"

abbreviation reload_event :: "i64 \<Rightarrow> event" where
  "reload_event i \<equiv> DbRequest (push_ulong (db_message DB_JOB_GET_BY_ID) (i64_to_u64_or_0 i))"

abbreviation delete_event :: "i64 \<Rightarrow> event" where
  "delete_event i \<equiv> DbRequest (push_ulong (db_message DB_JOB_DELETE) (i64_to_u64_or_0 i))"

abbreviation statuses_event :: "i64 \<Rightarrow> event" where
  "statuses_event i \<equiv> DbRequest (push_ulong (db_message DB_JOBSTATUS_GET_BY_JOB_ID) (i64_to_u64_or_0 i))"

abbreviation status_event :: "i64 \<Rightarrow> string \<Rightarrow> event" where
  "status_event i what \<equiv>
     DbRequest (push_string (push_ulong (db_message DB_JOBSTATUS_GET_BY_JOB_ID_AND_WHAT) (i64_to_u64_or_0 i)) what)"

lemma queue_job_update_event [simp]:
  "queue_job_update job_id src status text tr = tr @ [update_event job_id src status text]"
  by (simp add: queue_job_update_def update_event_def emit_message_def)

lemma db_traces [simp]:
  "snd (save_job env j tr) = tr @ [save_event j]"
  "snd (save_status env s tr) = tr @ [DbRequest (save_status_message s)]"
  "snd (delete_job env i tr) = tr @ [delete_event i]"
  "snd (delete_status_by_id_list env ids tr) = tr @ [DbRequest (delete_status_message ids)]"
  "snd (get_or_create_by_job_id env i tr) = tr @ [lookup_event i]"
  "snd (get_job_by_id env i tr) = tr @ [reload_event i]"
  "snd (get_job_status_by_job_id env i tr) = tr @ [statuses_event i]"
  "snd (get_job_status_by_job_id_and_what env i what tr) = tr @ [status_event i what]"
  "snd (get_running_jobs env tr) = tr @ [DbRequest (db_message DB_JOB_GET_RUNNING_JOBS)]"
  by (simp_all add: save_job_def save_status_def delete_job_def delete_status_by_id_list_def
      get_or_create_by_job_id_def get_job_by_job_id_def get_job_by_id_def get_job_by_message_def
      get_job_status_by_job_id_def get_job_status_by_job_id_and_what_def get_job_statuses_def
      get_running_jobs_def send_save_request_def send_db_request_timed_def ask_defs
      split: sum.split prod.split option.split)

lemma or_abort_traces [simp]:
  "snd (save_job_or_abort env j tr) = tr @ [save_event j]"
  "snd (get_or_create_job_or_abort env i tr) = tr @ [lookup_event i]"
  "snd (reload_job_or_abort env j tr) = tr @ [reload_event (j_id j)]"
  "snd (statuses_or_empty r) = snd r"
  "snd (archive_job env j tr) = tr @ [ArchiveDir (j_working_directory j)]"
  "snd (run_bundle_bool_for_job env f hash details tr) = tr @ [RunBundle f hash details []]"
  "snd (resolve_working_directory env hash details d tr) = tr @ [RunBundle ''working_directory'' hash details d]"
  by (auto simp: save_job_or_abort_def get_or_create_job_or_abort_def reload_job_or_abort_def
      statuses_or_empty_def archive_job_def run_bundle_bool_for_job_def resolve_working_directory_def ask_defs
      dest!: arg_cong [where f = snd] split: sum.splits prod.splits option.splits)

text \<open>The results, with the trace made explicit.\<close>

lemma save_job_or_abort_cases:
  obtains (fail) "save_job_or_abort env j tr = (None, tr @ [save_event j])"
    "\<exists>e. fst (save_job env j tr) = Inl e"
  | (saved) i where "save_job_or_abort env j tr = (Some (j\<lparr>j_id := i\<rparr>), tr @ [save_event j])"
    "fst (save_job env j tr) = Inr (j\<lparr>j_id := i\<rparr>)"
proof (cases "save_job env j tr")
  case (Pair r tr')
  then have tr': "tr' = tr @ [save_event j]" using db_traces(1) [of env j tr] by simp
  show thesis
  proof (cases r)
    case (Inl e)
    with Pair tr' show thesis by (intro fail) (auto simp: save_job_or_abort_def)
  next
    case (Inr j')
    then have "\<exists>i. j' = j\<lparr>j_id := i\<rparr>" using Pair by (auto simp: save_job_def split: sum.splits prod.splits)
    with Inr Pair tr' show thesis by (auto simp: save_job_or_abort_def intro: saved)
  qed
qed

lemma pair_trace: "snd p = t \<Longrightarrow> p = (fst p, t)"
  by auto

subsection \<open>Lemmas: which events a status check emits\<close>

fun is_call :: "string \<Rightarrow> event \<Rightarrow> bool" where
  "is_call f (RunBundle g h d p) \<longleftrightarrow> g = f"
| "is_call f _ \<longleftrightarrow> False"

lemma is_call_update [simp]: "\<not> is_call f (update_event a b c d)"
  by (simp add: update_event_def)

abbreviation stat_what :: "json \<Rightarrow> string" where
  "stat_what stat \<equiv> unwrap_or (as_str (json_index stat ''what'')) []"

abbreviation stat_info :: "json \<Rightarrow> string" where
  "stat_info stat \<equiv> unwrap_or (as_str (json_index stat ''info'')) []"

abbreviation stat_code :: "json \<Rightarrow> u32" where
  "stat_code stat \<equiv> capped_status_from_json (json_index stat ''status'')"

text \<open>The status row that is saved: the single stored one with its new state, or a fresh one.\<close>

definition new_status_row :: "job \<Rightarrow> jobstatus list \<Rightarrow> json \<Rightarrow> jobstatus" where
  "new_status_row j found stat =
     \<lparr>s_id = (if length found = 1 then s_id (hd found) else 0), s_what = stat_what stat,
      s_state = status_to_i32 (stat_code stat),
      s_job_id = (if length found = 1 then s_job_id (hd found) else j_id j)\<rparr>"

lemma status_row_updated:
  "(x::jobstatus)\<lparr>s_what := w, s_state := t\<rparr> = \<lparr>s_id = s_id x, s_what = w, s_state = t, s_job_id = s_job_id x\<rparr>"
  by (cases x) simp

lemma check_one_status_trace:
  "check_one_status env j force stat tr =
     (if json_index stat ''status'' = JNull then tr
      else
        let found = fst (statuses_or_empty (get_job_status_by_job_id_and_what env (j_id j) (stat_what stat) tr))
        in tr @ [status_event (j_id j) (stat_what stat)]
           @ (if length found > 1 then [DbRequest (delete_status_message (map s_id found))] else [])
           @ (if force \<or> length found \<noteq> 1 \<or> stat_code stat \<noteq> state_to_u32 (s_state (hd found))
              then [DbRequest (save_status_message (new_status_row j found stat)),
                    update_event (unwrap_or (j_job_id j) 0) (stat_what stat) (stat_code stat) (stat_info stat)]
              else []))"
proof -
  obtain found tr1 where q:
    "statuses_or_empty (get_job_status_by_job_id_and_what env (j_id j) (stat_what stat) tr) = (found, tr1)"
    by (cases "statuses_or_empty (get_job_status_by_job_id_and_what env (j_id j) (stat_what stat) tr)")
  have tr1: "tr1 = tr @ [status_event (j_id j) (stat_what stat)]"
    using or_abort_traces(4) [of "get_job_status_by_job_id_and_what env (j_id j) (stat_what stat) tr"] q by simp
  consider "found = []" | x where "found = [x]" | x y zs where "found = x # y # zs"
    by (metis neq_Nil_conv)
  then show ?thesis
    by cases (simp_all add: check_one_status_def Let_def q tr1 new_status_row_def status_row_updated)
qed

lemma check_one_emits: "emits_only (\<lambda>e. \<not> is_call f e) tr (check_one_status env j force stat tr)"
  by (simp add: check_one_status_trace emits_only_def Let_def)

lemma fold_emits:
  assumes "\<And>x tr. emits_only P tr (f x tr)"
  shows "emits_only P tr (fold f xs tr)"
proof (induction xs arbitrary: tr)
  case Nil
  then show ?case by simp
next
  case (Cons x xs)
  then show ?case using assms emits_trans by fastforce
qed

definition status_pass :: "outside \<Rightarrow> job \<Rightarrow> bool \<Rightarrow> trace \<Rightarrow> json \<times> trace" where
  "status_pass env j force tr =
     (case ask_json env ''status'' (j_bundle_hash j) (get_job_details env j) [] tr of (status_json, tr1) \<Rightarrow>
        (status_json,
         case as_array (json_index status_json ''status'') of
           None \<Rightarrow> tr1
         | Some statuses \<Rightarrow> fold (check_one_status env j force) statuses tr1))"

definition must_close :: "json \<Rightarrow> jobstatus list \<Rightarrow> bool" where
  "must_close status_json ss \<longleftrightarrow>
     job_error_of ss \<noteq> 0 \<or> (unwrap_or (as_bool (json_index status_json ''complete'')) False \<and> job_complete_of ss)"

definition close_events :: "job \<Rightarrow> jobstatus list \<Rightarrow> event list" where
  "close_events j ss =
     [save_event (j\<lparr>j_running := False\<rparr>), ArchiveDir (j_working_directory j),
      update_event (unwrap_or (j_job_id j) 0) JOB_COMPLETION_SOURCE
        (if job_error_of ss \<noteq> 0 then job_error_of ss else COMPLETED) ''Job has completed'']"

lemma check_job_status_trace:
  "check_job_status env j force tr =
     (if disconnected env tr then tr
      else
        let (status_json, tr2) = status_pass env j force tr;
            ss = fst (statuses_or_empty (get_job_status_by_job_id env (j_id j) tr2))
        in tr2 @ [statuses_event (j_id j)] @ (if must_close status_json ss then close_events j ss else []))"
proof -
  obtain status_json tr2 where p: "status_pass env j force tr = (status_json, tr2)"
    by (cases "status_pass env j force tr")
  obtain ss tr3 where s: "statuses_or_empty (get_job_status_by_job_id env (j_id j) tr2) = (ss, tr3)"
    by (cases "statuses_or_empty (get_job_status_by_job_id env (j_id j) tr2)")
  have tr3: "tr3 = tr2 @ [statuses_event (j_id j)]"
    using or_abort_traces(4) [of "get_job_status_by_job_id env (j_id j) tr2"] s by simp
  show ?thesis
    using p s tr3
    by (auto simp: check_job_status_def status_pass_def must_close_def close_events_def Let_def
        split: prod.splits)
qed

lemma status_pass_emits:
  assumes "f \<noteq> ''status''"
  shows "emits_only (\<lambda>e. \<not> is_call f e) tr (snd (status_pass env j force tr))"
proof -
  have first: "emits_only (\<lambda>e. \<not> is_call f e) tr
      (tr @ [RunBundle ''status'' (j_bundle_hash j) (get_job_details env j) []])" using assms by simp
  show ?thesis
    unfolding status_pass_def ask_defs
    using emits_trans [OF first fold_emits [of "\<lambda>e. \<not> is_call f e" "check_one_status env j force"]]
      check_one_emits first
    by (simp split: option.split)
qed

lemma check_job_status_emits:
  assumes "f \<noteq> ''status''"
  shows "emits_only (\<lambda>e. \<not> is_call f e) tr (check_job_status env j force tr)"
proof -
  obtain v tr2 where p: "status_pass env j force tr = (v, tr2)" by (cases "status_pass env j force tr")
  have "emits_only (\<lambda>e. \<not> is_call f e) tr2 (tr2 @ statuses_event (j_id j) # (if b then close_events j ss else []))"
    for b ss
    by (simp add: emits_only_def close_events_def)
  then show ?thesis
    using emits_trans [of "\<lambda>e. \<not> is_call f e" tr tr2] status_pass_emits [OF assms, of tr env j force] p
    by (simp add: check_job_status_trace Let_def)
qed

subsection \<open>Lemmas: submission\<close>

lemma finish_submit_trace:
  "finish_submit env job_id sid j tr = tr @
     (if sid = 0
      then [delete_event (j_id j), update_event job_id SYSTEM_SOURCE ERROR submit_failed_text,
            update_event job_id JOB_COMPLETION_SOURCE ERROR submit_failed_text]
      else [save_event (j\<lparr>j_scheduler_id := Some (cap_scheduler_id sid), j_submitting := False, j_running := True\<rparr>),
            update_event job_id SYSTEM_SOURCE SUBMITTED ''Job submitted successfully''])"
  by (simp add: finish_submit_def Let_def)

definition submit_details :: "outside \<Rightarrow> i64 \<Rightarrow> json" where
  "submit_details env job_id = json_set (get_default_job_details env) ''job_id'' (json_of_i64 job_id)"

definition claimed :: "i64 \<Rightarrow> string \<Rightarrow> job \<Rightarrow> job" where
  "claimed job_id hash j =
     j\<lparr>j_job_id := Some job_id, j_bundle_hash := hash, j_submitting := True, j_working_directory := []\<rparr>"

text \<open>The three ways a submission can go: it stops at its first or second save, or it runs the bundle.\<close>

lemma submit_now_cases:
  obtains (unsaved) "submit_now env job_id hash params j tr = tr @ [save_event (claimed job_id hash j)]"
  | (unplaced) i wd where "submit_now env job_id hash params j tr =
      tr @ [save_event (claimed job_id hash j),
            RunBundle ''working_directory'' hash (submit_details env job_id) [],
            save_event ((claimed job_id hash j)\<lparr>j_id := i, j_working_directory := wd\<rparr>)]"
  | (ran) i wd i' pre where "pre = tr @ [save_event (claimed job_id hash j),
            RunBundle ''working_directory'' hash (submit_details env job_id) [],
            save_event ((claimed job_id hash j)\<lparr>j_id := i, j_working_directory := wd\<rparr>),
            RunBundle ''submit'' hash (submit_details env job_id) params]"
      "wd = o_string env (tr @ [save_event (claimed job_id hash j),
            RunBundle ''working_directory'' hash (submit_details env job_id) []])"
      "submit_now env job_id hash params j tr =
         finish_submit env job_id (o_uint64 env pre)
           ((claimed job_id hash j)\<lparr>j_working_directory := wd, j_id := i'\<rparr>) pre"
proof -
  note unfold = submit_now_def claimed_def [symmetric] submit_details_def [symmetric] Let_def
    resolve_working_directory_def ask_string_def ask_uint64_def
  show thesis
  proof (cases rule: save_job_or_abort_cases [of env "claimed job_id hash j" tr])
    case fail
    then show thesis by (intro unsaved) (simp add: unfold)
  next
    case (saved i)
    define tr2 where "tr2 = tr @ [save_event (claimed job_id hash j),
        RunBundle ''working_directory'' hash (submit_details env job_id) []]"
    define j2 where "j2 = (claimed job_id hash j)\<lparr>j_id := i, j_working_directory := o_string env tr2\<rparr>"
    show thesis
    proof (cases rule: save_job_or_abort_cases [of env j2 tr2])
      case fail
      then show thesis using saved by (intro unplaced) (simp add: unfold j2_def tr2_def)
    next
      case again: (saved i')
      then show thesis using saved
        by (intro ran [of "tr2 @ [save_event j2, RunBundle ''submit'' hash (submit_details env job_id) params]"
                "o_string env tr2" i i']) (simp_all add: unfold j2_def tr2_def)
    qed
  qed
qed

lemma submit_now_extends: "\<exists>es. submit_now env job_id hash params j tr = tr @ save_event (claimed job_id hash j) # es"
  by (cases rule: submit_now_cases [where tr = tr and env = env and job_id = job_id and hash = hash
        and params = params and j = j]) (auto simp: finish_submit_trace)

text \<open>
  What may precede a bundle submission: the job has been saved as claimed by it, by a save that the
  server acknowledged before the call.
\<close>

definition submit_is_claimed :: "i64 \<Rightarrow> string \<Rightarrow> string \<Rightarrow> event list \<Rightarrow> bool" where
  "submit_is_claimed job_id hash params es \<longleftrightarrow>
     length (filter (is_call ''submit'') es) \<le> 1
     \<and> (\<forall>i<length es. is_call ''submit'' (es ! i) \<longrightarrow>
          (\<exists>d. es ! i = RunBundle ''submit'' hash d params \<and> json_index d ''job_id'' = json_of_i64 job_id)
          \<and> (\<exists>k<i. \<exists>j. es ! k = save_event j \<and> j_submitting j \<and> j_job_id j = Some job_id
               \<and> j_bundle_hash j = hash))"

lemma submit_is_claimed_none: "list_all (\<lambda>e. \<not> is_call ''submit'' e) es \<Longrightarrow> submit_is_claimed job_id hash params es"
proof -
  assume *: "list_all (\<lambda>e. \<not> is_call ''submit'' e) es"
  then have "filter (is_call ''submit'') es = []" by (simp add: list_all_iff filter_empty_conv)
  with * show ?thesis by (simp add: submit_is_claimed_def list_all_length)
qed

lemma submit_is_claimed_at:
  assumes "list_all (\<lambda>e. \<not> is_call ''submit'' e) pre" "list_all (\<lambda>e. \<not> is_call ''submit'' e) post"
    and "save_event j \<in> set pre" "j_submitting j" "j_job_id j = Some job_id" "j_bundle_hash j = hash"
    and "json_index d ''job_id'' = json_of_i64 job_id"
  shows "submit_is_claimed job_id hash params (pre @ RunBundle ''submit'' hash d params # post)"
proof -
  let ?es = "pre @ RunBundle ''submit'' hash d params # post"
  have one: "filter (is_call ''submit'') ?es = [RunBundle ''submit'' hash d params]"
    using assms(1,2) by (simp add: list_all_iff filter_empty_conv)
  have at: "i = length pre" if "i < length ?es" "is_call ''submit'' (?es ! i)" for i
  proof (rule ccontr)
    assume "i \<noteq> length pre"
    then consider "i < length pre" | "length pre < i" by linarith
    then have "?es ! i \<in> set pre \<or> ?es ! i \<in> set post"
    proof cases
      case 1
      then show ?thesis by (simp add: nth_append)
    next
      case 2
      then obtain n where "i = Suc (length pre + n)" using less_imp_Suc_add by blast
      with that(1) show ?thesis by (simp add: nth_append)
    qed
    with that(2) assms(1,2) show False by (auto simp: list_all_iff)
  qed
  obtain k where k: "k < length pre" "pre ! k = save_event j" using assms(3) by (auto simp: in_set_conv_nth)
  show ?thesis
    unfolding submit_is_claimed_def
  proof (intro conjI allI impI)
    fix i assume "i < length ?es" "is_call ''submit'' (?es ! i)"
    then have i: "i = length pre" by (rule at)
    then show "\<exists>d. ?es ! i = RunBundle ''submit'' hash d params \<and> json_index d ''job_id'' = json_of_i64 job_id"
      using assms(7) by simp
    have "?es ! k = save_event j" using k by (simp add: nth_append)
    then show "\<exists>k<i. \<exists>j. ?es ! k = save_event j \<and> j_submitting j \<and> j_job_id j = Some job_id \<and> j_bundle_hash j = hash"
      using i k(1) assms(4-6) by blast
  qed (simp only: one, simp)
qed

subsection \<open>Properties\<close>

text \<open>
  C12. A job is claimed before it is submitted, and submitted at most once per request. Whatever the
  database, the bundle and the connection do, handling a submit message calls the bundle's submit
  function at most once, with the bundle, parameters and job identifier of the message, and only after
  a request that saves the job as being submitted with that identifier and bundle.
\<close>

theorem submit_claims_before_running:
  assumes "pop_uint msg = (wire_id, m1)" "pop_string m1 = (hash, m2)" "pop_string m2 = (params, m3)"
  shows "\<exists>es. handle_job_submit env msg tr = tr @ es \<and> submit_is_claimed (ucast wire_id) hash params es"
proof -
  let ?id = "ucast wire_id :: i64" and ?H = "handle_job_submit env msg tr"
  obtain found tr1 where g: "get_or_create_job_or_abort env ?id tr = (found, tr1)"
    by (cases "get_or_create_job_or_abort env ?id tr")
  have tr1: "tr1 = tr @ [lookup_event ?id]" using or_abort_traces(2) [of env ?id tr] g by simp
  have quiet: ?thesis if "emits_only (\<lambda>e. \<not> is_call ''submit'' e) tr ?H"
    using that submit_is_claimed_none by (auto simp: emits_only_def)
  have H: "?H = (if disconnected env tr then tr else case found of None \<Rightarrow> tr1
      | Some j \<Rightarrow> (case decide_submit ?id j of StillSubmitting j' \<Rightarrow> snd (save_job env j' tr1)
                     | AlreadySubmitted j' \<Rightarrow> check_job_status env j' True tr1
                     | SubmitNow j' \<Rightarrow> submit_now env ?id hash params j' tr1))"
    using g assms by (simp add: handle_job_submit_def submit_task_def Let_def split: option.split)
  consider "?H = tr" | "?H = tr1" | j where "?H = snd (save_job env j tr1)"
    | j where "?H = check_job_status env j True tr1" | j where "?H = submit_now env ?id hash params j tr1"
    by (cases "disconnected env tr"; cases found; cases "decide_submit ?id (the found)") (auto simp: H)
  then show ?thesis
  proof cases
    case (4 j)
    have "emits_only (\<lambda>e. \<not> is_call ''submit'' e) tr tr1" by (simp add: tr1)
    then show ?thesis using 4 check_job_status_emits [of "''submit''" tr1 env j True]
      by (intro quiet) (simp add: emits_trans)
  next
    case (5 j)
    show ?thesis
    proof (cases rule: submit_now_cases [of env ?id hash params j tr1])
      case unsaved
      with 5 show ?thesis by (intro quiet) (simp add: tr1 emits_only_def)
    next
      case unplaced
      with 5 show ?thesis by (intro quiet) (simp add: tr1 emits_only_def)
    next
      case (ran i wd i' pre)
      define post where "post = drop (length pre) ?H"
      have H: "?H = pre @ post" "list_all (\<lambda>e. \<not> is_call ''submit'' e) post"
        using ran(3) 5 by (simp_all add: post_def finish_submit_trace)
      have d: "json_index (submit_details env ?id) ''job_id'' = json_of_i64 ?id"
        by (simp add: submit_details_def get_default_job_details_def json_index_def)
      show ?thesis
        using submit_is_claimed_at [of "[lookup_event ?id, save_event (claimed ?id hash j),
            RunBundle ''working_directory'' hash (submit_details env ?id) [],
            save_event ((claimed ?id hash j)\<lparr>j_id := i, j_working_directory := wd\<rparr>)]" post
            "claimed ?id hash j" ?id hash "submit_details env ?id" params] H d
        by (simp add: ran(1) tr1 claimed_def)
    qed
  qed (rule quiet, simp add: tr1 emits_only_def)+
qed

text \<open>A server that knows no job and acknowledges every save with the identifier 9.\<close>

definition fresh_server :: "trace \<Rightarrow> message result" where
  "fresh_server tr =
     (case last tr of
        DbRequest m \<Rightarrow> if msg_id m = DB_JOB_SAVE then Inr (db_reply (le_encode 8 (unat (9::u64))))
                       else Inr (db_reply (le_encode 4 (unat (0::u32))))
      | _ \<Rightarrow> Inl [])"

definition fresh_outside :: "u64 \<Rightarrow> outside" where
  "fresh_outside sid = quiet_outside\<lparr>o_db := fresh_server, o_uint64 := (\<lambda>_. sid), o_string := (\<lambda>_. ''/w'')\<rparr>"

definition submit_message :: "u32 \<Rightarrow> string \<Rightarrow> string \<Rightarrow> message" where
  "submit_message i hash params =
     from_data (get_data (push_values (message_new SUBMIT_JOB Highest SYSTEM_SOURCE)
       [VUint i, VString hash, VString params]))"

lemma wf_system: "wf_str ''system''"
  by (rule wf_str_ascii) auto

lemma submit_message_fields:
  assumes "wf_string hash" "wf_string params"
  obtains m1 m2 m3 where "pop_uint (submit_message i hash params) = (i, m1)" "pop_string m1 = (hash, m2)"
    "pop_string m2 = (params, m3)"
proof -
  let ?vs = "[VUint i, VString hash, VString params]"
  have "\<forall>v\<in>set ?vs. wf_value v" using assms by (simp add: wf_string_def)
  then have vs: "fst (pop_values (map tag_of ?vs) (submit_message i hash params)) = ?vs"
    unfolding submit_message_def by (intro received_fields wf_system) simp_all
  obtain a m1 b m2 c m3 where p: "pop_uint (submit_message i hash params) = (a, m1)" "pop_string m1 = (b, m2)"
    "pop_string m2 = (c, m3)" by (metis prod.collapse)
  with vs show thesis using that by simp
qed

theorem submit_claims_before_running_witness:
  "\<exists>es. handle_job_submit (fresh_outside 5) (submit_message 42 ''abc'' ''{}'') [] = es
     \<and> submit_is_claimed 42 ''abc'' ''{}'' es"
proof -
  have "wf_string ''abc''" "wf_string ''{}''" by (auto simp: wf_string_def intro!: wf_str_ascii)
  then obtain m1 m2 m3 where "pop_uint (submit_message 42 ''abc'' ''{}'') = (42, m1)"
    "pop_string m1 = (''abc'', m2)" "pop_string m2 = (''{}'', m3)"
    using submit_message_fields by metis
  from submit_claims_before_running [OF this, of "fresh_outside 5" "[]"] show ?thesis by simp
qed

text \<open>
  C13. A submission that goes through does all its steps in order and reports the truth. For a job that
  is to be submitted now and whose saves are acknowledged, the handler saves the claim, asks the bundle
  for the working directory, saves it, runs the bundle's submit function, and then: if the bundle
  returned 0, deletes the job and queues an error for the system and for the completion of the job;
  otherwise saves the job as running with its scheduler identifier, no longer submitting, and queues
  the submitted status.
\<close>

theorem submit_reports_outcome:
  assumes msg: "pop_uint msg = (wire_id, m1)" "pop_string m1 = (hash, m2)" "pop_string m2 = (params, m3)"
    and "\<not> disconnected env tr"
    and "get_or_create_by_job_id env (ucast wire_id) tr = (Inr j, tr1)"
    and "decide_submit (ucast wire_id) j = SubmitNow j0"
    and "fst (save_job env (claimed (ucast wire_id) hash j0) tr1) = Inr j1"
    and "tr2 = tr1 @ [save_event (claimed (ucast wire_id) hash j0),
           RunBundle ''working_directory'' hash (submit_details env (ucast wire_id)) []]"
    and "j2 = j1\<lparr>j_working_directory := o_string env tr2\<rparr>"
    and "fst (save_job env j2 tr2) = Inr j3"
    and "tr3 = tr2 @ [save_event j2, RunBundle ''submit'' hash (submit_details env (ucast wire_id)) params]"
  shows "handle_job_submit env msg tr = tr3 @
    (if o_uint64 env tr3 = 0
     then [delete_event (j_id j3), update_event (ucast wire_id) SYSTEM_SOURCE ERROR submit_failed_text,
           update_event (ucast wire_id) JOB_COMPLETION_SOURCE ERROR submit_failed_text]
     else [save_event (j3\<lparr>j_scheduler_id := Some (u64_to_i64_max (o_uint64 env tr3)), j_submitting := False,
                          j_running := True\<rparr>),
           update_event (ucast wire_id) SYSTEM_SOURCE SUBMITTED ''Job submitted successfully''])
   \<and> j_submitting j3 \<and> j_job_id j3 = Some (ucast wire_id) \<and> j_bundle_hash j3 = hash
   \<and> j_working_directory j3 = o_string env tr2"
proof -
  let ?c = "claimed (ucast wire_id) hash j0"
  have s1: "save_job env ?c tr1 = (Inr j1, tr1 @ [save_event ?c])"
    using pair_trace [OF db_traces(1) [of env ?c tr1]] assms(7) by simp
  have s2: "save_job env j2 tr2 = (Inr j3, tr2 @ [save_event j2])"
    using pair_trace [OF db_traces(1) [of env j2 tr2]] assms(10) by simp
  obtain i i' where ids: "j1 = ?c\<lparr>j_id := i\<rparr>" "j3 = j2\<lparr>j_id := i'\<rparr>"
    using s1 s2 by (auto simp: save_job_def split: sum.splits prod.splits)
  have "submit_now env (ucast wire_id) hash params j0 tr1 =
      finish_submit env (ucast wire_id) (o_uint64 env tr3) j3 tr3"
    using s1 s2 assms(8,9,11)
    by (simp add: submit_now_def claimed_def [symmetric] submit_details_def [symmetric] Let_def
        resolve_working_directory_def ask_string_def ask_uint64_def save_job_or_abort_def)
  then have "handle_job_submit env msg tr = finish_submit env (ucast wire_id) (o_uint64 env tr3) j3 tr3"
    using msg assms(4-6) by (simp add: handle_job_submit_def submit_task_def get_or_create_job_or_abort_def Let_def)
  then show ?thesis using ids assms(9) by (simp add: finish_submit_trace claimed_def cap_scheduler_id_def)
qed

lemma fresh_lookup: "get_or_create_by_job_id (fresh_outside sid) i tr = (Inr default_job, tr @ [lookup_event i])"
proof -
  have "unread (parse_response (db_reply (le_encode 4 (unat (0::u32))))) = le_encode 4 (unat (of_nat 0 :: u32)) @ []"
    by (simp add: unread_db_reply del: le_encode.simps)
  from pop_count_enc [OF this] show ?thesis
    by (simp del: le_encode.simps add: get_or_create_by_job_id_def get_job_by_job_id_def get_job_by_message_def
        send_db_request_timed_def ask_defs fresh_outside_def quiet_outside_def fresh_server_def
        ulong.push_enc message_new_data)
qed

lemma fresh_save: "fst (save_job (fresh_outside sid) j tr) = Inr (j\<lparr>j_id := 9\<rparr>)"
proof -
  have "unread (parse_response (db_reply (le_encode 8 (unat (9::u64))))) = le_encode 8 (unat (9::u64)) @ []"
    by (simp add: unread_db_reply del: le_encode.simps)
  from ulong.pop_enc [OF TrueI this] show ?thesis
    by (simp del: le_encode.simps add: save_job_def send_save_request_def send_db_request_timed_def ask_defs fresh_outside_def
        quiet_outside_def fresh_server_def save_job_message_def push_job_values message_new_data pop_id_def
        u64_to_i64_max_def)
qed

theorem submit_reports_outcome_witness:
  "\<exists>pre. handle_job_submit (fresh_outside 5) (submit_message 42 ''abc'' ''{}'') [] = pre @
     [save_event (default_job\<lparr>j_id := 9, j_job_id := Some 42, j_scheduler_id := Some 5, j_bundle_hash := ''abc'',
                              j_working_directory := ''/w'', j_running := True\<rparr>),
      update_event 42 SYSTEM_SOURCE SUBMITTED ''Job submitted successfully'']"
proof -
  have "wf_string ''abc''" "wf_string ''{}''" by (auto simp: wf_string_def intro!: wf_str_ascii)
  then obtain m1 m2 m3 where m: "pop_uint (submit_message 42 ''abc'' ''{}'') = (42, m1)"
    "pop_string m1 = (''abc'', m2)" "pop_string m2 = (''{}'', m3)"
    using submit_message_fields by metis
  have d: "decide_submit (ucast (42::u32)) default_job = SubmitNow default_job"
    "\<not> disconnected (fresh_outside 5) []"
    by (simp_all add: decide_submit_def default_job_def disconnected_def fresh_outside_def quiet_outside_def)
  from submit_reports_outcome [OF m d(2) fresh_lookup d(1) fresh_save refl refl fresh_save refl]
  show ?thesis
    by (simp add: fresh_outside_def claimed_def default_job_def u64_to_i64_max_def)
qed

text \<open>
  While a job is being submitted, another submit message only
  increments its counter; a job that has been submitted under this identifier is only checked, and the
  bundle's submit function is not called; a submission that has been pending for sixty messages is
  taken to have failed and is submitted again, with its counter reset.
\<close>

theorem repeated_submit_only_counts:
  assumes msg: "pop_uint msg = (wire_id, m1)" "pop_string m1 = (hash, m2)" "pop_string m2 = (params, m3)"
    and "\<not> disconnected env tr" "wire_id \<noteq> 0"
    and found: "get_or_create_by_job_id env (ucast wire_id) tr = (Inr j, tr1)" "0 \<le> sint (j_submitting_count j)"
  shows "(j_submitting j \<and> sint (j_submitting_count j) + 1 < 60 \<longrightarrow>
            handle_job_submit env msg tr =
              tr1 @ [save_event (j\<lparr>j_submitting_count := word_of_int (sint (j_submitting_count j) + 1)\<rparr>)])
    \<and> (\<not> j_submitting j \<and> j_job_id j = Some (ucast wire_id) \<longrightarrow>
         (\<exists>es. handle_job_submit env msg tr = tr1 @ es \<and> check_job_status env j True tr1 = tr1 @ es
               \<and> list_all (\<lambda>e. \<not> is_call ''submit'' e) es))
    \<and> (j_submitting j \<and> 60 \<le> sint (j_submitting_count j) + 1 \<longrightarrow>
         handle_job_submit env msg tr =
           submit_now env (ucast wire_id) hash params (j\<lparr>j_submitting_count := 0, j_job_id := Some 0\<rparr>) tr1)"
proof -
  let ?id = "ucast wire_id :: i64" and ?n = "sint (j_submitting_count j)"
  have id0: "?id \<noteq> 0" using assms(5) by (simp add: ucast_32_64_eq_0)
  have H: "handle_job_submit env msg tr =
      (case decide_submit ?id j of StillSubmitting j' \<Rightarrow> snd (save_job env j' tr1)
       | AlreadySubmitted j' \<Rightarrow> check_job_status env j' True tr1
       | SubmitNow j' \<Rightarrow> submit_now env ?id hash params j' tr1)"
    using msg assms(4) found by (simp add: handle_job_submit_def submit_task_def get_or_create_job_or_abort_def Let_def)
  have inc: "saturating_increment_submit_count (j_submitting_count j) = word_of_int (?n + 1)" if "?n + 1 < 60"
    using that found(2) by (simp add: saturating_increment_submit_count_def i32_saturating_add_def)
  have small: "sint (word_of_int (?n + 1) :: i32) = ?n + 1" if "?n + 1 < 60"
    using that found(2) by (intro sint_small_32) simp_all
  have big: "60 \<le> sint (saturating_increment_submit_count (j_submitting_count j))" if "60 \<le> ?n + 1"
  proof (cases "?n + 1 < 2 ^ 31")
    case True
    then have "sint (word_of_int (?n + 1) :: i32) = ?n + 1" using found(2) by (intro sint_small_32) simp_all
    then show ?thesis using True that found(2)
      by (simp add: saturating_increment_submit_count_def i32_saturating_add_def)
  next
    case False
    then show ?thesis by (simp add: saturating_increment_submit_count_def i32_saturating_add_def)
  qed
  show ?thesis
    using inc small big id0 emits_new [OF check_job_status_emits [of "''submit''" tr1 env j True]]
    by (auto simp: H decide_submit_def Let_def)
qed

theorem repeated_submit_only_counts_witness:
  "\<exists>es. handle_job_submit (quiet_outside\<lparr>o_db := (\<lambda>_. Inr (db_reply (le_encode 4 (unat (1::u32))
        @ clone_payload_bytes (save_job_message (sample_job\<lparr>j_scheduler_id := Some 5\<rparr>)))))\<rparr>)
      (submit_message 42 ''abc'' ''{}'') [] = es \<and> list_all (\<lambda>e. \<not> is_call ''submit'' e) es"
proof -
  let ?j = "sample_job\<lparr>j_scheduler_id := Some 5\<rparr>"
  let ?env = "quiet_outside\<lparr>o_db := (\<lambda>_. Inr (db_reply (le_encode 4 (unat (1::u32))
        @ clone_payload_bytes (save_job_message ?j))))\<rparr>"
  have "wf_string ''abc''" "wf_string ''{}''" by (auto simp: wf_string_def intro!: wf_str_ascii)
  then obtain m1 m2 m3 where m: "pop_uint (submit_message 42 ''abc'' ''{}'') = (42, m1)"
    "pop_string m1 = (''abc'', m2)" "pop_string m2 = (''{}'', m3)"
    using submit_message_fields by metis
  have "wf_job ?j" "normal_job ?j = ?j"
    using wf_sample by (simp_all add: wf_job_def wf_opt_id_def normal_job_def normal_id_def sample_job_def)
  then have "get_or_create_by_job_id ?env 42 [] = (Inr ?j, [lookup_event 42])"
    by (simp add: get_or_create_by_job_id_def get_job_by_job_id_def stored_job_found)
  moreover have "\<not> disconnected ?env []" by (simp add: disconnected_def quiet_outside_def)
  moreover have "\<not> j_submitting ?j" "j_job_id ?j = Some (ucast (42::u32))" "0 \<le> sint (j_submitting_count ?j)"
    by (simp_all add: sample_job_def default_job_def)
  ultimately obtain es where "handle_job_submit ?env (submit_message 42 ''abc'' ''{}'') [] = [lookup_event 42] @ es"
    "list_all (\<lambda>e. \<not> is_call ''submit'' e) es"
    using repeated_submit_only_counts [OF m, of ?env "[]" ?j "[lookup_event 42]"] by auto
  then show ?thesis by (intro exI [of _ "[lookup_event 42] @ es"]) simp
qed

subsection \<open>Lemmas: the verdict on a job\<close>

definition is_error_state :: "jobstatus \<Rightarrow> bool" where
  "is_error_state s \<longleftrightarrow> sint (s_state s) < 0 \<or> (400 \<le> sint (s_state s) \<and> sint (s_state s) \<noteq> 500)"

lemma unat_state: "0 \<le> sint (v :: i32) \<Longrightarrow> unat v = nat (sint v)"
  using sint_nonneg_iff_32 [of v] sint_cases_32 [of v] by (metis nat_int)

lemma unat_500: "unat (v :: u32) = 500 \<longleftrightarrow> v = 500"
proof
  assume "unat v = 500"
  then show "v = 500" by (metis word_of_nat_eq_iff of_nat_numeral of_nat_unat ucast_id)
qed simp

lemma state_completed: "state_to_u32 v = COMPLETED \<longleftrightarrow> sint v = 500"
proof (cases "sint v < 0")
  case True
  then show ?thesis by (simp add: state_to_u32_def i32_to_u32_max_def)
next
  case False
  then have "unat v = nat (sint v)" by (simp add: unat_state)
  with False unat_500 [of v] show ?thesis by (simp add: state_to_u32_def i32_to_u32_max_def) linarith
qed

lemma state_error: "ERROR \<le> state_to_u32 v \<longleftrightarrow> sint v < 0 \<or> 400 \<le> sint v"
proof (cases "sint v < 0")
  case True
  then show ?thesis by (simp add: state_to_u32_def i32_to_u32_max_def)
next
  case False
  then have "unat v = nat (sint v)" by (simp add: unat_state)
  with False show ?thesis by (simp add: state_to_u32_def i32_to_u32_max_def word_le_nat_alt) linarith
qed

lemma error_filter:
  "ERROR \<le> state_to_u32 (s_state s) \<and> state_to_u32 (s_state s) \<noteq> COMPLETED \<longleftrightarrow> is_error_state s"
  by (auto simp: state_error state_completed is_error_state_def)

lemma job_error_of_last:
  "job_error_of ss =
     (case rev (filter is_error_state ss) of [] \<Rightarrow> 0 | s # _ \<Rightarrow> state_to_u32 (s_state s))"
  unfolding job_error_of_def error_filter
  by (cases "filter is_error_state ss" rule: rev_cases) simp_all

lemma last_error_is_error: "rev (filter is_error_state ss) = s # rest \<Longrightarrow> s \<in> set ss \<and> is_error_state s"
  by (metis filter_set list.set_intros(1) mem_Collect_eq set_filter set_rev)

lemma error_state_nonzero: "is_error_state s \<Longrightarrow> state_to_u32 (s_state s) \<noteq> 0"
  using state_error [of "s_state s"] by (auto simp: is_error_state_def)

lemma job_error_of_iff: "job_error_of ss \<noteq> 0 \<longleftrightarrow> (\<exists>s\<in>set ss. is_error_state s)"
proof (cases "rev (filter is_error_state ss)")
  case Nil
  then show ?thesis by (auto simp: job_error_of_last filter_empty_conv)
next
  case (Cons s rest)
  with last_error_is_error [OF Cons] show ?thesis using error_state_nonzero [of s] by (auto simp: job_error_of_last)
qed

lemma job_complete_of_iff: "job_complete_of ss \<longleftrightarrow> (\<forall>s\<in>set ss. sint (s_state s) = 500)"
  by (simp add: job_complete_of_def state_completed list_all_iff)

lemma unwrap_bool: "unwrap_or (as_bool v) False \<longleftrightarrow> v = JBool True"
  by (cases v) (auto simp: unwrap_or_def)

subsection \<open>Properties: status, cancellation, deletion\<close>


definition report_outside :: "json \<Rightarrow> outside" where
  "report_outside v = quiet_outside\<lparr>o_json := (\<lambda>_. v)\<rparr>"


text \<open>
  A failed read of the statuses counts as a job without statuses, so the report of the bundle alone
  then closes the job as completed, whatever error statuses the database holds.
\<close>

lemma unreadable_statuses_close_job:
  assumes "\<not> disconnected env tr" "status_pass env j force tr = (report, tr2)"
    and "o_db env (tr2 @ [statuses_event (j_id j)]) = Inl e"
    and "json_index report ''complete'' = JBool True"
  shows "check_job_status env j force tr = tr2 @
    [statuses_event (j_id j), save_event (j\<lparr>j_running := False\<rparr>), ArchiveDir (j_working_directory j),
     update_event (unwrap_or (j_job_id j) 0) JOB_COMPLETION_SOURCE COMPLETED ''Job has completed'']"
proof -
  have "fst (statuses_or_empty (get_job_status_by_job_id env (j_id j) tr2)) = []"
    using assms(3) by (simp add: get_job_status_by_job_id_def get_job_statuses_def send_db_request_timed_def
        ask_defs statuses_or_empty_def)
  then show ?thesis using assms(1,2,4)
    by (simp add: check_job_status_trace must_close_def close_events_def job_error_of_def job_complete_of_def
        unwrap_bool)
qed

text \<open>
  A status is recorded and sent exactly when it is news. For each status the bundle reports with a
  code, the handler looks up what is stored; it saves the status and queues an update exactly if the
  check is forced, or not exactly one row is stored, or the stored state differs. A single stored row
  is updated in place; duplicates are deleted first and replaced by a fresh row. A status without a
  code is skipped altogether.
\<close>

theorem status_sent_iff_news:
  assumes "fst (statuses_or_empty (get_job_status_by_job_id_and_what env (j_id j) (stat_what stat) tr)) = found"
  shows "check_one_status env j force stat tr =
    (if json_index stat ''status'' = JNull then tr
     else tr @ status_event (j_id j) (stat_what stat) #
       (if length found > 1 then [DbRequest (delete_status_message (map s_id found))] else [])
       @ (if force \<or> length found \<noteq> 1 \<or> stat_code stat \<noteq> state_to_u32 (s_state (hd found))
          then [DbRequest (save_status_message
                  \<lparr>s_id = (if length found = 1 then s_id (hd found) else 0), s_what = stat_what stat,
                   s_state = status_to_i32 (stat_code stat),
                   s_job_id = (if length found = 1 then s_job_id (hd found) else j_id j)\<rparr>),
                update_event (unwrap_or (j_job_id j) 0) (stat_what stat) (stat_code stat) (stat_info stat)]
          else []))"
  using assms by (simp add: check_one_status_trace new_status_row_def Let_def)

theorem status_sent_iff_news_witness:
  "check_one_status quiet_outside sample_job False
      (JObject [(''what'', JString ''s''), (''status'', JPos 50), (''info'', JString ''i'')]) [] =
     [status_event 7 ''s'',
      DbRequest (save_status_message \<lparr>s_id = 0, s_what = ''s'', s_state = 50, s_job_id = 7\<rparr>),
      update_event 42 ''s'' 50 ''i'']"
proof -
  let ?stat = "JObject [(''what'', JString ''s''), (''status'', JPos 50), (''info'', JString ''i'')]"
  have st: "stat_what ?stat = ''s''" "stat_info ?stat = ''i''" "stat_code ?stat = 50"
    "json_index ?stat ''status'' \<noteq> JNull"
    by (simp_all add: json_index_def unwrap_or_def capped_status_from_json_def u64_to_u32_max_def)
  have "fst (statuses_or_empty (get_job_status_by_job_id_and_what quiet_outside (j_id sample_job) ''s'' [])) = []"
    by (simp add: get_job_status_by_job_id_and_what_def get_job_statuses_def send_db_request_timed_def ask_defs
        quiet_outside_def statuses_or_empty_def)
  then show ?thesis
    using status_sent_iff_news [of quiet_outside sample_job ?stat "[]" "[]" False] st
    by (simp add: sample_job_def default_job_def status_to_i32_def u32_to_i32_max_def unwrap_or_def)
qed

text \<open>
  Deletion is announced only when it has happened. For a known job that is neither running, being
  submitted, deleted nor being deleted, and whose first save is acknowledged, the handler records that
  it is being deleted, runs the bundle's delete function, and either records and announces the deletion
  or, when the bundle refuses, withdraws the mark and announces nothing. A job that is unknown or
  already deleted is announced as deleted at once; in every other state nothing is changed or sent.
\<close>

theorem delete_announced_iff_done:
  assumes "get_or_create_by_job_id env (ucast (fst (pop_uint msg))) tr = (Inr j, tr1)"
  shows "let job_id = ucast (fst (pop_uint msg));
             gone = update_event job_id JOB_COMPLETION_SOURCE DELETED ''Job has been deleted''
    in (if j_id j = 0 \<or> j_deleted j then handle_job_delete env msg tr = tr1 @ [gone]
        else if j_running j \<or> j_submitting j \<or> j_deleting j then handle_job_delete env msg tr = tr1
        else case fst (save_job env (j\<lparr>j_deleting := True\<rparr>) tr1) of
          Inl e \<Rightarrow> handle_job_delete env msg tr = tr1 @ [save_event (j\<lparr>j_deleting := True\<rparr>)]
        | Inr j2 \<Rightarrow>
            let tr3 = tr1 @ [save_event (j\<lparr>j_deleting := True\<rparr>),
                             RunBundle ''delete'' (j_bundle_hash j) (get_job_details env j) []]
            in handle_job_delete env msg tr = tr3 @
                 (if o_bool env tr3
                  then [save_event (j\<lparr>j_id := j_id j2, j_deleting := False, j_deleted := True\<rparr>), gone]
                  else [save_event (j\<lparr>j_id := j_id j2, j_deleting := False\<rparr>)]))"
proof -
  let ?d = "j\<lparr>j_deleting := True\<rparr>"
  have H: "get_or_create_job_or_abort env (ucast (fst (pop_uint msg))) tr = (Some j, tr1)"
    using assms by (simp add: get_or_create_job_or_abort_def)
  show ?thesis
  proof (cases rule: save_job_or_abort_cases [of env ?d tr1])
    case fail
    then show ?thesis using H by (auto simp: handle_job_delete_def delete_task_def Let_def)
  next
    case (saved i)
    have details: "get_job_details env (?d\<lparr>j_id := i\<rparr>) = get_job_details env j"
      by (simp add: get_job_details_def)
    show ?thesis using H saved details
      by (simp add: handle_job_delete_def delete_task_def Let_def run_bundle_bool_for_job_def ask_bool_def)
  qed
qed

theorem delete_announced_iff_done_witness:
  "handle_job_delete (fresh_outside 5) (submit_message 42 [] []) [] =
     [lookup_event 42, update_event 42 JOB_COMPLETION_SOURCE DELETED ''Job has been deleted'']"
proof -
  obtain m1 m2 m3 where "pop_uint (submit_message 42 [] []) = (42, m1)"
    using submit_message_fields [of "[]" "[]" 42] by (auto simp: wf_string_def)
  then show ?thesis
    using delete_announced_iff_done [of "fresh_outside 5" "submit_message 42 [] []" "[]", OF fresh_lookup]
    by (simp add: default_job_def Let_def)
qed

lemma cancel_running_emits:
  fixes env job_id j tr
  defines "call \<equiv> tr @ [RunBundle ''cancel'' (j_bundle_hash j) (get_job_details env j) []]"
  shows "emits_only (\<lambda>e. \<not> is_call ''cancel'' e) call (cancel_running env job_id j tr)"
    and "\<not> o_bool env call \<Longrightarrow> cancel_running env job_id j tr = call"
proof -
  obtain r tr2 where r: "reload_job_or_abort env j call = (r, tr2)" by (cases "reload_job_or_abort env j call")
  have tr2: "tr2 = call @ [reload_event (j_id j)]" using or_abort_traces(3) [of env j call] r by simp
  have run: "run_bundle_bool_for_job env ''cancel'' (j_bundle_hash j) (get_job_details env j) tr = (o_bool env call, call)"
    by (simp add: run_bundle_bool_for_job_def ask_bool_def call_def Let_def)
  show no: "\<not> o_bool env call \<Longrightarrow> cancel_running env job_id j tr = call"
    by (simp add: cancel_running_def run)
  show "emits_only (\<lambda>e. \<not> is_call ''cancel'' e) call (cancel_running env job_id j tr)"
  proof (cases "o_bool env call \<and> r \<noteq> None")
    case False
    have "cancel_running env job_id j tr = (if o_bool env call then tr2 else call)"
      using False r by (auto simp: cancel_running_def run)
    then show ?thesis by (simp add: tr2)
  next
    case True
    then obtain j2 where j2: "r = Some j2" by auto
    let ?tr3 = "check_job_status env j2 False tr2"
    let ?ss = "statuses_or_empty (get_job_status_by_job_id env (j_id j2) ?tr3)"
    obtain ss tr4 where ss: "?ss = (ss, tr4)" by (cases ?ss)
    have tr4: "tr4 = ?tr3 @ [statuses_event (j_id j2)]"
      using or_abort_traces(4) [of "get_job_status_by_job_id env (j_id j2) ?tr3"] ss by simp
    have "emits_only (\<lambda>e. \<not> is_call ''cancel'' e) call tr2" by (simp add: tr2)
    then have pre: "emits_only (\<lambda>e. \<not> is_call ''cancel'' e) call ?tr3"
      using check_job_status_emits [of "''cancel''" tr2 env j2 False] by (auto intro: emits_trans)
    have "emits_only (\<lambda>e. \<not> is_call ''cancel'' e) ?tr3 (cancel_running env job_id j tr)"
      using True r j2 ss by (simp add: cancel_running_def run Let_def tr4 emits_only_def)
    with pre show ?thesis by (rule emits_trans)
  qed
qed

lemma cancel_path:
  assumes "get_or_create_by_job_id env (ucast (fst (pop_uint msg))) tr = (Inr j, tr1)"
    and "j_id j \<noteq> 0" "j_running j" "\<not> j_submitting j"
  obtains (quiet) "emits_only (\<lambda>e. \<not> is_call ''cancel'' e) tr1 (handle_job_cancel env msg tr)"
  | (asked) tr3 j2 where "emits_only (\<lambda>e. \<not> is_call ''cancel'' e) tr1 tr3"
      "fst (get_job_by_id env (j_id j) tr3) = Inr (Some j2)" "j_running j2"
      "handle_job_cancel env msg tr =
         cancel_running env (ucast (fst (pop_uint msg))) j2 (tr3 @ [reload_event (j_id j)])"
proof -
  let ?H = "handle_job_cancel env msg tr"
  let ?ss = "statuses_or_empty (get_job_status_by_job_id env (j_id j) tr1)"
  obtain ss tr2 where ss: "?ss = (ss, tr2)" by (cases ?ss)
  have tr2: "tr2 = tr1 @ [statuses_event (j_id j)]"
    using or_abort_traces(4) [of "get_job_status_by_job_id env (j_id j) tr1"] ss by simp
  let ?tr3 = "check_job_status env j False tr2"
  have e2: "emits_only (\<lambda>e. \<not> is_call ''cancel'' e) tr1 tr2" by (simp add: tr2)
  then have e3: "emits_only (\<lambda>e. \<not> is_call ''cancel'' e) tr1 ?tr3"
    using check_job_status_emits [of "''cancel''" tr2 env j False] by (auto intro: emits_trans)
  obtain r tr4 where r: "reload_job_or_abort env j ?tr3 = (r, tr4)" by (cases "reload_job_or_abort env j ?tr3")
  have tr4: "tr4 = ?tr3 @ [reload_event (j_id j)]" using or_abort_traces(3) [of env j ?tr3] r by simp
  have e4: "emits_only (\<lambda>e. \<not> is_call ''cancel'' e) tr1 tr4" using e3 by (rule emits_trans) (simp add: tr4)
  have H: "?H = (if already_cancelled ss then tr2
      else case r of None \<Rightarrow> tr4
        | Some j2 \<Rightarrow> if \<not> j_running j2 then tr4 else cancel_running env (ucast (fst (pop_uint msg))) j2 tr4)"
    using assms ss r
    by (simp add: handle_job_cancel_def cancel_task_def get_or_create_job_or_abort_def Let_def split: option.split)
  show thesis
  proof (cases "\<not> already_cancelled ss \<and> (\<exists>j2. r = Some j2 \<and> j_running j2)")
    case False
    then have "?H = tr2 \<or> ?H = tr4" by (cases r) (auto simp: H)
    then show thesis using e2 e4 by (intro quiet) auto
  next
    case True
    then obtain j2 where j2: "r = Some j2" "j_running j2" by blast
    then have "fst (get_job_by_id env (j_id j) ?tr3) = Inr (Some j2)"
      using r by (auto simp: reload_job_or_abort_def split: sum.splits prod.splits option.splits)
    then show thesis using True j2 e3 by (intro asked [of ?tr3 j2]) (simp_all add: H tr4)
  qed
qed

text \<open>
  Cancellation asks the bundle only for a running job and is announced only when due. If the job is
  unknown, not running or being submitted, the bundle is not asked; the cancellation is announced at
  once unless the job is being submitted. Otherwise the bundle's cancel function is called at most
  once, and only after the job has been reloaded and is still running; when the bundle refuses,
  nothing follows its call.
\<close>

theorem cancel_only_running:
  assumes "get_or_create_by_job_id env (ucast (fst (pop_uint msg))) tr = (Inr j, tr1)"
  shows "(j_id j = 0 \<or> \<not> j_running j \<or> j_submitting j \<longrightarrow>
      handle_job_cancel env msg tr = tr1 @
        (if j_submitting j then []
         else [update_event (ucast (fst (pop_uint msg))) JOB_COMPLETION_SOURCE CANCELLED ''Job has been cancelled'']))
    \<and> (\<exists>es. handle_job_cancel env msg tr = tr1 @ es
         \<and> (list_all (\<lambda>e. \<not> is_call ''cancel'' e) es
            \<or> (\<exists>pre j2 post. es = pre @ [reload_event (j_id j), RunBundle ''cancel'' (j_bundle_hash j2) (get_job_details env j2) []] @ post
                 \<and> list_all (\<lambda>e. \<not> is_call ''cancel'' e) pre \<and> list_all (\<lambda>e. \<not> is_call ''cancel'' e) post
                 \<and> fst (get_job_by_id env (j_id j) (tr1 @ pre)) = Inr (Some j2) \<and> j_running j2
                 \<and> (\<not> o_bool env (tr1 @ pre @ [reload_event (j_id j),
                        RunBundle ''cancel'' (j_bundle_hash j2) (get_job_details env j2) []]) \<longrightarrow> post = []))))"
proof -
  let ?id = "ucast (fst (pop_uint msg)) :: i64" and ?H = "handle_job_cancel env msg tr"
  let ?P = "\<lambda>e. \<not> is_call ''cancel'' e"
  have early: "?H = tr1 @ (if j_submitting j then []
         else [update_event ?id JOB_COMPLETION_SOURCE CANCELLED ''Job has been cancelled''])"
    if "j_id j = 0 \<or> \<not> j_running j \<or> j_submitting j"
    using assms that by (simp add: handle_job_cancel_def cancel_task_def get_or_create_job_or_abort_def Let_def)
  show ?thesis
  proof (cases "j_id j = 0 \<or> \<not> j_running j \<or> j_submitting j")
    case True
    then show ?thesis using early by simp
  next
    case False
    then have st: "j_id j \<noteq> 0" "j_running j" "\<not> j_submitting j" by auto
    show ?thesis
    proof (cases rule: cancel_path [OF assms st, case_names quiet asked])
      case quiet
      then show ?thesis using False by (auto simp: emits_only_def)
    next
      case (asked tr3 j2)
      obtain pre where pre: "tr3 = tr1 @ pre" "list_all ?P pre" using asked(1) by (auto simp: emits_only_def)
      let ?call = "tr3 @ [reload_event (j_id j)] @ [RunBundle ''cancel'' (j_bundle_hash j2) (get_job_details env j2) []]"
      obtain post where post: "?H = ?call @ post" "list_all ?P post"
        using cancel_running_emits(1) [where env = env and j = j2 and tr = "tr3 @ [reload_event (j_id j)]" and job_id = ?id]
          asked(4) by (auto simp: emits_only_def)
      moreover have "\<not> o_bool env ?call \<longrightarrow> post = []"
        using cancel_running_emits(2) [where env = env and j = j2 and tr = "tr3 @ [reload_event (j_id j)]" and job_id = ?id]
          asked(4) post(1) by auto
      ultimately show ?thesis using False pre asked(2,3) by fastforce
    qed
  qed
qed

theorem cancel_only_running_witness:
  "handle_job_cancel (fresh_outside 5) (submit_message 42 [] []) [] =
     [lookup_event 42, update_event 42 JOB_COMPLETION_SOURCE CANCELLED ''Job has been cancelled'']"
proof -
  obtain m1 m2 m3 where "pop_uint (submit_message 42 [] []) = (42, m1)"
    using submit_message_fields [of "[]" "[]" 42] by (auto simp: wf_string_def)
  then show ?thesis
    using cancel_only_running [of "fresh_outside 5" "submit_message 42 [] []" "[]", OF fresh_lookup]
    by (simp add: default_job_def)
qed

text \<open>
  A job update says what it was given. The message queued for a job is filed under the decimal job
  identifier and carries, in order, the identifier (exactly, when it fits 32 bits), the source, the
  status and the text; the server reads back the same values with nothing left over.
\<close>

theorem job_update_roundtrip:
  assumes "0 \<le> sint job_id" "sint job_id < 2 ^ 32" "wf_string src" "wf_string text"
  shows "\<exists>d. queue_job_update job_id src status text tr = tr @ [QueueMessage (show_int (sint job_id)) d Medium]
    \<and> msg_id (from_data d) = UPDATE_JOB \<and> msg_source (from_data d) = show_int (sint job_id)
    \<and> (\<exists>m. pop_values [TUint, TString, TUint, TString] (from_data d) =
           ([VUint (ucast job_id), VString src, VUint status, VString text], m) \<and> remaining_len m = 0)
    \<and> int (unat (ucast job_id :: u32)) = sint job_id"
proof -
  let ?d = "get_data (update_message job_id src status text)" and ?s = "show_int (sint job_id)"
  let ?vs = "[VUint (ucast job_id), VString src, VUint status, VString text]"
  have cap: "cap_job_id_for_wire job_id = ucast job_id"
    using assms(1,2) by (simp add: cap_job_id_for_wire_def i64_to_u32_max_def)
  have d: "?d = header UPDATE_JOB ?s @ enc_values ?vs"
    by (simp add: get_data_def update_message_def Let_def cap push_encs message_new_data enc_values_def
        del: le_encode.simps)
  have len: "length ?s < 2 ^ 64"
    using length_show_nat [of "nat (sint job_id)"] assms(1,2) by (simp add: show_int_def)
  have un: "unread (from_data ?d) = enc_values ?vs @ []"
    unfolding d using len by (simp add: unread_from_data_header)
  have wf: "\<forall>v\<in>set ?vs. wf_value v" using assms(3,4) by (simp add: wf_string_def)
  have pop: "pop_values (map tag_of ?vs) (from_data ?d) = (?vs, advance (length (enc_values ?vs)) (from_data ?d))"
    by (rule pop_values_enc [OF wf un])
  have "remaining_len (from_data ?d) = length (enc_values ?vs)" using un by (metis append_Nil2 length_unread)
  then have rest: "remaining_len (advance (length (enc_values ?vs)) (from_data ?d)) = 0"
    by (simp add: cursor_simps)
  have ids: "msg_id (from_data ?d) = UPDATE_JOB" "msg_source (from_data ?d) = ?s"
    unfolding d using len by (simp_all add: from_data_header)
  have num: "int (unat (ucast job_id :: u32)) = sint job_id"
  proof -
    have s: "sint job_id = int (unat job_id)"
      using assms(1) sint_nonneg_iff_64 [of job_id] sint_cases_64 [of job_id] by simp
    with assms(2) have "int (unat job_id) < int (2 ^ 32)" by simp
    then have "unat job_id < 2 ^ 32" by linarith
    then have "unat (ucast job_id :: u32) = unat job_id" by (simp add: unsigned_ucast_eq take_bit_nat_eq_self)
    with s show ?thesis by simp
  qed
  have trace: "queue_job_update job_id src status text tr = tr @ [QueueMessage ?s ?d Medium]"
    by (simp add: update_event_def)
  show ?thesis
    using pop rest ids num trace by (intro exI [of _ ?d]) auto
qed

theorem job_update_roundtrip_witness:
  "\<exists>d. queue_job_update 42 ''system'' SUBMITTED ''ok'' [] = [QueueMessage ''42'' d Medium]
     \<and> msg_id (from_data d) = UPDATE_JOB"
proof -
  have "wf_string ''system''" "wf_string ''ok''" by (auto simp: wf_string_def intro!: wf_str_ascii)
  moreover have "show_int (sint (42 :: i64)) = ''42''"
    by code_simp
  ultimately show ?thesis using job_update_roundtrip [of 42 "''system''" "''ok''" SUBMITTED "[]"] by auto
qed

end
