(* ===== verification/Message_Queue.thy ===== *)
theory Message_Queue
  imports Messaging "HOL-Library.AList" "HOL-Library.Multiset"
begin

text \<open>
  The outgoing priority queue of \<^verbatim>\<open>src/src/src/websocket.rs\<close> and the scheduler loop that drains it.
  The queue is a vector of \<^verbatim>\<open>PRIORITY_LEVELS\<close> hash maps from a source to a double-ended queue of encoded
  messages. A hash map is an association list with distinct keys; the order in which the code
  iterates over it is not specified by the language, so every iteration takes the order from an
  arbitrary ranking of the keys, chosen afresh for each map: every order of the keys is some ranking.
  The outcome of a \<^verbatim>\<open>try_lock\<close> is a predicate on priorities, true where the lock is contended.

  The locale \<open>source_queue\<close> states what one priority level promises: first in, first out for every
  source. The scheduler is a step function on a program counter; a run of it that is not interleaved
  with new messages is the recursive function \<open>scan_cycle\<close>, which terminates, and the lemmas show that
  it empties the queue, keeps the order of each source, and lets a message overtake a more urgent one
  only after sixteen messages of the more urgent priority in a row.
\<close>

definition PRIORITY_LEVELS :: nat where "PRIORITY_LEVELS = 20"
definition MAX_CONSECUTIVE_PRIORITY_ITEMS :: nat where "MAX_CONSECUTIVE_PRIORITY_ITEMS = 16"

type_synonym source_map = "(string \<times> bytes list) list"
type_synonym pqueue = "source_map list"
type_synonym emitted = "nat \<times> string \<times> bytes"

subsection \<open>One priority level\<close>

definition q_get :: "source_map \<Rightarrow> string \<Rightarrow> bytes list" where
  "q_get m s = (case map_of m s of None \<Rightarrow> [] | Some q \<Rightarrow> q)"

definition entry_push_back :: "source_map \<Rightarrow> string \<Rightarrow> bytes \<Rightarrow> source_map" where
  "entry_push_back m s d = AList.update s (q_get m s @ [d]) m"

definition pop_any :: "(string \<Rightarrow> nat) \<Rightarrow> source_map \<Rightarrow> (bytes \<times> string \<times> source_map) option" where
  "pop_any rank m =
     (case List.find (\<lambda>s. q_get m s \<noteq> []) (sort_key rank (map fst m)) of
        None \<Rightarrow> None
      | Some s \<Rightarrow> Some (hd (q_get m s), s, AList.update s (tl (q_get m s)) m))"

definition map_count :: "source_map \<Rightarrow> nat" where
  "map_count m = sum_list (map (length \<circ> snd) m)"

definition map_has_data :: "source_map \<Rightarrow> bool" where
  "map_has_data m \<longleftrightarrow> list_ex (\<lambda>q. q \<noteq> []) (map snd m)"

subsection \<open>The queue\<close>

definition new_queue :: pqueue where
  "new_queue = replicate PRIORITY_LEVELS []"

definition enqueue :: "pqueue \<Rightarrow> nat \<Rightarrow> string \<Rightarrow> bytes \<Rightarrow> pqueue" where
  "enqueue q p s d = q[p := entry_push_back (q ! p) s d]"

definition does_higher_priority_data_exist :: "(nat \<Rightarrow> bool) \<Rightarrow> pqueue \<Rightarrow> nat \<Rightarrow> bool" where
  "does_higher_priority_data_exist contended q max_priority \<longleftrightarrow>
     list_ex (\<lambda>p. contended p \<or> map_has_data (q ! p)) [0..<max_priority]"

definition clear_queued_messages :: "(nat \<Rightarrow> bool) \<Rightarrow> pqueue \<Rightarrow> pqueue \<times> nat" where
  "clear_queued_messages contended q =
     (map (\<lambda>p. if contended p then q ! p else []) [0..<length q],
      sum_list (map (\<lambda>p. if contended p then 0 else map_count (q ! p)) [0..<length q]))"

definition prune_sources :: "(nat \<Rightarrow> bool) \<Rightarrow> pqueue \<Rightarrow> pqueue" where
  "prune_sources contended q =
     map (\<lambda>p. if contended p then q ! p else filter (\<lambda>(s, xs). xs \<noteq> []) (q ! p)) [0..<length q]"

subsection \<open>The scheduler\<close>

text \<open>
  The program counter of the scheduler task: waiting for \<^verbatim>\<open>data_ready\<close>; at the head of the inner
  loop at a priority, with the number of messages it has sent there in a row and
  \<^verbatim>\<open>had_any_data\<close>; after a send, before the check for more urgent data; or returned.
\<close>

datatype sched_pc = SWait | SScan nat nat bool | SCheck nat nat bool | SExit

definition scan_step ::
  "(source_map \<Rightarrow> string \<Rightarrow> nat) \<Rightarrow> (nat \<Rightarrow> bool) \<Rightarrow> bool \<Rightarrow> bool \<Rightarrow> pqueue \<Rightarrow> sched_pc
   \<Rightarrow> pqueue \<times> sched_pc \<times> emitted list" where
  "scan_step rank contended current writer_open q pc =
     (case pc of
        SWait \<Rightarrow> (q, SWait, [])
      | SExit \<Rightarrow> (q, SExit, [])
      | SScan p n had \<Rightarrow>
          if p \<ge> PRIORITY_LEVELS then (q, if had then SScan 0 0 False else SWait, [])
          else if \<not> current then (q, SExit, [])
          else if n \<ge> MAX_CONSECUTIVE_PRIORITY_ITEMS then (q, SScan (Suc p) 0 had, [])
          else if p \<ge> length q then (q, SExit, [])
          else (case pop_any (rank (q ! p)) (q ! p) of
                  None \<Rightarrow> (q, SScan (Suc p) 0 had, [])
                | Some (item, source, m) \<Rightarrow>
                    if writer_open then (q[p := m], SCheck p (Suc n) True, [(p, source, item)])
                    else (q[p := m], SExit, []))
      | SCheck p n had \<Rightarrow>
          if does_higher_priority_data_exist contended q p then (q, SScan 0 0 False, [])
          else (q, SScan p n had, []))"

definition total_queued :: "pqueue \<Rightarrow> nat" where
  "total_queued q = sum_list (map map_count q)"

fun pc_weight :: "sched_pc \<Rightarrow> nat" where
  "pc_weight SWait = 0"
| "pc_weight SExit = 0"
| "pc_weight (SScan p n had) = (if had then 100 else 50) + 2 * (PRIORITY_LEVELS - p)"
| "pc_weight (SCheck p n had) = 101 + 2 * (PRIORITY_LEVELS - p)"

text \<open>Where each message of a source waits.\<close>

definition pending :: "pqueue \<Rightarrow> nat \<Rightarrow> string \<Rightarrow> bytes list" where
  "pending q p s = (if p < length q then q_get (q ! p) s else [])"

definition wf_queue :: "pqueue \<Rightarrow> bool" where
  "wf_queue q \<longleftrightarrow> length q = PRIORITY_LEVELS \<and> (\<forall>m\<in>set q. distinct (map fst m))"

definition level_empty :: "pqueue \<Rightarrow> nat \<Rightarrow> bool" where
  "level_empty q p \<longleftrightarrow> \<not> map_has_data (q ! p)"

text \<open>
  A history of the queue: a message is queued, the scheduler task is woken, it takes one step (with
  the hash order, the lock contention and the state of the connection as they happen to be), or empty
  sources are pruned.
\<close>

datatype queue_event =
  EvEnqueue nat string bytes
| EvWake
| EvStep "source_map \<Rightarrow> string \<Rightarrow> nat" "nat \<Rightarrow> bool" bool bool
| EvPrune "nat \<Rightarrow> bool"

fun run_event :: "pqueue \<times> sched_pc \<Rightarrow> queue_event \<Rightarrow> (pqueue \<times> sched_pc) \<times> emitted list" where
  "run_event (q, pc) (EvEnqueue p s d) = ((enqueue q p s d, pc), [])"
| "run_event (q, pc) EvWake = ((q, if pc = SWait then SScan 0 0 False else pc), [])"
| "run_event (q, pc) (EvStep rank contended current writer_open) =
     (case scan_step rank contended current writer_open q pc of (q', pc', out) \<Rightarrow> ((q', pc'), out))"
| "run_event (q, pc) (EvPrune contended) = ((prune_sources contended q, pc), [])"

fun run_events :: "pqueue \<times> sched_pc \<Rightarrow> queue_event list \<Rightarrow> (pqueue \<times> sched_pc) \<times> emitted list" where
  "run_events st [] = (st, [])"
| "run_events st (e # es) =
     (case run_event st e of (st', out) \<Rightarrow>
        case run_events st' es of (st'', out') \<Rightarrow> (st'', out @ out'))"

definition emitted_by :: "nat \<Rightarrow> string \<Rightarrow> emitted list \<Rightarrow> bytes list" where
  "emitted_by p s out = [d. (p', s', d) \<leftarrow> out, p' = p \<and> s' = s]"

definition enqueued_by :: "nat \<Rightarrow> string \<Rightarrow> queue_event list \<Rightarrow> bytes list" where
  "enqueued_by p s es =
     concat (map (\<lambda>e. case e of EvEnqueue p' s' d \<Rightarrow> if p' = p \<and> s' = s then [d] else [] | _ \<Rightarrow> []) es)"

fun event_ok :: "queue_event \<Rightarrow> bool" where
  "event_ok (EvEnqueue p s d) \<longleftrightarrow> p < PRIORITY_LEVELS"
| "event_ok (EvStep rank contended current writer_open) \<longleftrightarrow> writer_open"
| "event_ok _ \<longleftrightarrow> True"

subsection \<open>Lemmas: one priority level\<close>

lemma q_get_update [simp]: "q_get (AList.update s xs m) t = (if t = s then xs else q_get m t)"
  by (simp add: q_get_def update_conv)

lemma keys_in_map: "q_get m s \<noteq> [] \<Longrightarrow> s \<in> set (map fst m)"
  by (force simp: q_get_def dest: map_of_SomeD split: option.splits)

lemma pop_any_None: "pop_any rank m = None \<longleftrightarrow> (\<forall>s. q_get m s = [])"
proof -
  have "pop_any rank m = None \<longleftrightarrow>
      List.find (\<lambda>s. q_get m s \<noteq> []) (sort_key rank (map fst m)) = None"
    by (auto simp: pop_any_def split: option.split)
  then have "pop_any rank m = None \<longleftrightarrow> (\<forall>s\<in>set (map fst m). q_get m s = [])"
    by (simp add: find_None_iff)
  then show ?thesis using keys_in_map by blast
qed

lemma pop_any_Some:
  assumes "pop_any rank m = Some (x, s, m')"
  shows "q_get m s = x # q_get m' s" "\<And>t. t \<noteq> s \<Longrightarrow> q_get m' t = q_get m t"
    "m' = AList.update s (q_get m' s) m"
  using assms by (auto simp: pop_any_def find_Some_iff split: option.splits)

lemma distinct_keys_update: "distinct (map fst m) \<Longrightarrow> distinct (map fst (AList.update s xs m))"
  by (rule distinct_update)

lemma map_count_update:
  assumes "map_of m s = Some xs"
  shows "map_count (AList.update s ys m) + length xs = map_count m + length ys"
  using assms
proof (induction m)
  case Nil
  then show ?case by simp
next
  case (Cons e m)
  obtain k v where e: "e = (k, v)" by (cases e)
  show ?case
  proof (cases "k = s")
    case True
    with Cons e show ?thesis by (simp add: map_count_def)
  next
    case False
    with Cons e show ?thesis by (simp add: map_count_def)
  qed
qed

lemma map_count_pop:
  assumes "pop_any rank m = Some (x, s, m')"
  shows "map_count m = Suc (map_count m')"
proof -
  note pop = pop_any_Some [OF assms]
  from pop(1) obtain xs where xs: "map_of m s = Some xs" by (auto simp: q_get_def split: option.splits)
  with pop(1) have "length xs = Suc (length (q_get m' s))" by (auto simp: q_get_def)
  with map_count_update [OF xs, of "q_get m' s"] pop(3) show ?thesis by simp
qed

lemma map_has_data_iff: "distinct (map fst m) \<Longrightarrow> map_has_data m \<longleftrightarrow> (\<exists>s. q_get m s \<noteq> [])"
proof -
  assume d: "distinct (map fst m)"
  have "map_has_data m \<longleftrightarrow> (\<exists>(s, xs)\<in>set m. xs \<noteq> [])"
    by (force simp: map_has_data_def list_ex_iff)
  also have "\<dots> \<longleftrightarrow> (\<exists>s. q_get m s \<noteq> [])"
    using d by (auto simp: q_get_def split: option.splits dest: map_of_SomeD intro: map_of_is_SomeI)
      (metis list.distinct(1) map_of_is_SomeI option.inject)
  finally show ?thesis .
qed

subsection \<open>The contract of one priority level\<close>

locale source_queue =
  fixes enq :: "'q \<Rightarrow> 's \<Rightarrow> 'x \<Rightarrow> 'q"
    and deq :: "'q \<Rightarrow> ('x \<times> 's \<times> 'q) option"
    and get :: "'q \<Rightarrow> 's \<Rightarrow> 'x list"
    and wf :: "'q \<Rightarrow> bool"
  assumes get_enq: "get (enq q s x) t = (if t = s then get q s @ [x] else get q t)"
    and deq_None: "deq q = None \<longleftrightarrow> (\<forall>s. get q s = [])"
    and deq_Some: "deq q = Some (x, s, q') \<Longrightarrow>
      get q s = x # get q' s \<and> (\<forall>t. t \<noteq> s \<longrightarrow> get q' t = get q t)"
    and wf_enq: "wf q \<Longrightarrow> wf (enq q s x)"
    and wf_deq: "wf q \<Longrightarrow> deq q = Some (x, s, q') \<Longrightarrow> wf q'"
begin

text \<open>A message leaves only after everything its source queued before it.\<close>

lemma deq_is_oldest: "deq q = Some (x, s, q') \<Longrightarrow> x = hd (get q s)"
  by (simp add: deq_Some)

lemma enq_enq_deq:
  assumes "get q s = []" "deq (enq (enq q s x) s y) = Some (z, s, q')"
  shows "z = x \<and> get q' s = [y]"
  using deq_Some [OF assms(2)] assms(1) by (simp add: get_enq)

lemma enq_not_empty: "deq (enq q s x) \<noteq> None"
  by (auto simp: deq_None get_enq)

lemma get_deq: "deq q = Some (x, s, q') \<Longrightarrow> get q t = (if t = s then x # get q' t else get q' t)"
  using deq_Some by (cases "t = s") auto

end

interpretation level: source_queue entry_push_back "pop_any rank" q_get "\<lambda>m. distinct (map fst m)"
  for rank
  by unfold_locales
    (auto simp: entry_push_back_def pop_any_None dest: pop_any_Some distinct_keys_update,
     metis distinct_keys_update pop_any_Some(3))

subsection \<open>Lemmas: the queue\<close>

lemma wf_new_queue: "wf_queue new_queue"
  by (simp add: wf_queue_def new_queue_def)

lemma wf_queue_length: "wf_queue q \<Longrightarrow> length q = PRIORITY_LEVELS"
  by (simp add: wf_queue_def)

lemma wf_enqueue: "wf_queue q \<Longrightarrow> wf_queue (enqueue q p s d)"
  by (cases "p < length q")
    (auto simp: wf_queue_def enqueue_def list_update_beyond
      dest!: set_update_subset_insert [THEN subsetD] intro: level.wf_enq)

lemma pending_enqueue:
  "p < length q \<Longrightarrow>
   pending (enqueue q p s d) p' s' = (if p' = p \<and> s' = s then pending q p s @ [d] else pending q p' s')"
  by (auto simp: pending_def enqueue_def nth_list_update level.get_enq)

lemma q_get_prune:
  "distinct (map fst m) \<Longrightarrow> q_get (filter (\<lambda>(s, xs). xs \<noteq> []) m) s = q_get m s"
proof (induction m)
  case Nil
  then show ?case by simp
next
  case (Cons e m)
  obtain k v where e: "e = (k, v)" by (cases e)
  have "map_of m k = None" using Cons.prems e by (simp add: map_of_eq_None_iff)
  moreover have "map_of (filter (\<lambda>(s, xs). xs \<noteq> []) m) k = None"
    using Cons.prems e by (auto simp: map_of_eq_None_iff)
  ultimately show ?case using Cons e by (auto simp: q_get_def)
qed

lemma length_prune [simp]: "length (prune_sources contended q) = length q"
  by (simp add: prune_sources_def)

lemma pending_prune: "wf_queue q \<Longrightarrow> pending (prune_sources contended q) p s = pending q p s"
  by (auto simp: pending_def prune_sources_def q_get_prune wf_queue_def)

lemma distinct_filter_keys: "distinct (map fst m) \<Longrightarrow> distinct (map fst (filter P m))"
  by (induction m) auto

lemma wf_prune: "wf_queue q \<Longrightarrow> wf_queue (prune_sources contended q)"
  by (auto simp: wf_queue_def prune_sources_def intro: distinct_filter_keys)

lemma pop_level:
  assumes "p < length q" "pop_any rank (q ! p) = Some (x, s, m)"
  shows "pending q p' s' =
    (if p' = p \<and> s' = s then x # pending (q[p := m]) p s else pending (q[p := m]) p' s')"
  using assms level.get_deq [OF assms(2), of s'] by (auto simp: pending_def nth_list_update)

lemma wf_pop_level:
  assumes "wf_queue q" "p < length q" "pop_any rank (q ! p) = Some (x, s, m)"
  shows "wf_queue (q[p := m])"
proof -
  have "distinct (map fst m)"
    using assms level.wf_deq [of "q ! p" rank x s m] by (simp add: wf_queue_def)
  then show ?thesis using assms(1)
    by (auto simp: wf_queue_def dest!: set_update_subset_insert [THEN subsetD])
qed

subsection \<open>Lemmas: one step of the scheduler\<close>

lemma scan_step_cases:
  assumes "scan_step rank contended current w q pc = (q', pc', out)"
  obtains (idle) "q' = q" "out = []"
  | (emit) p n had x s m where "pc = SScan p n had" "p < PRIORITY_LEVELS" "p < length q"
      "n < MAX_CONSECUTIVE_PRIORITY_ITEMS" "pop_any (rank (q ! p)) (q ! p) = Some (x, s, m)"
      "q' = q[p := m]" "pc' = SCheck p (Suc n) True" "out = [(p, s, x)]"
  | (lost) p n had x s m where "pc = SScan p n had" "p < length q" "\<not> w"
      "pop_any (rank (q ! p)) (q ! p) = Some (x, s, m)" "q' = q[p := m]" "pc' = SExit" "out = []"
  using assms
  by (cases pc) (fastforce simp: scan_step_def not_le split: if_splits option.splits)+

lemma scan_step_pending:
  assumes "scan_step rank contended current True q pc = (q', pc', out)"
  shows "pending q p s = emitted_by p s out @ pending q' p s"
  using assms
proof (cases rule: scan_step_cases)
  case (emit p' n had x s' m)
  then show ?thesis using pop_level [OF emit(3) emit(5), of p s] by (auto simp: emitted_by_def)
qed (auto simp: emitted_by_def)

lemma wf_scan_step:
  assumes "scan_step rank contended current w q pc = (q', pc', out)" "wf_queue q"
  shows "wf_queue q'"
  using assms(1)
proof (cases rule: scan_step_cases)
  case (emit p n had x s m)
  then show ?thesis using wf_pop_level assms(2) by blast
next
  case (lost p n had x s m)
  then show ?thesis using wf_pop_level assms(2) by blast
qed (use assms(2) in simp)

lemma emitted_by_append [simp]: "emitted_by p s (xs @ ys) = emitted_by p s xs @ emitted_by p s ys"
  by (simp add: emitted_by_def)

lemma emitted_by_nil [simp]: "emitted_by p s [] = []"
  by (simp add: emitted_by_def)

lemma run_event_fifo:
  assumes "run_event (q, pc) e = ((q', pc'), out)" "wf_queue q" "event_ok e"
  shows "pending q p s @ enqueued_by p s [e] = emitted_by p s out @ pending q' p s \<and> wf_queue q'"
proof (cases e)
  case (EvEnqueue p' s' d)
  with assms show ?thesis
    by (auto simp: enqueued_by_def pending_enqueue wf_enqueue wf_queue_length)
next
  case EvWake
  with assms show ?thesis by (auto simp: enqueued_by_def)
next
  case (EvStep rank contended current writer_open)
  with assms have "scan_step rank contended current True q pc = (q', pc', out)"
    by (auto split: prod.splits)
  with assms EvStep show ?thesis
    by (simp add: enqueued_by_def scan_step_pending wf_scan_step)
next
  case (EvPrune contended)
  with assms show ?thesis by (auto simp: enqueued_by_def pending_prune wf_prune)
qed

lemma run_events_fifo:
  assumes "run_events (q, pc) es = ((q', pc'), out)" "wf_queue q" "list_all event_ok es"
  shows "pending q p s @ enqueued_by p s es = emitted_by p s out @ pending q' p s \<and> wf_queue q'"
  using assms
proof (induction es arbitrary: q pc q' pc' out)
  case Nil
  then show ?case by (auto simp: enqueued_by_def)
next
  case (Cons e es)
  obtain q1 pc1 o1 where 1: "run_event (q, pc) e = ((q1, pc1), o1)" by (metis prod.collapse)
  obtain q2 pc2 o2 where 2: "run_events (q1, pc1) es = ((q2, pc2), o2)" by (metis prod.collapse)
  have step: "pending q p s @ enqueued_by p s [e] = emitted_by p s o1 @ pending q1 p s" "wf_queue q1"
    using run_event_fifo [OF 1, of p s] Cons.prems by simp_all
  have rest: "pending q1 p s @ enqueued_by p s es = emitted_by p s o2 @ pending q2 p s" "wf_queue q2"
    using Cons.IH [OF 2] step Cons.prems by simp_all
  have "enqueued_by p s (e # es) = enqueued_by p s [e] @ enqueued_by p s es"
    by (simp add: enqueued_by_def)
  with step rest have "pending q p s @ enqueued_by p s (e # es) =
      emitted_by p s (o1 @ o2) @ pending q2 p s" by (metis append_assoc emitted_by_append)
  with 1 2 rest Cons.prems show ?case by auto
qed

subsection \<open>Draining the queue\<close>

lemma total_queued_pop:
  assumes "p < length q" "pop_any rank (q ! p) = Some (x, s, m)"
  shows "total_queued (q[p := m]) < total_queued q"
proof -
  have "map_count m < map_count (q ! p)" using map_count_pop [OF assms(2)] by simp
  moreover have "map_count (q ! p) \<le> sum_list (map map_count q)"
    using assms(1) by (metis elem_le_sum_list length_map nth_map)
  ultimately show ?thesis using assms(1)
    by (simp add: total_queued_def map_update sum_list_update)
qed

lemma scan_step_decreases:
  assumes step: "scan_step rank contended current w q pc = (q', pc', out)"
    and "pc \<noteq> SWait" "pc \<noteq> SExit"
  shows "total_queued q' < total_queued q \<or> total_queued q' = total_queued q \<and> pc_weight pc' < pc_weight pc"
  using step
proof (cases rule: scan_step_cases)
  case idle
  then have "pc_weight pc' < pc_weight pc" using assms
    by (cases pc) (auto simp: scan_step_def PRIORITY_LEVELS_def split: if_splits option.splits)
  with idle show ?thesis by simp
qed (auto dest: total_queued_pop)

function scan_cycle ::
  "(source_map \<Rightarrow> string \<Rightarrow> nat) \<Rightarrow> pqueue \<Rightarrow> sched_pc \<Rightarrow> pqueue \<times> sched_pc \<times> emitted list" where
  "scan_cycle rank q pc =
     (if pc = SWait \<or> pc = SExit then (q, pc, [])
      else case scan_step rank (\<lambda>_. False) True True q pc of (q', pc', out) \<Rightarrow>
             (case scan_cycle rank q' pc' of (q'', pc'', out') \<Rightarrow> (q'', pc'', out @ out')))"
  by pat_completeness auto
termination
  by (relation "measures [\<lambda>(rank, q, pc). total_queued q, \<lambda>(rank, q, pc). pc_weight pc]")
    (auto dest!: scan_step_decreases [OF sym])

declare scan_cycle.simps [simp del]

lemma scan_cycle_run [consumes 1, case_names stop step]:
  assumes "scan_cycle rank q pc = (q', pc', out)"
    and "\<And>q pc. pc = SWait \<or> pc = SExit \<Longrightarrow> P q pc q pc []"
    and "\<And>q pc q1 pc1 o1 q' pc' o2. pc \<noteq> SWait \<Longrightarrow> pc \<noteq> SExit \<Longrightarrow>
      scan_step rank (\<lambda>_. False) True True q pc = (q1, pc1, o1) \<Longrightarrow>
      scan_cycle rank q1 pc1 = (q', pc', o2) \<Longrightarrow> P q1 pc1 q' pc' o2 \<Longrightarrow> P q pc q' pc' (o1 @ o2)"
  shows "P q pc q' pc' out"
  using assms
proof (induction rank q pc arbitrary: q' pc' out rule: scan_cycle.induct)
  case (1 rank q pc)
  show ?case
  proof (cases "pc = SWait \<or> pc = SExit")
    case True
    with 1 show ?thesis by (auto simp: scan_cycle.simps [of rank q pc])
  next
    case False
    obtain q1 pc1 o1 where step: "scan_step rank (\<lambda>_. False) True True q pc = (q1, pc1, o1)"
      by (metis prod.collapse)
    obtain o2 where rest: "scan_cycle rank q1 pc1 = (q', pc', o2)" "out = o1 @ o2"
      using 1(2) False step by (auto simp: scan_cycle.simps [of rank q pc] split: prod.splits)
    have "P q1 pc1 q' pc' o2"
      using 1(1) [OF False step [symmetric] refl rest(1)] 1(3,4) by blast
    with 1(4) False step rest show ?thesis by blast
  qed
qed

lemma scan_cycle_pending:
  "scan_cycle rank q pc = (q', pc', out) \<Longrightarrow> pending q p s = emitted_by p s out @ pending q' p s"
  by (induction rule: scan_cycle_run) (simp_all add: scan_step_pending)

text \<open>
  \<open>run_of p n h\<close>: the last \<open>n\<close> messages of the history \<open>h\<close> were sent at priority \<open>p\<close>. The invariant
  of an uninterrupted cycle says what the scheduler knows at each program point about the levels it
  has passed.
\<close>

definition run_of :: "nat \<Rightarrow> nat \<Rightarrow> emitted list \<Rightarrow> bool" where
  "run_of p n h \<longleftrightarrow> n \<le> length h \<and> list_all (\<lambda>e. fst e = p) (take n (rev h))"

abbreviation last_at :: "emitted list \<Rightarrow> nat \<Rightarrow> bool" where
  "last_at h e \<equiv> run_of e 1 h"

abbreviation lower_empty :: "pqueue \<Rightarrow> nat \<Rightarrow> bool" where
  "lower_empty q p \<equiv> \<forall>r. p < r \<and> r < PRIORITY_LEVELS \<longrightarrow> level_empty q r"

fun cycle_inv :: "emitted list \<Rightarrow> pqueue \<Rightarrow> sched_pc \<Rightarrow> bool" where
  "cycle_inv h q SWait \<longleftrightarrow> (\<forall>i < PRIORITY_LEVELS. level_empty q i)"
| "cycle_inv h q SExit \<longleftrightarrow> False"
| "cycle_inv h q (SScan p n had) \<longleftrightarrow>
     n \<le> 16 \<and> (0 < n \<longrightarrow> had) \<and> run_of p n h \<and> (n = 0 \<or> p < PRIORITY_LEVELS)
     \<and> (\<forall>i < min p PRIORITY_LEVELS. level_empty q i \<or> (n = 0 \<and> run_of i 16 h))
     \<and> (\<not> had \<longrightarrow> (\<forall>i < min p PRIORITY_LEVELS. level_empty q i))
     \<and> (had \<and> n = 0 \<longrightarrow> (\<exists>e < p. last_at h e \<and> (\<forall>r. e < r \<and> r < min p PRIORITY_LEVELS \<longrightarrow> level_empty q r)))
     \<and> (0 < n \<longrightarrow> \<not> run_of p (Suc n) h \<or> lower_empty q p)
     \<and> (\<not> had \<longrightarrow> (\<forall>e. last_at h e \<longrightarrow>
          lower_empty q e \<or> (\<exists>i. p \<le> i \<and> i < e \<and> i < PRIORITY_LEVELS \<and> \<not> level_empty q i)))"
| "cycle_inv h q (SCheck p n had) \<longleftrightarrow>
     p < PRIORITY_LEVELS \<and> 0 < n \<and> n \<le> 16 \<and> had \<and> run_of p n h
     \<and> (\<not> run_of p (Suc n) h \<or> lower_empty q p)"

lemma run_of_snoc [simp]: "run_of p (Suc n) (h @ [(p', s, d)]) \<longleftrightarrow> p' = p \<and> run_of p n h"
  by (auto simp: run_of_def)

lemma run_of_0 [simp]: "run_of p 0 h"
  by (simp add: run_of_def)

lemma run_of_mono: "run_of p n h \<Longrightarrow> k \<le> n \<Longrightarrow> run_of p k h"
  by (auto simp: run_of_def list_all_iff dest: set_take_subset_set_take [THEN subsetD])

lemma run_of_unique: "run_of p n h \<Longrightarrow> run_of p' k h \<Longrightarrow> 0 < n \<Longrightarrow> 0 < k \<Longrightarrow> p = p'"
  by (cases h rule: rev_cases) (auto simp: run_of_def take_Cons' list_all_iff)

lemma does_higher_iff:
  "does_higher_priority_data_exist (\<lambda>_. False) q p \<longleftrightarrow> (\<exists>i<p. \<not> level_empty q i)"
  by (auto simp: does_higher_priority_data_exist_def level_empty_def list_ex_iff)

lemma level_empty_iff:
  "wf_queue q \<Longrightarrow> p < PRIORITY_LEVELS \<Longrightarrow> level_empty q p \<longleftrightarrow> (\<forall>s. pending q p s = [])"
  by (auto simp: level_empty_def wf_queue_def map_has_data_iff pending_def)

lemma pop_any_None_level:
  "wf_queue q \<Longrightarrow> p < PRIORITY_LEVELS \<Longrightarrow> pop_any rank (q ! p) = None \<longleftrightarrow> level_empty q p"
  by (auto simp: level_empty_def wf_queue_def map_has_data_iff pop_any_None)

lemma level_empty_other: "i \<noteq> p \<Longrightarrow> level_empty (q[p := m]) i = level_empty q i"
  by (simp add: level_empty_def)

lemma cycle_inv_emit:
  assumes inv: "cycle_inv h q (SScan p n had)" and wf: "wf_queue q"
    and p: "p < PRIORITY_LEVELS" "n < 16"
    and pop: "pop_any rank (q ! p) = Some (x, s, m)"
  shows "cycle_inv (h @ [(p, s, x)]) (q[p := m]) (SCheck p (Suc n) True)"
proof -
  have "\<not> level_empty q p" using pop p wf pop_any_None_level by fastforce
  have "lower_empty q p" if run: "run_of p (Suc n) h"
  proof (cases "n = 0")
    case True
    then have e: "last_at h p" using run by simp
    show ?thesis
    proof (cases had)
      case True
      with inv \<open>n = 0\<close> obtain e where "e < p" "last_at h e" by auto
      then show ?thesis using run_of_unique [OF e] by auto
    next
      case False
      with inv e show ?thesis by auto
    qed
  next
    case False
    with inv run show ?thesis by auto
  qed
  then show ?thesis using inv p by (auto simp: level_empty_other)
qed

lemma cycle_inv_next:
  assumes inv: "cycle_inv h q (SScan p n had)" and p: "p < PRIORITY_LEVELS"
    and passed: "level_empty q p \<or> n = 16"
  shows "cycle_inv h q (SScan (Suc p) 0 had)"
proof -
  have minS: "min (Suc p) PRIORITY_LEVELS = Suc p" using p by simp
  have minp: "min p PRIORITY_LEVELS = p" using p by simp
  have a: "level_empty q i \<or> run_of i 16 h" if "i < Suc p" for i
    using inv passed that by (auto simp: minp less_Suc_eq)
  have b: "level_empty q i" if "\<not> had" "i < Suc p" for i
    using inv passed that by (auto simp: minp less_Suc_eq)
  have c: "\<exists>e<Suc p. last_at h e \<and> (\<forall>r. e < r \<and> r < Suc p \<longrightarrow> level_empty q r)" if had
  proof (cases "n = 0")
    case True
    with inv that obtain e where "e < p" "last_at h e" "\<forall>r. e < r \<and> r < p \<longrightarrow> level_empty q r"
      by (auto simp: minp)
    moreover from True passed have "level_empty q p" by simp
    ultimately show ?thesis by (intro exI [of _ e]) (auto simp: less_Suc_eq)
  next
    case False
    with inv have "last_at h p" using run_of_mono [of p n h 1] by simp
    then show ?thesis by (intro exI [of _ p]) auto
  qed
  have d: "lower_empty q e \<or> (\<exists>i. Suc p \<le> i \<and> i < e \<and> i < PRIORITY_LEVELS \<and> \<not> level_empty q i)"
    if "\<not> had" "last_at h e" for e
  proof (rule disjCI)
    assume none: "\<not> (\<exists>i. Suc p \<le> i \<and> i < e \<and> i < PRIORITY_LEVELS \<and> \<not> level_empty q i)"
    have "lower_empty q e \<or> (\<exists>i. p \<le> i \<and> i < e \<and> i < PRIORITY_LEVELS \<and> \<not> level_empty q i)"
      using inv that by simp
    with none b [OF that(1)] show "lower_empty q e" by (metis Suc_leI le_neq_implies_less lessI)
  qed
  show ?thesis unfolding cycle_inv.simps minS using a b c d by simp
qed

lemma cycle_inv_check:
  assumes inv: "cycle_inv h q (SCheck p n had)"
  shows "cycle_inv h q
    (if does_higher_priority_data_exist (\<lambda>_. False) q p then SScan 0 0 False else SScan p n had)"
proof (cases "does_higher_priority_data_exist (\<lambda>_. False) q p")
  case True
  then obtain i where i: "i < p" "\<not> level_empty q i" by (auto simp: does_higher_iff)
  have "e = p" if "last_at h e" for e
    using inv that run_of_unique [of e 1 h p n] by auto
  with True i inv show ?thesis by auto
next
  case False
  with inv show ?thesis by (auto simp: does_higher_iff)
qed

lemma cycle_inv_wrap:
  assumes inv: "cycle_inv h q (SScan p n had)" and p: "PRIORITY_LEVELS \<le> p"
  shows "cycle_inv h q (if had then SScan 0 0 False else SWait)"
proof (cases had)
  case True
  have minp: "min p PRIORITY_LEVELS = PRIORITY_LEVELS" using p by simp
  from inv p True obtain e where e: "last_at h e" "\<forall>r. e < r \<and> r < PRIORITY_LEVELS \<longrightarrow> level_empty q r"
    by (auto simp: minp)
  have "lower_empty q e'" if "last_at h e'" for e'
    using e run_of_unique [OF that e(1)] by simp
  with True show ?thesis by auto
next
  case False
  with inv p show ?thesis by auto
qed

lemma cycle_inv_step:
  assumes step: "scan_step rank (\<lambda>_. False) True True q pc = (q', pc', out)"
    and inv: "cycle_inv h q pc" and wf: "wf_queue q"
  shows "cycle_inv (h @ out) q' pc'"
proof (cases pc)
  case (SScan p n had)
  show ?thesis
  proof (cases "p < PRIORITY_LEVELS")
    case True
    then have "p < length q" using wf by (simp add: wf_queue_length)
    show ?thesis
    proof (cases "n < 16")
      case n: True
      show ?thesis
      proof (cases "pop_any (rank (q ! p)) (q ! p)")
        case None
        then have "level_empty q p" using wf True pop_any_None_level by blast
        then show ?thesis
          using step inv SScan True n None \<open>p < length q\<close> cycle_inv_next [of h q p n had]
          by (auto simp: scan_step_def MAX_CONSECUTIVE_PRIORITY_ITEMS_def simp del: cycle_inv.simps)
      next
        case (Some r)
        obtain x s m where r: "r = (x, s, m)" by (cases r)
        with step SScan True n Some \<open>p < length q\<close>
        have "q' = q[p := m]" "pc' = SCheck p (Suc n) True" "out = [(p, s, x)]"
          by (auto simp: scan_step_def MAX_CONSECUTIVE_PRIORITY_ITEMS_def)
        then show ?thesis
          using cycle_inv_emit [of h q p n had "rank (q ! p)" x s m] inv SScan wf True n Some r
          by (simp del: cycle_inv.simps)
      qed
    next
      case False
      with inv SScan have "n = 16" by auto
      then show ?thesis
        using step inv SScan True cycle_inv_next [of h q p n had]
        by (auto simp: scan_step_def MAX_CONSECUTIVE_PRIORITY_ITEMS_def simp del: cycle_inv.simps)
    qed
  next
    case False
    then show ?thesis
      using step inv SScan cycle_inv_wrap [of h q p n had]
      by (auto simp: scan_step_def simp del: cycle_inv.simps)
  qed
next
  case (SCheck p n had)
  then show ?thesis
    using step inv cycle_inv_check [of h q p n had]
    by (auto simp: scan_step_def simp del: cycle_inv.simps split: if_splits)
qed (use step inv in \<open>auto simp: scan_step_def\<close>)

lemma cycle_inv_cycle:
  assumes "scan_cycle rank q pc = (q', pc', out)" "cycle_inv h q pc" "wf_queue q"
  shows "pc' = SWait \<and> (\<forall>i < PRIORITY_LEVELS. level_empty q' i) \<and> wf_queue q'"
  using assms
proof (induction arbitrary: h rule: scan_cycle_run)
  case (stop q pc)
  then show ?case by (cases pc) auto
next
  case (step q pc q1 pc1 o1 q' pc' o2)
  then show ?case using cycle_inv_step wf_scan_step by blast
qed

lemma emitted_pending: "(p, s, d) \<in> set out \<Longrightarrow> d \<in> set (emitted_by p s out)"
  by (force simp: emitted_by_def)

text \<open>
  A message of level \<open>p\<close> that is sent while level \<open>p'\<close> has data: the run of a more urgent level is used up, and
  one before a less urgent level is not.
\<close>

lemma emission_runs:
  assumes inv: "cycle_inv h q (SScan p n had)" and n: "n < 16" "p < PRIORITY_LEVELS"
    and check: "cycle_inv (h @ [(p, s, x)]) q1 (SCheck p (Suc n) True)"
    and p': "p' < PRIORITY_LEVELS" "\<not> level_empty q1 p'" "p' \<noteq> p \<Longrightarrow> \<not> level_empty q p'"
  shows "(p' < p \<longrightarrow> run_of p' 16 h) \<and> (p < p' \<longrightarrow> \<not> run_of p 16 h)"
proof (intro conjI impI)
  show "run_of p' 16 h" if "p' < p" using inv p' that n by auto
  show "\<not> run_of p 16 h" if "p < p'"
  proof
    assume "run_of p 16 h"
    then have "run_of p (Suc n) h" using n run_of_mono [of p 16 h "Suc n"] by simp
    with check have "lower_empty q1 p" by simp
    with p' that show False by simp
  qed
qed

text \<open>What is still queued at a more or less urgent level when a message is sent in a cycle.\<close>

lemma cycle_emission:
  assumes "scan_cycle rank q pc = (q', pc', out)" "cycle_inv h q pc" "wf_queue q"
    "out = xs @ (p, s, d) # ys" "(p', s', d') \<in> set ys"
  shows "(p' < p \<longrightarrow> run_of p' 16 (h @ xs)) \<and> (p < p' \<longrightarrow> \<not> run_of p 16 (h @ xs))"
  using assms
proof (induction arbitrary: h xs rule: scan_cycle_run)
  case (stop q pc)
  then show ?case by simp
next
  case (step q pc q1 pc1 o1 q' pc' o2)
  have wf1: "wf_queue q1" and inv1: "cycle_inv (h @ o1) q1 pc1"
    using step wf_scan_step cycle_inv_step by blast+
  from step(3) show ?case
  proof (cases rule: scan_step_cases)
    case idle
    then show ?thesis using step.IH [of h xs] inv1 wf1 step.prems by simp
  next
    case (emit p0 n had x s0 m)
    show ?thesis
    proof (cases xs)
      case (Cons e xs')
      with emit step.prems have "o2 = xs' @ (p, s, d) # ys" "e = (p0, s0, x)" by auto
      then show ?thesis using step.IH [of "h @ o1" xs'] inv1 wf1 step.prems Cons emit by simp
    next
      case Nil
      with emit step.prems have p0: "p0 = p" "ys = o2" by auto
      have "d' \<in> set (emitted_by p' s' o2)" using step.prems p0 by (auto intro: emitted_pending)
      then have "pending q1 p' s' \<noteq> []" using scan_cycle_pending [OF step(4), of p' s'] by auto
      then have p': "p' < PRIORITY_LEVELS" "\<not> level_empty q1 p'"
        using wf1 level_empty_iff by (auto simp: pending_def wf_queue_length split: if_splits)
      then have ne: "\<not> level_empty q p'" if "p' \<noteq> p"
        using that emit p0 by (simp add: level_empty_other)
      have inv: "cycle_inv h q (SScan p n had)" and n: "n < 16" "p < PRIORITY_LEVELS"
        using step.prems emit p0 by (auto simp: MAX_CONSECUTIVE_PRIORITY_ITEMS_def)
      have check: "cycle_inv (h @ [(p, s0, x)]) q1 (SCheck p (Suc n) True)" using inv1 emit p0 by simp
      show ?thesis using emission_runs [OF inv n check p' ne] Nil by simp
    qed
  next
    case lost
    then show ?thesis by simp
  qed
qed

lemma cycle_inv_start: "cycle_inv [] q (SScan 0 0 False)"
  by (simp add: run_of_def)

text \<open>A concrete cycle: seventeen urgent messages and one of medium priority.\<close>

definition burst_queue :: pqueue where
  "burst_queue = new_queue[0 := [(''db'', replicate 17 [1])], 10 := [(''42'', [[2]])]]"

lemma wf_burst_queue: "wf_queue burst_queue"
  by code_simp

lemma burst_cycle:
  obtains q where "scan_cycle (\<lambda>_ _. 0) burst_queue (SScan 0 0 False)
    = (q, SWait, replicate 16 (0, ''db'', [1]) @ (10, ''42'', [2]) # [(0, ''db'', [1])])"
proof -
  have "snd (scan_cycle (\<lambda>_ _. 0) burst_queue (SScan 0 0 False)) =
      (SWait, replicate 16 (0, ''db'', [1]) @ (10, ''42'', [2]) # [(0, ''db'', [1])])"
    by code_simp
  then show ?thesis by (metis prod.collapse that)
qed

subsection \<open>Properties\<close>

text \<open>
  C2. First in, first out under interleaving. In every history that mixes messages being queued, scheduler
  steps and pruning of empty sources in any order, for every priority and every source the messages
  handed to the writer followed by the messages still queued are exactly the messages that were
  queued before followed by the ones queued during the history, in the same order: nothing is lost,
  duplicated or reordered while the writer channel is open.
\<close>

theorem interleaved_fifo:
  assumes "wf_queue q" "list_all event_ok es" "run_events (q, pc) es = ((q', pc'), out)"
  shows "emitted_by p s out @ pending q' p s = pending q p s @ enqueued_by p s es"
  using run_events_fifo [OF assms(3,1,2), of p s] by simp

theorem interleaved_fifo_witness:
  "emitted_by 10 ''42'' [(10, ''42'', [1])]
     @ pending (enqueue (new_queue[10 := [(''42'', [])]]) 10 ''42'' [2]) 10 ''42''
   = pending new_queue 10 ''42''
     @ enqueued_by 10 ''42''
         [EvEnqueue 10 ''42'' [1], EvStep (\<lambda>_ _. 0) (\<lambda>_. False) True True, EvEnqueue 10 ''42'' [2]]"
proof (rule interleaved_fifo [where pc = "SScan 10 0 False" and pc' = "SCheck 10 1 True"])
  show "wf_queue new_queue" by (rule wf_new_queue)
  have "enqueue new_queue 10 ''42'' [1] ! 10 = [(''42'', [[1]])]"
    by (simp add: enqueue_def new_queue_def PRIORITY_LEVELS_def entry_push_back_def q_get_def)
  moreover have "pop_any (\<lambda>_. 0) [(''42'', [[1]])] = Some ([1], ''42'', [(''42'', [])])"
    by (simp add: pop_any_def q_get_def)
  ultimately show "run_events (new_queue, SScan 10 0 False)
      [EvEnqueue 10 ''42'' [1], EvStep (\<lambda>_ _. 0) (\<lambda>_. False) True True, EvEnqueue 10 ''42'' [2]]
    = ((enqueue (new_queue[10 := [(''42'', [])]]) 10 ''42'' [2], SCheck 10 1 True), [(10, ''42'', [1])])"
    by (simp add: scan_step_def PRIORITY_LEVELS_def MAX_CONSECUTIVE_PRIORITY_ITEMS_def)
      (simp add: enqueue_def new_queue_def PRIORITY_LEVELS_def)
qed (simp add: PRIORITY_LEVELS_def)

lemma scan_cycle_empties:
  assumes "wf_queue q"
  shows "\<exists>q' out. scan_cycle rank q (SScan 0 0 False) = (q', SWait, out)
           \<and> (\<forall>p s. pending q' p s = []) \<and> (\<forall>p s. emitted_by p s out = pending q p s)"
proof -
  obtain q' pc' out where run: "scan_cycle rank q (SScan 0 0 False) = (q', pc', out)"
    by (metis prod.collapse)
  note end_state = cycle_inv_cycle [OF run cycle_inv_start assms]
  have empty: "pending q' p s = []" for p s
    using end_state level_empty_iff [of q' p] by (cases "p < PRIORITY_LEVELS") (auto simp: pending_def wf_queue_length)
  moreover have "emitted_by p s out = pending q p s" for p s
    using scan_cycle_pending [OF run, of p s] empty by simp
  ultimately show ?thesis using run end_state by blast
qed

text \<open>
  C3. A scheduler cycle drains the queue. Started on any well-formed queue and not interrupted by new
  messages, the scan loop terminates, returns to waiting with every level empty, and has handed over
  exactly the queued messages, each source in its order.
\<close>

theorem scan_cycle_drains:
  assumes "wf_queue q"
  shows "\<exists>q' out. scan_cycle rank q (SScan 0 0 False) = (q', SWait, out)
           \<and> (\<forall>p s. pending q' p s = []) \<and> (\<forall>p s. emitted_by p s out = pending q p s)"
  using assms by (rule scan_cycle_empties)

theorem scan_cycle_drains_witness:
  "\<exists>q' out. scan_cycle (\<lambda>_ s. length s) (enqueue (enqueue new_queue 10 ''7'' [1]) 0 ''db'' [2]) (SScan 0 0 False)
       = (q', SWait, out)
     \<and> (\<forall>p s. pending q' p s = [])
     \<and> (\<forall>p s. emitted_by p s out = pending (enqueue (enqueue new_queue 10 ''7'' [1]) 0 ''db'' [2]) p s)"
  by (rule scan_cycle_drains) (intro wf_enqueue wf_new_queue)

text \<open>
  C4. Urgency. In an uninterrupted cycle a message is sent before a waiting message of a more urgent
  priority only if the sixteen messages sent immediately before it all had that more urgent
  priority.
\<close>

theorem overtaking_only_after_cap:
  assumes "wf_queue q" "scan_cycle rank q (SScan 0 0 False) = (q', pc', xs @ (p, s, d) # ys)"
    "(p', s', d') \<in> set ys" "p' < p"
  shows "16 \<le> length xs \<and> (\<forall>e \<in> set (drop (length xs - 16) xs). fst e = p')"
proof -
  have "run_of p' 16 xs"
    using cycle_emission [OF assms(2) cycle_inv_start assms(1) refl assms(3)] assms(4) by simp
  then show ?thesis
    by (simp add: run_of_def take_rev list_all_iff)
qed

theorem overtaking_only_after_cap_witness:
  "\<exists>q. scan_cycle (\<lambda>_ _. 0) burst_queue (SScan 0 0 False)
       = (q, SWait, replicate 16 (0, ''db'', [1]) @ (10, ''42'', [2]) # [(0, ''db'', [1])])
     \<and> (\<forall>e \<in> set (drop (length (replicate 16 (0 :: nat, ''db'', [1 :: u8])) - 16)
                      (replicate 16 (0, ''db'', [1]))). fst e = (0 :: nat))"
proof -
  obtain q where run: "scan_cycle (\<lambda>_ _. 0) burst_queue (SScan 0 0 False)
      = (q, SWait, replicate 16 (0, ''db'', [1]) @ (10, ''42'', [2]) # [(0, ''db'', [1])])"
    by (rule burst_cycle)
  show ?thesis
    using run overtaking_only_after_cap [OF wf_burst_queue run, of 0 "''db''" "[1]"] by auto
qed

text \<open>
  No starvation beyond the cap. In an uninterrupted cycle, no more than sixteen consecutive messages of one
  priority are sent while a message of a less urgent priority is waiting.
\<close>

theorem burst_is_bounded:
  assumes "wf_queue q" "scan_cycle rank q (SScan 0 0 False) = (q', pc', xs @ (p, s, d) # ys)"
    "(p', s', d') \<in> set ys" "p < p'"
  shows "\<not> (16 \<le> length xs \<and> (\<forall>e \<in> set (drop (length xs - 16) xs). fst e = p))"
proof -
  have "\<not> run_of p 16 xs"
    using cycle_emission [OF assms(2) cycle_inv_start assms(1) refl assms(3)] assms(4) by simp
  then show ?thesis
    by (simp add: run_of_def take_rev list_all_iff)
qed

theorem burst_is_bounded_witness:
  "\<exists>q. scan_cycle (\<lambda>_ _. 0) burst_queue (SScan 0 0 False)
       = (q, SWait, replicate 15 (0, ''db'', [1]) @ (0, ''db'', [1]) # [(10, ''42'', [2]), (0, ''db'', [1])])
     \<and> \<not> (16 \<le> length (replicate 15 (0 :: nat, ''db'', [1 :: u8]))
          \<and> (\<forall>e \<in> set (drop (length (replicate 15 (0 :: nat, ''db'', [1 :: u8])) - 16)
                            (replicate 15 (0, ''db'', [1]))). fst e = 0))"
proof -
  have split: "replicate 16 (0, ''db'', [1]) @ (10, ''42'', [2]) # [(0, ''db'', [1])]
      = replicate 15 (0 :: nat, ''db'', [1 :: u8]) @ (0, ''db'', [1]) # [(10, ''42'', [2]), (0, ''db'', [1])]"
    by (simp add: numeral_eq_Suc)
  obtain q where run: "scan_cycle (\<lambda>_ _. 0) burst_queue (SScan 0 0 False)
      = (q, SWait, replicate 15 (0, ''db'', [1]) @ (0, ''db'', [1]) # [(10, ''42'', [2]), (0, ''db'', [1])])"
    using burst_cycle split by metis
  then show ?thesis
    using burst_is_bounded [OF wf_burst_queue run, of 10 "''42''" "[2]"] by auto
qed

end
