(* ===== verification/Websocket.thy ===== *)
theory Websocket
  imports Message_Queue Environment
begin

text \<open>
  The connection manager of \<^verbatim>\<open>src/src/src/websocket.rs\<close>. \<open>ws_client\<close> is \<^verbatim>\<open>TungsteniteWebsocketClient\<close>:
  its atomics, the outgoing queue, and the table of pending database requests. A \<^verbatim>\<open>oneshot\<close> channel is
  an entry of \<open>channels\<close>, named by its position; the table maps a request number to the channel whose
  sending half it holds, and dropping that half closes the channel. Notifications, frames handed to
  the writer task, spawned tasks and calls of the job and file handlers are effects, in the order they
  happen. The wall clock, the outcome of every \<^verbatim>\<open>try_lock\<close> and the outcome of a connection attempt are
  arguments.

  \<open>send_db_request\<close> runs between \<^verbatim>\<open>await\<close> points of other tasks, so besides the sequential function the
  theory has its atomic stages and the relation \<open>req_step\<close>, in which any number of requests interleave
  with responses, timeouts, disconnects and reconnects.
\<close>

abbreviation UPDATE_CHECK_INTERVAL_MS :: int where "UPDATE_CHECK_INTERVAL_MS \<equiv> 300000"

datatype oneshot = Pending | Delivered message | Closed

datatype handler =
  HandleJobSubmit | HandleJobCancel | HandleJobDelete | HandleFileDownload | HandleFileUpload
| HandleFileList

datatype ws_effect =
  NotifyDisconnect u64
| NotifyShutdown
| NotifyReconnect
| WritePing
| CallHandler handler message
| CheckForUpdates
| SpawnSupervisor

record connection_config =
  cc_url :: string
  cc_token :: string

record ws_client =
  server_ready :: bool
  db_request_counter :: u32
  db_request_promises :: "(u32 \<times> nat) list"
  db_request_timeout_ms :: u64
  queue :: pqueue
  data_ready :: bool
  ping_timestamp :: i64
  pong_timestamp :: i64
  connection_closed :: bool
  reconnectable :: bool
  supervisor_started :: bool
  connection_id :: u64
  connection_config :: "connection_config option"
  last_update_check :: i64
  channels :: "oneshot list"

definition new_internal :: ws_client where
  "new_internal =
     \<lparr>server_ready = False, db_request_counter = 0, db_request_promises = [],
      db_request_timeout_ms = 30000, queue = new_queue, data_ready = False,
      ping_timestamp = 0, pong_timestamp = 0, connection_closed = False, reconnectable = False,
      supervisor_started = False, connection_id = 0, connection_config = None,
      last_update_check = 0, channels = []\<rparr>"

definition millis_to_i64 :: "nat \<Rightarrow> i64" where
  "millis_to_i64 millis = (if millis < 2 ^ 63 then of_nat millis else 2 ^ 63 - 1)"

subsection \<open>Channels\<close>

definition close_channel :: "nat \<Rightarrow> oneshot list \<Rightarrow> oneshot list" where
  "close_channel t cs = (if t < length cs \<and> cs ! t = Pending then cs[t := Closed] else cs)"

definition insert_promise :: "u32 \<Rightarrow> nat \<Rightarrow> ws_client \<Rightarrow> ws_client" where
  "insert_promise r t c =
     c\<lparr>db_request_promises := AList.update r t (db_request_promises c),
       channels := (case map_of (db_request_promises c) r of
                      None \<Rightarrow> channels c | Some old \<Rightarrow> close_channel old (channels c))\<rparr>"

definition remove_promise :: "u32 \<Rightarrow> ws_client \<Rightarrow> ws_client" where
  "remove_promise r c =
     c\<lparr>db_request_promises := AList.delete r (db_request_promises c),
       channels := (case map_of (db_request_promises c) r of
                      None \<Rightarrow> channels c | Some t \<Rightarrow> close_channel t (channels c))\<rparr>"

definition take_promises :: "ws_client \<Rightarrow> ws_client" where
  "take_promises c =
     c\<lparr>db_request_promises := [],
       channels := fold close_channel (map snd (db_request_promises c)) (channels c)\<rparr>"

subsection \<open>Pings, disconnects and queued messages\<close>

definition handle_pong :: "nat \<Rightarrow> u64 \<Rightarrow> ws_client \<Rightarrow> ws_client" where
  "handle_pong now conn_id c =
     (if connection_id c \<noteq> conn_id then c else c\<lparr>pong_timestamp := millis_to_i64 now\<rparr>)"

definition check_pings_internal :: "ws_client \<Rightarrow> unit result" where
  "check_pings_internal c =
     (if ping_timestamp c \<noteq> 0 \<and> pong_timestamp c = 0
      then Inl ''Websocket timed out waiting for pong'' else Inr ())"

definition handle_disconnect :: "(nat \<Rightarrow> bool) \<Rightarrow> u64 \<Rightarrow> ws_client \<Rightarrow> ws_client \<times> ws_effect list" where
  "handle_disconnect contended conn_id c =
     (if connection_id c \<noteq> conn_id then (c, [])
      else
        let was_closed = connection_closed c;
            c1 = c\<lparr>connection_closed := True, server_ready := False,
                   queue := fst (clear_queued_messages contended (queue c))\<rparr>;
            c2 = take_promises c1
        in (c2, if was_closed then []
                else [NotifyDisconnect conn_id] @ (if reconnectable c then [] else [NotifyShutdown])))"

definition queue_message :: "string \<Rightarrow> bytes \<Rightarrow> priority \<Rightarrow> ws_client \<Rightarrow> ws_client" where
  "queue_message src d p c =
     (if connection_closed c then c
      else c\<lparr>queue := enqueue (queue c) (priority_level p) src d, data_ready := True\<rparr>)"

text \<open>
  One tick of the ping task; \<open>None\<close> when the task returns. Sending to the writer channel fails once
  the writer task has dropped its receiving half.
\<close>

definition ping_tick ::
  "(nat \<Rightarrow> bool) \<Rightarrow> nat \<Rightarrow> bool \<Rightarrow> u64 \<Rightarrow> ws_client \<Rightarrow> ws_client \<times> ws_effect list \<times> bool" where
  "ping_tick contended now writer_open conn_id c =
     (if connection_id c \<noteq> conn_id then (c, [], False)
      else if connection_closed c then (c, [], False)
      else case check_pings_internal c of
             Inl e \<Rightarrow> (case handle_disconnect contended conn_id c of (c', eff) \<Rightarrow> (c', eff, False))
           | Inr _ \<Rightarrow>
               let c1 = c\<lparr>pong_timestamp := 0, ping_timestamp := millis_to_i64 now\<rparr>
               in if writer_open then (c1, [WritePing], True)
                  else (case handle_disconnect contended conn_id c1 of (c', eff) \<Rightarrow> (c', eff, False)))"

text \<open>One turn of the writer task's loop: a message to send, its channel closed, or a periodic flush.\<close>

datatype writer_event = WriterSend "unit result" | WriterChannelClosed | WriterFlush "unit result"

definition writer_step ::
  "(nat \<Rightarrow> bool) \<Rightarrow> u64 \<Rightarrow> writer_event \<Rightarrow> ws_client \<Rightarrow> ws_client \<times> ws_effect list \<times> bool" where
  "writer_step contended conn_id ev c =
     (if connection_id c \<noteq> conn_id then (c, [], False)
      else if connection_closed c then (c, [], False)
      else case ev of
             WriterChannelClosed \<Rightarrow> (c, [], False)
           | WriterSend (Inr _) \<Rightarrow> (c, [], True)
           | WriterFlush (Inr _) \<Rightarrow> (c, [], True)
           | WriterSend (Inl e) \<Rightarrow> (case handle_disconnect contended conn_id c of (c', eff) \<Rightarrow> (c', eff, False))
           | WriterFlush (Inl e) \<Rightarrow> (case handle_disconnect contended conn_id c of (c', eff) \<Rightarrow> (c', eff, False)))"

definition prune_tick :: "(nat \<Rightarrow> bool) \<Rightarrow> u64 \<Rightarrow> ws_client \<Rightarrow> ws_client \<times> bool" where
  "prune_tick contended conn_id c =
     (if connection_id c \<noteq> conn_id then (c, False)
      else if connection_closed c then (c, False)
      else (c\<lparr>queue := prune_sources contended (queue c)\<rparr>, True))"

text \<open>The scheduler task when \<^verbatim>\<open>data_ready\<close> wakes it: the permit is consumed.\<close>

definition sched_wake :: "u64 \<Rightarrow> ws_client \<Rightarrow> ws_client \<times> sched_pc" where
  "sched_wake conn_id c =
     (let c1 = c\<lparr>data_ready := False\<rparr>
      in if connection_id c \<noteq> conn_id then (c1, SExit)
         else if \<not> server_ready c then (c1, SWait)
         else if connection_closed c then (c1, SExit)
         else (c1, SScan 0 0 False))"

subsection \<open>Incoming messages\<close>

definition handle_message :: "u64 \<Rightarrow> message \<Rightarrow> ws_client \<Rightarrow> ws_client \<times> ws_effect list" where
  "handle_message conn_id msg c =
     (if connection_id c \<noteq> conn_id then (c, [])
      else if msg_id msg = SERVER_READY then
        (c\<lparr>server_ready := True, data_ready := True\<rparr>, [NotifyReconnect])
      else if msg_id msg = DB_RESPONSE then
        (case pop_uint msg of (db_request_id, msg') \<Rightarrow>
           case map_of (db_request_promises c) db_request_id of
             None \<Rightarrow> (c, [])
           | Some t \<Rightarrow>
               (c\<lparr>db_request_promises := AList.delete db_request_id (db_request_promises c),
                  channels := (channels c)[t := Delivered msg']\<rparr>, []))
      else if msg_id msg = SUBMIT_JOB then (c, [CallHandler HandleJobSubmit msg])
      else if msg_id msg = CANCEL_JOB then (c, [CallHandler HandleJobCancel msg])
      else if msg_id msg = DELETE_JOB then (c, [CallHandler HandleJobDelete msg])
      else if msg_id msg = FILE_DOWNLOAD then (c, [CallHandler HandleFileDownload msg])
      else if msg_id msg = UPLOAD_FILE then (c, [CallHandler HandleFileUpload msg])
      else if msg_id msg = FILE_LIST then (c, [CallHandler HandleFileList msg])
      else (c, []))"

definition handle_incoming_message :: "u64 \<Rightarrow> bytes \<Rightarrow> ws_client \<Rightarrow> ws_client \<times> ws_effect list" where
  "handle_incoming_message conn_id d c = handle_message conn_id (from_data d) c"

definition handle_ws_message ::
  "(nat \<Rightarrow> bool) \<Rightarrow> nat \<Rightarrow> u64 \<Rightarrow> ws_frame result \<Rightarrow> ws_client \<Rightarrow> ws_client \<times> ws_effect list \<times> bool" where
  "handle_ws_message contended now conn_id msg c =
     (case msg of
        Inr (Binary d) \<Rightarrow> (case handle_incoming_message conn_id d c of (c', eff) \<Rightarrow> (c', eff, True))
      | Inr (Text s) \<Rightarrow>
          (case handle_incoming_message conn_id (as_bytes s) c of (c', eff) \<Rightarrow> (c', eff, True))
      | Inr Ping \<Rightarrow> (c, [], True)
      | Inr Pong \<Rightarrow> (handle_pong now conn_id c, [], True)
      | Inr Close \<Rightarrow> (case handle_disconnect contended conn_id c of (c', eff) \<Rightarrow> (c', eff, False))
      | Inr Frame \<Rightarrow> (c, [], True)
      | Inl e \<Rightarrow> (case handle_disconnect contended conn_id c of (c', eff) \<Rightarrow> (c', eff, False)))"

text \<open>The reader task over the frames it receives; the stream ends after the last one.\<close>

fun reader_loop ::
  "(nat \<Rightarrow> bool) \<Rightarrow> nat \<Rightarrow> u64 \<Rightarrow> ws_frame result list \<Rightarrow> ws_client \<Rightarrow> ws_client \<times> ws_effect list" where
  "reader_loop contended now conn_id [] c = handle_disconnect contended conn_id c"
| "reader_loop contended now conn_id (m # ms) c =
     (if connection_id c \<noteq> conn_id then (c, [])
      else case handle_ws_message contended now conn_id m c of (c1, eff, continue) \<Rightarrow>
        if continue then
          (case reader_loop contended now conn_id ms c1 of (c2, eff2) \<Rightarrow> (c2, eff @ eff2))
        else (case handle_disconnect contended conn_id c1 of (c2, eff2) \<Rightarrow> (c2, eff @ eff2)))"

subsection \<open>Connections\<close>

definition start_with_token :: "string \<Rightarrow> string \<Rightarrow> bool \<Rightarrow> ws_client \<Rightarrow> ws_client \<times> ws_effect list" where
  "start_with_token url token reconn c =
     (c\<lparr>reconnectable := reconn, connection_closed := False, server_ready := False,
        connection_config := Some \<lparr>cc_url = url, cc_token = token\<rparr>, supervisor_started := True\<rparr>,
      if supervisor_started c then [] else [SpawnSupervisor])"

text \<open>
  The state changes of \<^verbatim>\<open>run_connection\<close>: a fresh connection number is taken first, and once the
  handshake succeeds the flags of the previous connection are reset.
\<close>

definition connection_attempt :: "ws_client \<Rightarrow> ws_client \<times> u64" where
  "connection_attempt c = (c\<lparr>connection_id := connection_id c + 1\<rparr>, connection_id c + 1)"

definition connection_established :: "ws_client \<Rightarrow> ws_client" where
  "connection_established c =
     c\<lparr>connection_closed := False, server_ready := False, ping_timestamp := 0, pong_timestamp := 0\<rparr>"

definition reconnect_delay :: "u32 \<Rightarrow> nat" where
  "reconnect_delay attempt =
     (if attempt = 0 then 1 else if attempt = 1 then 2 else if attempt = 2 then 4
      else if attempt = 3 then 8 else if attempt = 4 then 16 else 30)"

definition check_for_updates_on_reconnect :: "nat \<Rightarrow> ws_client \<Rightarrow> ws_client \<times> ws_effect list" where
  "check_for_updates_on_reconnect now c =
     (if reconnectable c
         \<and> sint (i64_saturating_sub (millis_to_i64 now) (last_update_check c)) \<ge> UPDATE_CHECK_INTERVAL_MS
      then (c\<lparr>last_update_check := millis_to_i64 now\<rparr>, [CheckForUpdates])
      else (c, []))"

definition u32_saturating_inc :: "u32 \<Rightarrow> u32" where
  "u32_saturating_inc a = (if a = - 1 then a else a + 1)"

text \<open>
  \<^verbatim>\<open>run_connection\<close>: the attempt fails, or the connection is established and lasts until the reader
  task, fed with the frames of the session, has called \<^verbatim>\<open>handle_disconnect\<close>.
\<close>

definition run_connection ::
  "(nat \<Rightarrow> bool) \<Rightarrow> nat \<Rightarrow> ws_frame result list result \<Rightarrow> ws_client \<Rightarrow> ws_client \<times> ws_effect list" where
  "run_connection contended now session c =
     (case connection_attempt c of (c1, conn_id) \<Rightarrow>
        (case session of
           Inl e \<Rightarrow> (c1, [])
         | Inr frames \<Rightarrow> reader_loop contended now conn_id frames (connection_established c1)))"

text \<open>
  One round of \<^verbatim>\<open>supervise_connections\<close>. \<open>Some (attempt, delay)\<close> when the loop goes round again after
  sleeping \<open>delay\<close> seconds, \<open>None\<close> when the supervisor returns.
\<close>

definition supervise_round ::
  "(nat \<Rightarrow> bool) \<Rightarrow> nat \<Rightarrow> u32 \<Rightarrow> ws_frame result list result \<Rightarrow> ws_client
   \<Rightarrow> ws_client \<times> ws_effect list \<times> (u32 \<times> nat) option" where
  "supervise_round contended now attempt session c =
     (case connection_config c of
        None \<Rightarrow> (c\<lparr>connection_closed := True\<rparr>, [NotifyShutdown], None)
      | Some cfg \<Rightarrow>
          (case run_connection contended now session c of (c1, eff1) \<Rightarrow>
             (case session of
                Inr _ \<Rightarrow>
                  if \<not> reconnectable c1 then (c1, eff1, None)
                  else (case check_for_updates_on_reconnect now c1 of (c2, eff2) \<Rightarrow>
                          (c2, eff1 @ eff2, Some (u32_saturating_inc 0, reconnect_delay 0)))
              | Inl e \<Rightarrow>
                  let c2 = c1\<lparr>connection_closed := True, server_ready := False\<rparr>
                  in if \<not> reconnectable c2 then (c2, eff1 @ [NotifyShutdown], None)
                     else (case check_for_updates_on_reconnect now c2 of (c3, eff3) \<Rightarrow>
                             (c3, eff1 @ eff3, Some (u32_saturating_inc attempt, reconnect_delay attempt))))))"

text \<open>
  The supervisor over a sequence of rounds, each with its clock and its session. The result has the
  delays it sleeps for, and whether it is still in its loop.
\<close>

fun supervise_connections ::
  "(nat \<Rightarrow> bool) \<Rightarrow> u32 \<Rightarrow> (nat \<times> ws_frame result list result) list \<Rightarrow> ws_client
   \<Rightarrow> ws_client \<times> ws_effect list \<times> nat list \<times> bool" where
  "supervise_connections contended attempt [] c = (c, [], [], True)"
| "supervise_connections contended attempt ((now, session) # rs) c =
     (case supervise_round contended now attempt session c of
        (c1, eff1, None) \<Rightarrow> (c1, eff1, [], False)
      | (c1, eff1, Some (attempt', delay)) \<Rightarrow>
          (case supervise_connections contended attempt' rs c1 of (c2, eff2, ds, running) \<Rightarrow>
             (c2, eff1 @ eff2, delay # ds, running)))"

subsection \<open>Database requests\<close>

abbreviation disconnected_error :: string where
  "disconnected_error \<equiv> ''WebSocket is disconnected''"

definition wrap_request :: "u32 \<Rightarrow> message \<Rightarrow> message" where
  "wrap_request r m =
     append_raw_bytes (push_uint (message_new (msg_id m) (msg_priority m) (msg_source m)) r)
       (clone_payload_bytes m)"

text \<open>The stages of \<^verbatim>\<open>send_db_request\<close> up to the point where it awaits its channel.\<close>

definition db_check :: "ws_client \<Rightarrow> bool" where
  "db_check c \<longleftrightarrow> \<not> connection_closed c \<and> server_ready c"

definition db_take_id :: "ws_client \<Rightarrow> ws_client \<times> u32 \<times> nat" where
  "db_take_id c =
     (c\<lparr>db_request_counter := db_request_counter c + 1, channels := channels c @ [Pending]\<rparr>,
      db_request_counter c, length (channels c))"

definition db_queue :: "u32 \<Rightarrow> message \<Rightarrow> ws_client \<Rightarrow> ws_client" where
  "db_queue r m c = queue_message ''db'' (get_data (wrap_request r m)) Highest c"

definition db_recheck :: "u32 \<Rightarrow> ws_client \<Rightarrow> ws_client \<times> bool" where
  "db_recheck r c = (if connection_closed c then (remove_promise r c, False) else (c, True))"

definition send_db_request :: "message \<Rightarrow> ws_client \<Rightarrow> ws_client \<times> (u32 \<times> nat) result" where
  "send_db_request m c =
     (if \<not> db_check c then (c, Inl disconnected_error)
      else case db_take_id c of (c1, r, t) \<Rightarrow>
        case db_recheck r (db_queue r m (insert_promise r t c1)) of (c2, ok) \<Rightarrow>
          (c2, if ok then Inr (r, t) else Inl disconnected_error))"

text \<open>
  The awaiting half: the channel has a message, was closed, or the timeout fires while it is still
  pending, in which case the promise is removed.
\<close>

definition show_secs :: "u64 \<Rightarrow> string" where
  "show_secs ms = show_nat (unat ms div 1000)"

definition db_timeout :: "u32 \<Rightarrow> ws_client \<Rightarrow> ws_client \<times> message result" where
  "db_timeout r c =
     (remove_promise r c,
      Inl (''DB request timed out after '' @ show_secs (db_request_timeout_ms c) @ ''s''))"

definition db_poll :: "nat \<Rightarrow> ws_client \<Rightarrow> message result option" where
  "db_poll t c =
     (if t < length (channels c) then
        (case channels c ! t of
           Pending \<Rightarrow> None
         | Delivered m \<Rightarrow> Some (Inr m)
         | Closed \<Rightarrow> Some (Inl ''channel closed''))
      else None)"

subsection \<open>Interleaved requests\<close>

text \<open>
  Each request is a task, named by the channel it owns. \<open>TTaken\<close>: it has passed the first check and
  holds its number; \<open>TInserted\<close>, \<open>TQueued\<close>, \<open>TAwait\<close>: after the following stages; \<open>TDone\<close>: it has
  returned. The environment delivers messages, disconnects and reconnects at any time.
\<close>

datatype task_pc = TTaken | TInserted | TQueued | TAwait | TDone

record req_sys =
  rs_client :: ws_client
  rs_tasks :: "(u32 \<times> task_pc) list"

definition init_sys :: req_sys where
  "init_sys = \<lparr>rs_client = new_internal, rs_tasks = []\<rparr>"

definition set_pc :: "nat \<Rightarrow> task_pc \<Rightarrow> req_sys \<Rightarrow> req_sys" where
  "set_pc t pc s = s\<lparr>rs_tasks := (rs_tasks s)[t := (fst (rs_tasks s ! t), pc)]\<rparr>"

inductive req_step :: "req_sys \<Rightarrow> req_sys \<Rightarrow> bool" where
  begin_request: "db_check (rs_client s) \<Longrightarrow> db_take_id (rs_client s) = (c, r, t) \<Longrightarrow>
    req_step s (s\<lparr>rs_client := c, rs_tasks := rs_tasks s @ [(r, TTaken)]\<rparr>)"
| insert_step: "t < length (rs_tasks s) \<Longrightarrow> rs_tasks s ! t = (r, TTaken) \<Longrightarrow>
    req_step s (set_pc t TInserted (s\<lparr>rs_client := insert_promise r t (rs_client s)\<rparr>))"
| queue_step: "t < length (rs_tasks s) \<Longrightarrow> rs_tasks s ! t = (r, TInserted) \<Longrightarrow>
    req_step s (set_pc t TQueued (s\<lparr>rs_client := db_queue r m (rs_client s)\<rparr>))"
| recheck_step: "t < length (rs_tasks s) \<Longrightarrow> rs_tasks s ! t = (r, TQueued) \<Longrightarrow>
    db_recheck r (rs_client s) = (c, ok) \<Longrightarrow>
    req_step s (set_pc t (if ok then TAwait else TDone) (s\<lparr>rs_client := c\<rparr>))"
| finish_step: "t < length (rs_tasks s) \<Longrightarrow> rs_tasks s ! t = (r, TAwait) \<Longrightarrow>
    db_poll t (rs_client s) = Some result \<Longrightarrow> req_step s (set_pc t TDone s)"
| timeout_step: "t < length (rs_tasks s) \<Longrightarrow> rs_tasks s ! t = (r, TAwait) \<Longrightarrow>
    db_poll t (rs_client s) = None \<Longrightarrow> db_timeout r (rs_client s) = (c, result) \<Longrightarrow>
    req_step s (set_pc t TDone (s\<lparr>rs_client := c\<rparr>))"
| message_step: "handle_message conn_id msg (rs_client s) = (c, eff) \<Longrightarrow>
    req_step s (s\<lparr>rs_client := c\<rparr>)"
| disconnect_step: "handle_disconnect contended conn_id (rs_client s) = (c, eff) \<Longrightarrow>
    req_step s (s\<lparr>rs_client := c\<rparr>)"
| attempt_step: "connection_attempt (rs_client s) = (c, conn_id) \<Longrightarrow>
    req_step s (s\<lparr>rs_client := c\<rparr>)"
| established_step: "req_step s (s\<lparr>rs_client := connection_established (rs_client s)\<rparr>)"

definition reachable :: "req_sys \<Rightarrow> bool" where
  "reachable = req_step\<^sup>*\<^sup>* init_sys"

definition active :: "task_pc \<Rightarrow> bool" where
  "active pc \<longleftrightarrow> pc = TInserted \<or> pc = TQueued \<or> pc = TAwait"

text \<open>
  What holds between the promise table, the channels and the tasks: every promise belongs to a task
  that is still waiting for it, and every waiting task whose channel is unresolved has its promise.
\<close>

definition promise_inv :: "(u32 \<times> nat) list \<Rightarrow> oneshot list \<Rightarrow> (u32 \<times> task_pc) list \<Rightarrow> bool" where
  "promise_inv ps cs ts \<longleftrightarrow>
     length cs = length ts \<and> distinct (map fst ps)
     \<and> (\<forall>r t. map_of ps r = Some t \<longrightarrow>
          t < length ts \<and> fst (ts ! t) = r \<and> active (snd (ts ! t)) \<and> cs ! t = Pending)
     \<and> (\<forall>t < length ts. active (snd (ts ! t)) \<and> cs ! t = Pending \<longrightarrow> map_of ps (fst (ts ! t)) = Some t)
     \<and> (\<forall>t < length ts. snd (ts ! t) = TTaken \<longrightarrow> cs ! t = Pending)"

definition req_inv :: "req_sys \<Rightarrow> bool" where
  "req_inv s \<longleftrightarrow>
     promise_inv (db_request_promises (rs_client s)) (channels (rs_client s)) (rs_tasks s)
     \<and> wf_queue (queue (rs_client s))"

subsection \<open>Lemmas: the promise table\<close>

lemma length_close_channel [simp]: "length (close_channel t cs) = length cs"
  by (simp add: close_channel_def)

lemma nth_close_channel:
  "u < length cs \<Longrightarrow> close_channel t cs ! u = (if u = t \<and> cs ! u = Pending then Closed else cs ! u)"
  by (auto simp: close_channel_def)

lemma length_fold_close [simp]: "length (fold close_channel xs cs) = length cs"
  by (induction xs arbitrary: cs) simp_all

lemma nth_fold_close:
  "u < length cs \<Longrightarrow>
   fold close_channel xs cs ! u = (if u \<in> set xs \<and> cs ! u = Pending then Closed else cs ! u)"
  by (induction xs arbitrary: cs) (simp_all add: nth_close_channel)

lemma active_simps [simp]:
  "active TInserted" "active TQueued" "active TAwait" "\<not> active TTaken" "\<not> active TDone"
  by (simp_all add: active_def)

lemma promise_inv_D:
  assumes "promise_inv ps cs ts" "map_of ps r = Some t"
  shows "t < length ts" "fst (ts ! t) = r" "active (snd (ts ! t))" "cs ! t = Pending"
  using assms unfolding promise_inv_def by blast+

lemma promise_inv_taken: "promise_inv ps cs ts \<Longrightarrow> snd (ts ! t) = TTaken \<Longrightarrow> map_of ps r \<noteq> Some t"
  using promise_inv_D(3) [of ps cs ts r t] by auto

lemma promise_inv_remove:
  assumes inv: "promise_inv ps cs ts" and "length cs' = length cs"
    and "\<And>u. u < length cs \<Longrightarrow> map_of ps r \<noteq> Some u \<Longrightarrow> cs' ! u = cs ! u"
    and "\<And>u. map_of ps r = Some u \<Longrightarrow> cs' ! u \<noteq> Pending"
  shows "promise_inv (AList.delete r ps) cs' ts"
proof -
  note P = inv [unfolded promise_inv_def]
  have c: "t < length ts \<and> fst (ts ! t) = r' \<and> active (snd (ts ! t)) \<and> cs' ! t = Pending"
    if "map_of ps r' = Some t" "r' \<noteq> r" for r' t
  proof -
    have "map_of ps r \<noteq> Some t" using P that by (metis)
    then show ?thesis using P that assms(3) [of t] by auto
  qed
  have d: "r' \<noteq> r \<and> map_of ps r' = Some t"
    if "t < length ts" "active (snd (ts ! t))" "cs' ! t = Pending" "fst (ts ! t) = r'" for r' t
  proof -
    have "map_of ps r \<noteq> Some t" using that assms(4) by blast
    then have "cs ! t = Pending" using that P assms(3) [of t] by simp
    then show ?thesis using P that \<open>map_of ps r \<noteq> Some t\<close> by auto
  qed
  have e: "cs' ! t = Pending" if "t < length ts" "snd (ts ! t) = TTaken" for t
  proof -
    have "map_of ps r \<noteq> Some t" using promise_inv_taken [OF inv that(2)] .
    then show ?thesis using P that assms(3) [of t] by simp
  qed
  show ?thesis
    unfolding promise_inv_def
  proof (intro conjI)
    show "length cs' = length ts" "distinct (map fst (AList.delete r ps))"
      using P assms(2) by (simp_all add: distinct_delete)
    show "\<forall>r' t. map_of (AList.delete r ps) r' = Some t \<longrightarrow>
        t < length ts \<and> fst (ts ! t) = r' \<and> active (snd (ts ! t)) \<and> cs' ! t = Pending"
      using c by (simp add: delete_conv' split: if_splits)
    show "\<forall>t<length ts. active (snd (ts ! t)) \<and> cs' ! t = Pending \<longrightarrow>
        map_of (AList.delete r ps) (fst (ts ! t)) = Some t"
      using d by (simp add: delete_conv')
    show "\<forall>t<length ts. snd (ts ! t) = TTaken \<longrightarrow> cs' ! t = Pending"
      using e by blast
  qed
qed

lemma promise_inv_done:
  assumes "promise_inv ps cs ts" "t < length ts" "map_of ps (fst (ts ! t)) \<noteq> Some t"
  shows "promise_inv ps cs (ts[t := (fst (ts ! t), TDone)])"
proof -
  have "map_of ps r \<noteq> Some t" for r using assms by (auto simp: promise_inv_def)
  then show ?thesis using assms by (auto simp: promise_inv_def nth_list_update)
qed

lemma promise_inv_advance:
  assumes "promise_inv ps cs ts" "t < length ts" "active (snd (ts ! t))" "active pc"
  shows "promise_inv ps cs (ts[t := (fst (ts ! t), pc)])"
proof -
  have "pc \<noteq> TTaken" using assms(4) by auto
  with assms show ?thesis by (auto simp: promise_inv_def nth_list_update)
qed

lemma promise_inv_remove_done:
  assumes "promise_inv ps cs ts" "t < length ts" "fst (ts ! t) = r" "length cs' = length cs"
    and "\<And>u. u < length cs \<Longrightarrow> map_of ps r \<noteq> Some u \<Longrightarrow> cs' ! u = cs ! u"
    and "\<And>u. map_of ps r = Some u \<Longrightarrow> cs' ! u \<noteq> Pending"
  shows "promise_inv (AList.delete r ps) cs' (ts[t := (r, TDone)])"
proof -
  have "promise_inv (AList.delete r ps) cs' ts" using assms by (intro promise_inv_remove)
  then show ?thesis
    using promise_inv_done [of "AList.delete r ps" cs' ts t] assms by (simp add: delete_conv')
qed

lemma promise_inv_insert:
  assumes inv: "promise_inv ps cs ts" and t: "t < length ts" "ts ! t = (r, TTaken)"
  shows "promise_inv (AList.update r t ps)
    (case map_of ps r of None \<Rightarrow> cs | Some old \<Rightarrow> close_channel old cs) (ts[t := (r, TInserted)])"
    (is "promise_inv _ ?cs' _")
proof -
  note P = inv [unfolded promise_inv_def]
  have ne: "map_of ps r' \<noteq> Some t" for r' using promise_inv_taken [OF inv] t by simp
  have same: "?cs' ! u = cs ! u" if "u < length ts" "map_of ps r \<noteq> Some u" for u
    using that P by (auto simp: nth_close_channel split: option.split)
  have old: "?cs' ! u = Closed" if "map_of ps r = Some u" for u
    using that P by (auto simp: nth_close_channel)
  have len: "length ?cs' = length ts" using P by (auto split: option.split)
  have c: "u < length ts \<and> fst (ts ! u) = r' \<and> active (snd (ts ! u)) \<and> ?cs' ! u = Pending \<and> u \<noteq> t"
    if "map_of ps r' = Some u" "r' \<noteq> r" for r' u
  proof -
    have u: "u < length ts" "fst (ts ! u) = r'" "active (snd (ts ! u))" "cs ! u = Pending"
      using P that by auto
    moreover have "map_of ps r \<noteq> Some u" using P u(2) that(2) by auto
    ultimately show ?thesis using same [of u] ne that by auto
  qed
  have d: "fst (ts ! u) \<noteq> r \<and> map_of ps (fst (ts ! u)) = Some u"
    if "u < length ts" "u \<noteq> t" "active (snd (ts ! u))" "?cs' ! u = Pending" for u
  proof -
    have no: "map_of ps r \<noteq> Some u" using old that by auto
    then have "cs ! u = Pending" using same that by simp
    then show ?thesis using P that no by metis
  qed
  have "?cs' ! t = Pending" using same [of t] ne P t by auto
  moreover have "?cs' ! u = Pending" if "u < length ts" "snd (ts ! u) = TTaken" for u
  proof -
    have "map_of ps r \<noteq> Some u" using promise_inv_taken [OF inv that(2)] .
    then show ?thesis using same that P by simp
  qed
  ultimately show ?thesis
    unfolding promise_inv_def using len t c d P
    by (auto simp: update_conv distinct_update nth_list_update)
qed

lemma promise_inv_take:
  assumes inv: "promise_inv ps cs ts"
  shows "promise_inv [] (fold close_channel (map snd ps) cs) ts"
proof -
  note P = inv [unfolded promise_inv_def]
  have mem: "u \<in> set (map snd ps) \<longleftrightarrow> (\<exists>r. map_of ps r = Some u)" for u
    using P by (force simp: map_of_eq_Some_iff)
  have "fold close_channel (map snd ps) cs ! u \<noteq> Pending" if "u < length ts" "active (snd (ts ! u))" for u
    using P that mem [of u] by (auto simp: nth_fold_close)
  moreover have "fold close_channel (map snd ps) cs ! u = Pending"
    if "u < length ts" "snd (ts ! u) = TTaken" for u
    using P that mem [of u] promise_inv_taken [OF inv that(2)] by (simp add: nth_fold_close)
  ultimately show ?thesis using P by (auto simp: promise_inv_def)
qed

lemma promise_inv_new:
  "promise_inv ps cs ts \<Longrightarrow> promise_inv ps (cs @ [Pending]) (ts @ [(r, TTaken)])"
  by (auto simp: promise_inv_def nth_append less_Suc_eq)

subsection \<open>Lemmas: every step keeps the invariant\<close>

lemma length_clear [simp]: "length (fst (clear_queued_messages contended q)) = length q"
  by (simp add: clear_queued_messages_def)

lemma wf_clear: "wf_queue q \<Longrightarrow> wf_queue (fst (clear_queued_messages contended q))"
  by (auto simp: wf_queue_def clear_queued_messages_def)

lemma queue_message_frame [simp]:
  "db_request_promises (queue_message src d p c) = db_request_promises c"
  "channels (queue_message src d p c) = channels c"
  "connection_closed (queue_message src d p c) = connection_closed c"
  "server_ready (queue_message src d p c) = server_ready c"
  "connection_id (queue_message src d p c) = connection_id c"
  "db_request_counter (queue_message src d p c) = db_request_counter c"
  by (simp_all add: queue_message_def)

lemma wf_queue_message: "wf_queue (queue c) \<Longrightarrow> wf_queue (queue (queue_message src d p c))"
  by (simp add: queue_message_def wf_enqueue)

lemma promise_frame [simp]:
  "queue (insert_promise r t c) = queue c" "queue (remove_promise r c) = queue c"
  "connection_closed (insert_promise r t c) = connection_closed c"
  by (simp_all add: insert_promise_def remove_promise_def)

lemma promise_inv_remove_promise:
  assumes inv: "promise_inv (db_request_promises c) (channels c) ts"
    and t: "t < length ts" "fst (ts ! t) = r"
  shows "promise_inv (db_request_promises (remove_promise r c)) (channels (remove_promise r c))
    (ts[t := (r, TDone)])"
proof -
  have lt: "u < length (channels c)" if "map_of (db_request_promises c) r = Some u" for u
    using promise_inv_D(1) [OF inv that] inv by (simp add: promise_inv_def)
  have c': "db_request_promises (remove_promise r c) = AList.delete r (db_request_promises c)"
    "channels (remove_promise r c) = (case map_of (db_request_promises c) r of
       None \<Rightarrow> channels c | Some t \<Rightarrow> close_channel t (channels c))"
    by (simp_all add: remove_promise_def)
  show ?thesis
    unfolding c'
    by (rule promise_inv_remove_done [OF inv t])
      (auto simp: nth_close_channel lt promise_inv_D(4) [OF inv] split: option.splits)
qed

lemma promise_inv_handle_message:
  assumes inv: "promise_inv (db_request_promises c) (channels c) ts"
    and "handle_message conn_id msg c = (c', eff)"
  shows "promise_inv (db_request_promises c') (channels c') ts"
proof (cases "connection_id c = conn_id \<and> msg_id msg = DB_RESPONSE")
  case True
  obtain r msg' where pop: "pop_uint msg = (r, msg')" by (cases "pop_uint msg")
  show ?thesis
  proof (cases "map_of (db_request_promises c) r")
    case None
    with True pop assms show ?thesis by (auto simp: handle_message_def)
  next
    case (Some t)
    with True pop assms(2) have c': "db_request_promises c' = AList.delete r (db_request_promises c)"
      "channels c' = (channels c)[t := Delivered msg']"
      by (auto simp: handle_message_def)
    have "t < length (channels c)" using promise_inv_D(1) [OF inv Some] inv by (simp add: promise_inv_def)
    then show ?thesis unfolding c' by (intro promise_inv_remove [OF inv]) (auto simp: Some)
  qed
next
  case False
  then show ?thesis using assms by (auto simp: handle_message_def split: if_splits)
qed

lemma handle_message_queue: "handle_message conn_id msg c = (c', eff) \<Longrightarrow> queue c' = queue c"
  by (auto simp: handle_message_def split: if_splits prod.splits option.splits)

lemma req_inv_step: "req_step s s' \<Longrightarrow> req_inv s \<Longrightarrow> req_inv s'"
proof (induction rule: req_step.induct)
  case (begin_request s c r t)
  then show ?case by (auto simp: req_inv_def db_take_id_def promise_inv_new)
next
  case (insert_step t s r)
  then show ?case
    using promise_inv_insert [of "db_request_promises (rs_client s)" "channels (rs_client s)" "rs_tasks s" t r]
    by (simp add: req_inv_def set_pc_def) (simp add: insert_promise_def)
next
  case (queue_step t s r m)
  then show ?case
    using promise_inv_advance [of "db_request_promises (rs_client s)" "channels (rs_client s)" "rs_tasks s" t TQueued]
    by (simp add: req_inv_def set_pc_def db_queue_def wf_queue_message)
next
  case (recheck_step t s r c ok)
  show ?case
  proof (cases ok)
    case True
    with recheck_step show ?thesis
      using promise_inv_advance [of "db_request_promises c" "channels c" "rs_tasks s" t TAwait]
      by (simp add: req_inv_def set_pc_def db_recheck_def split: if_splits)
  next
    case False
    with recheck_step have "c = remove_promise r (rs_client s)" by (auto simp: db_recheck_def split: if_splits)
    with False recheck_step show ?thesis
      using promise_inv_remove_promise [of "rs_client s" "rs_tasks s" t r]
      by (simp add: req_inv_def set_pc_def)
  qed
next
  case (finish_step t s r result)
  then have "channels (rs_client s) ! t \<noteq> Pending" by (auto simp: db_poll_def split: if_splits)
  then have "map_of (db_request_promises (rs_client s)) (fst (rs_tasks s ! t)) \<noteq> Some t"
    using promise_inv_D(4) finish_step by (fastforce simp: req_inv_def)
  then show ?case
    using finish_step promise_inv_done [of "db_request_promises (rs_client s)" "channels (rs_client s)" "rs_tasks s" t]
    by (simp add: req_inv_def set_pc_def)
next
  case (timeout_step t s r c result)
  then show ?case
    using promise_inv_remove_promise [of "rs_client s" "rs_tasks s" t r]
    by (auto simp: req_inv_def set_pc_def db_timeout_def)
next
  case (message_step conn_id msg s c eff)
  then show ?case
    by (auto simp: req_inv_def handle_message_queue intro: promise_inv_handle_message)
next
  case (disconnect_step contended conn_id s c eff)
  then show ?case
    by (auto simp: req_inv_def handle_disconnect_def take_promises_def Let_def wf_clear
        intro: promise_inv_take split: if_splits)
next
  case (attempt_step s c conn_id)
  then show ?case by (auto simp: req_inv_def connection_attempt_def)
next
  case (established_step s)
  then show ?case by (auto simp: req_inv_def connection_established_def)
qed

lemma req_inv_init: "req_inv init_sys"
  by (simp add: req_inv_def init_sys_def new_internal_def promise_inv_def wf_new_queue)

interpretation req: invariant_system init_sys req_step req_inv
  by unfold_locales (rule req_inv_init, rule req_inv_step)

lemma reachable_inv: "reachable s \<Longrightarrow> req_inv s"
  unfolding reachable_def by (rule req.inv_always)

lemma reachable_start: "reachable init_sys"
  by (simp add: reachable_def)

lemma reachable_step: "reachable s \<Longrightarrow> req_step s s' \<Longrightarrow> reachable s'"
  unfolding reachable_def by (rule rtranclp.rtrancl_into_rtrancl)


subsection \<open>Lemmas: connections\<close>

lemma handle_disconnect_frame:
  assumes "handle_disconnect contended conn_id c = (c', eff)"
  shows "connection_id c' = connection_id c" "reconnectable c' = reconnectable c"
    "connection_config c' = connection_config c" "supervisor_started c' = supervisor_started c"
    "connection_id c = conn_id \<Longrightarrow> connection_closed c' \<and> \<not> server_ready c'"
    "connection_id c = conn_id \<Longrightarrow> connection_closed c \<Longrightarrow> eff = []"
  using assms by (auto simp: handle_disconnect_def take_promises_def Let_def split: if_splits)

lemma handle_message_frame:
  assumes "handle_message conn_id msg c = (c', eff)"
  shows "connection_id c' = connection_id c" "reconnectable c' = reconnectable c"
    "connection_config c' = connection_config c" "connection_closed c' = connection_closed c"
  using assms by (auto simp: handle_message_def split: if_splits prod.splits option.splits)

lemma handle_ws_message_frame:
  assumes "handle_ws_message contended now conn_id m c = (c', eff, continue)"
  shows "connection_id c' = connection_id c" "reconnectable c' = reconnectable c"
    "connection_config c' = connection_config c"
  using assms
  by (auto simp: handle_ws_message_def handle_incoming_message_def handle_pong_def
      dest: handle_disconnect_frame handle_message_frame
      split: sum.splits ws_frame.splits prod.splits if_splits)

lemma reader_loop_frame:
  assumes "reader_loop contended now conn_id ms c = (c', eff)"
  shows "connection_id c' = connection_id c \<and> reconnectable c' = reconnectable c
    \<and> connection_config c' = connection_config c
    \<and> (connection_id c = conn_id \<longrightarrow> connection_closed c' \<and> \<not> server_ready c')"
  using assms
proof (induction ms arbitrary: c eff)
  case Nil
  then show ?case using handle_disconnect_frame [of contended conn_id c c' eff] by auto
next
  case (Cons m ms)
  obtain c1 eff1 continue where m: "handle_ws_message contended now conn_id m c = (c1, eff1, continue)"
    by (cases "handle_ws_message contended now conn_id m c")
  note f = handle_ws_message_frame [OF m]
  show ?case
  proof (cases "connection_id c = conn_id")
    case False
    with Cons.prems show ?thesis by simp
  next
    case True
    show ?thesis
    proof (cases continue)
      case cont: True
      with Cons.prems True m obtain eff2 where "reader_loop contended now conn_id ms c1 = (c', eff2)"
        by (auto split: prod.splits)
      from Cons.IH [OF this] f True show ?thesis by simp
    next
      case stop: False
      with Cons.prems True m obtain eff2 where "handle_disconnect contended conn_id c1 = (c', eff2)"
        by (auto split: prod.splits)
      from handle_disconnect_frame [OF this] f True show ?thesis by simp
    qed
  qed
qed

lemma check_for_updates_frame:
  assumes "check_for_updates_on_reconnect now c = (c', eff)"
  shows "reconnectable c' = reconnectable c" "connection_config c' = connection_config c"
    "connection_closed c' = connection_closed c" "server_ready c' = server_ready c"
  using assms by (auto simp: check_for_updates_on_reconnect_def split: if_splits)

text \<open>Whatever happened in a session, the client is disconnected when the round is over.\<close>

lemma supervise_round_cases:
  assumes "supervise_round contended now attempt session c = (c', eff, next)"
    and "connection_config c \<noteq> None"
  shows "connection_closed c' \<and> \<not> server_ready c' \<and> connection_config c' = connection_config c
    \<and> reconnectable c' = reconnectable c
    \<and> next = (if reconnectable c
              then Some (if isl session then (u32_saturating_inc attempt, reconnect_delay attempt)
                         else (1, 1))
              else None)"
proof -
  obtain c1 eff1 where run: "run_connection contended now session c = (c1, eff1)"
    by (cases "run_connection contended now session c")
  have keep: "connection_config c1 = connection_config c \<and> reconnectable c1 = reconnectable c
      \<and> (\<not> isl session \<longrightarrow> connection_closed c1 \<and> \<not> server_ready c1)"
  proof (cases session)
    case (Inl e)
    with run show ?thesis by (auto simp: run_connection_def connection_attempt_def)
  next
    case (Inr frames)
    with run have "reader_loop contended now (connection_id c + 1) frames
        (connection_established (c\<lparr>connection_id := connection_id c + 1\<rparr>)) = (c1, eff1)"
      by (simp add: run_connection_def connection_attempt_def)
    from reader_loop_frame [OF this] Inr show ?thesis by (simp add: connection_established_def)
  qed
  show ?thesis
  proof (cases session)
    case (Inl e)
    with assms run keep show ?thesis
      by (auto simp: supervise_round_def Let_def dest: check_for_updates_frame
          split: if_splits prod.splits option.splits)
  next
    case (Inr frames)
    with assms run keep show ?thesis
      by (auto simp: supervise_round_def reconnect_delay_def u32_saturating_inc_def
          dest: check_for_updates_frame split: if_splits prod.splits option.splits)
  qed
qed


text \<open>The reader task announces the end of its connection once, and a shutdown once if it is final.\<close>

definition ends_now :: "u64 \<Rightarrow> ws_client \<Rightarrow> bool" where
  "ends_now conn_id c \<longleftrightarrow> connection_id c = conn_id \<and> \<not> connection_closed c"

definition announced :: "u64 \<Rightarrow> bool \<Rightarrow> bool \<Rightarrow> ws_effect list \<Rightarrow> bool" where
  "announced conn_id ends reconn eff \<longleftrightarrow>
     count_list eff (NotifyDisconnect conn_id) = (if ends then 1 else 0)
     \<and> count_list eff NotifyShutdown = (if ends \<and> \<not> reconn then 1 else 0)"

lemma announced_disconnect:
  "handle_disconnect contended conn_id c = (c', eff) \<Longrightarrow>
   announced conn_id (ends_now conn_id c) (reconnectable c) eff"
  by (auto simp: handle_disconnect_def announced_def ends_now_def Let_def split: if_splits)

lemma announced_message:
  "handle_message conn_id msg c = (c', eff) \<Longrightarrow> announced conn_id False b eff"
  by (auto simp: handle_message_def announced_def split: if_splits prod.splits option.splits)

lemma announced_append:
  "announced conn_id a r xs \<Longrightarrow> announced conn_id b r ys \<Longrightarrow> \<not> (a \<and> b) \<Longrightarrow>
   announced conn_id (a \<or> b) r (xs @ ys)"
  by (auto simp: announced_def)

lemma announced_ws_message:
  assumes "handle_ws_message contended now conn_id m c = (c', eff, continue)"
  shows "announced conn_id (ends_now conn_id c \<and> \<not> continue) (reconnectable c) eff
    \<and> ends_now conn_id c' = (ends_now conn_id c \<and> continue)"
  using assms
  by (auto simp: handle_ws_message_def handle_incoming_message_def handle_pong_def ends_now_def
      announced_def [of _ _ _ "[]"]
      dest: announced_message announced_disconnect handle_message_frame handle_disconnect_frame(1-4)
        handle_disconnect_frame(5) [OF _ handle_disconnect_frame(1) [symmetric]]
      split: sum.splits ws_frame.splits prod.splits if_splits)

lemma announced_reader_loop:
  "reader_loop contended now conn_id ms c = (c', eff) \<Longrightarrow>
   announced conn_id (ends_now conn_id c) (reconnectable c) eff"
proof (induction ms arbitrary: c eff)
  case Nil
  then show ?case by (simp add: announced_disconnect)
next
  case (Cons m ms)
  obtain c1 eff1 continue where m: "handle_ws_message contended now conn_id m c = (c1, eff1, continue)"
    by (cases "handle_ws_message contended now conn_id m c")
  note a = announced_ws_message [OF m] and f = handle_ws_message_frame [OF m]
  show ?case
  proof (cases "connection_id c = conn_id")
    case False
    with Cons.prems show ?thesis by (simp add: ends_now_def announced_def)
  next
    case True
    show ?thesis
    proof (cases continue)
      case cont: True
      with Cons.prems True m obtain eff2 where r: "reader_loop contended now conn_id ms c1 = (c', eff2)"
        and eff: "eff = eff1 @ eff2" by (auto split: prod.splits)
      have "announced conn_id (ends_now conn_id c) (reconnectable c) eff2"
        using Cons.IH [OF r] a f cont by simp
      then show ?thesis using announced_append [of conn_id False _ eff1 "ends_now conn_id c" eff2] a cont eff
        by simp
    next
      case stop: False
      with Cons.prems True m obtain eff2 where d: "handle_disconnect contended conn_id c1 = (c', eff2)"
        and eff: "eff = eff1 @ eff2" by (auto split: prod.splits)
      have "announced conn_id False (reconnectable c) eff2"
        using announced_disconnect [OF d] a f stop by simp
      then show ?thesis using announced_append [of conn_id "ends_now conn_id c" _ eff1 False eff2] a stop eff
        by simp
    qed
  qed
qed

lemma supervise_round_shutdown:
  assumes "supervise_round contended now attempt session c = (c', eff, next)"
    and "connection_config c \<noteq> None"
  shows "count_list eff NotifyShutdown = (if reconnectable c then 0 else 1)"
proof (cases session)
  case (Inl e)
  with assms show ?thesis
    by (auto simp: supervise_round_def run_connection_def connection_attempt_def Let_def
        check_for_updates_on_reconnect_def split: if_splits)
next
  case (Inr frames)
  let ?c = "connection_established (c\<lparr>connection_id := connection_id c + 1\<rparr>)"
  obtain c1 eff1 where r: "reader_loop contended now (connection_id c + 1) frames ?c = (c1, eff1)"
    by (cases "reader_loop contended now (connection_id c + 1) frames ?c")
  have "reconnectable c1 = reconnectable c" using reader_loop_frame [OF r] by (simp add: connection_established_def)
  moreover have "count_list eff1 NotifyShutdown = (if reconnectable c then 0 else 1)"
    using announced_reader_loop [OF r] by (simp add: announced_def ends_now_def connection_established_def)
  ultimately show ?thesis using assms Inr r
    by (auto simp: supervise_round_def run_connection_def connection_attempt_def
        check_for_updates_on_reconnect_def split: if_splits)
qed

subsection \<open>Lemmas: the supervisor\<close>

text \<open>The intended delays: doubling from one second up to thirty, starting over after a success.\<close>

fun backoff_spec :: "nat \<Rightarrow> bool list \<Rightarrow> nat list" where
  "backoff_spec k [] = []"
| "backoff_spec k (ok # oks) =
     (if ok then 1 # backoff_spec 1 oks else min 30 (2 ^ k) # backoff_spec (Suc k) oks)"

definition counts :: "u32 \<Rightarrow> nat \<Rightarrow> bool" where
  "counts attempt k \<longleftrightarrow> unat attempt = k \<or> (5 \<le> unat attempt \<and> 5 \<le> k)"

lemma power_cap: "5 \<le> k \<Longrightarrow> min 30 (2 ^ k) = (30::nat)"
  using power_increasing [of 5 k "2::nat"] by simp

lemma reconnect_delay_counts: "counts attempt k \<Longrightarrow> reconnect_delay attempt = min 30 (2 ^ k)"
proof (cases "5 \<le> k")
  case True
  assume "counts attempt k"
  with True have "5 \<le> unat attempt" by (auto simp: counts_def)
  then have "attempt \<notin> {0, 1, 2, 3, 4}" by auto
  with True power_cap show ?thesis by (simp add: reconnect_delay_def)
next
  case False
  assume "counts attempt k"
  with False have "unat attempt = k" by (auto simp: counts_def)
  then have "attempt = of_nat k" by (metis word_of_nat_eq_iff unat_eq_nat_uint of_nat_unat ucast_id)
  moreover have "k \<in> {0, 1, 2, 3, 4}" using False by auto
  ultimately show ?thesis by (auto simp: reconnect_delay_def)
qed

lemma counts_inc: "counts attempt k \<Longrightarrow> counts (u32_saturating_inc attempt) (Suc k)"
proof (cases "attempt = - 1")
  case True
  have "unat (- 1 :: u32) = 4294967295" by (simp add: unsigned_minus_1_eq_mask mask_eq_exp_minus_1)
  moreover assume "counts attempt k"
  ultimately show ?thesis using True by (auto simp: counts_def u32_saturating_inc_def)
next
  case False
  then have "unat (attempt + 1) = Suc (unat attempt)"
    by (metis Suc_eq_plus1 add.commute eq_neg_iff_add_eq_0 unatSuc)
  moreover assume "counts attempt k"
  ultimately show ?thesis using False by (auto simp: counts_def u32_saturating_inc_def)
qed

lemma supervise_connections_backoff:
  assumes "reconnectable c" "connection_config c \<noteq> None" "counts attempt k"
    and "supervise_connections contended attempt rs c = (c', eff, ds, running)"
  shows "running \<and> ds = backoff_spec k (map (\<lambda>(now, session). \<not> isl session) rs)
    \<and> count_list eff NotifyShutdown = 0 \<and> (rs \<noteq> [] \<longrightarrow> connection_closed c')"
  using assms
proof (induction rs arbitrary: c c' attempt k eff ds running)
  case Nil
  then show ?case by simp
next
  case (Cons r rs)
  obtain now session where r: "r = (now, session)" by (cases r)
  obtain c1 eff1 "next" where round: "supervise_round contended now attempt session c = (c1, eff1, next)"
    by (cases "supervise_round contended now attempt session c")
  note facts = supervise_round_cases [OF round Cons.prems(2)]
    and quiet = supervise_round_shutdown [OF round Cons.prems(2)]
  define k' where "k' = (if isl session then Suc k else 1)"
  obtain attempt' delay where nx: "next = Some (attempt', delay)" "counts attempt' k'"
    "delay = (if isl session then min 30 (2 ^ k) else 1)"
    using facts Cons.prems(1,3) reconnect_delay_counts counts_inc
    by (cases "isl session") (auto simp: k'_def counts_def)
  obtain c2 eff2 ds2 running2 where rest: "supervise_connections contended attempt' rs c1 = (c2, eff2, ds2, running2)"
    by (cases "supervise_connections contended attempt' rs c1")
  have "running2 \<and> ds2 = backoff_spec k' (map (\<lambda>(now, session). \<not> isl session) rs)
      \<and> count_list eff2 NotifyShutdown = 0 \<and> (rs \<noteq> [] \<longrightarrow> connection_closed c2)"
    using Cons.IH [OF _ _ nx(2) rest] facts Cons.prems by simp
  moreover have "c' = c2" "eff = eff1 @ eff2" "ds = delay # ds2" "running = running2"
    using Cons.prems(4) r round nx(1) rest by simp_all
  moreover have "rs = [] \<Longrightarrow> connection_closed c2" using rest facts by simp
  ultimately show ?case using r nx(3) quiet Cons.prems(1) by (auto simp: k'_def)
qed

subsection \<open>Lemmas: pings and responses\<close>

lemma millis_nonzero: "0 < now \<Longrightarrow> millis_to_i64 now \<noteq> 0"
proof (cases "now < 2 ^ 63")
  case True
  assume "0 < now"
  moreover have "unat (of_nat now :: 64 word) = now" using True by (simp add: unat_of_nat)
  ultimately show ?thesis using True by (auto simp: millis_to_i64_def)
qed (simp add: millis_to_i64_def)

text \<open>Frames that do not end the session.\<close>

definition keeps_session :: "ws_frame \<Rightarrow> bool" where
  "keeps_session f \<longleftrightarrow> f \<noteq> Close"

definition run_frames :: "(nat \<Rightarrow> bool) \<Rightarrow> nat \<Rightarrow> u64 \<Rightarrow> ws_frame list \<Rightarrow> ws_client \<Rightarrow> ws_client" where
  "run_frames contended now conn_id fs c =
     fold (\<lambda>f c. fst (handle_ws_message contended now conn_id (Inr f) c)) fs c"

lemma handle_message_pings:
  assumes "handle_message conn_id msg c = (c', eff)"
  shows "ping_timestamp c' = ping_timestamp c" "pong_timestamp c' = pong_timestamp c"
  using assms by (auto simp: handle_message_def split: if_splits prod.splits option.splits)

lemma frame_pings:
  assumes "keeps_session f" "connection_id c = conn_id"
    and "handle_ws_message contended now conn_id (Inr f) c = (c', eff, continue)"
  shows "connection_id c' = connection_id c" "connection_closed c' = connection_closed c"
    "ping_timestamp c' = ping_timestamp c"
    "pong_timestamp c' = (if f = Pong then millis_to_i64 now else pong_timestamp c)"
  using assms
  by (auto simp: handle_ws_message_def handle_incoming_message_def handle_pong_def keeps_session_def
      dest: handle_message_pings handle_message_frame split: ws_frame.splits prod.splits)

lemma run_frames_pings:
  assumes "list_all keeps_session fs" "connection_id c = conn_id"
  shows "connection_id (run_frames contended now conn_id fs c) = connection_id c
    \<and> connection_closed (run_frames contended now conn_id fs c) = connection_closed c
    \<and> ping_timestamp (run_frames contended now conn_id fs c) = ping_timestamp c
    \<and> pong_timestamp (run_frames contended now conn_id fs c) =
        (if Pong \<in> set fs then millis_to_i64 now else pong_timestamp c)"
  using assms
proof (induction fs arbitrary: c)
  case Nil
  then show ?case by (simp add: run_frames_def)
next
  case (Cons f fs)
  obtain c1 eff continue where f: "handle_ws_message contended now conn_id (Inr f) c = (c1, eff, continue)"
    by (cases "handle_ws_message contended now conn_id (Inr f) c")
  have step: "run_frames contended now conn_id (f # fs) c = run_frames contended now conn_id fs c1"
    by (simp add: run_frames_def f)
  show ?case
    unfolding step using Cons.IH [of c1] frame_pings [OF _ _ f] Cons.prems by auto
qed

lemma send_db_request_ok:
  assumes "send_db_request m c = (c', Inr (r, t))"
  shows "r = db_request_counter c" "t = length (channels c)" "\<not> connection_closed c"
    "c' = db_queue r m (insert_promise r t
            (c\<lparr>db_request_counter := db_request_counter c + 1, channels := channels c @ [Pending]\<rparr>))"
  using assms
  by (auto simp: send_db_request_def db_take_id_def db_check_def db_recheck_def split: if_splits)

lemma send_db_request_promise:
  assumes "send_db_request m c = (c', Inr (r, t))"
    and "\<forall>u\<in>snd ` set (db_request_promises c). u < length (channels c)"
  shows "map_of (db_request_promises c') r = Some t" "t < length (channels c')" "channels c' ! t = Pending"
    "connection_id c' = connection_id c"
proof -
  note ok = send_db_request_ok [OF assms(1)]
  have "old < length (channels c)" if "map_of (db_request_promises c) r = Some old" for old
    using map_of_SomeD [OF that] assms(2) by force
  then show "map_of (db_request_promises c') r = Some t" "t < length (channels c')"
    "channels c' ! t = Pending" "connection_id c' = connection_id c"
    unfolding ok(4) using ok(2)
    by (auto simp: db_queue_def insert_promise_def update_conv nth_close_channel split: option.splits)
qed

lemma wrap_request_data:
  assumes "msg_data m = header (msg_id m) (msg_source m) @ payload"
    and "wf_str (msg_source m)" "length (msg_source m) < 2 ^ 64"
  shows "get_data (wrap_request r m) =
    header (msg_id m) (msg_source m) @ le_encode 4 (unat r) @ payload"
  using clone_payload_header [OF assms(2,3,1)]
  by (simp add: wrap_request_def get_data_def message_new_data uint.push_enc del: le_encode.simps)

lemma parse_numbered:
  assumes "wf_str src" "length src < 2 ^ 64"
  obtains m where "pop_uint (from_data (header i src @ le_encode 4 (unat r) @ payload)) = (r, m)"
    "unread m = payload" "msg_index m \<noteq> 0"
proof -
  let ?m = "from_data (header i src @ le_encode 4 (unat r) @ payload)"
  have un: "unread ?m = le_encode 4 (unat r) @ payload" using unread_from_data_header [OF assms] .
  have "pop_uint ?m = (r, advance 4 ?m)"
    using uint.pop_enc [OF TrueI un] by (simp del: le_encode.simps)
  moreover have "unread (advance 4 ?m) = payload" using un by (simp add: cursor_simps del: le_encode.simps)
  ultimately show thesis using that by simp
qed

lemma response_delivered:
  assumes "map_of (db_request_promises c) r = Some t" "t < length (channels c)"
    and "wf_str src" "length src < 2 ^ 64"
  shows "\<exists>resp c'. handle_incoming_message (connection_id c)
      (header DB_RESPONSE src @ le_encode 4 (unat r) @ body) c = (c', [])
    \<and> db_poll t c' = Some (Inr resp) \<and> unread resp = body \<and> clone_for_payload_reading resp = resp
    \<and> r \<notin> fst ` set (db_request_promises c')
    \<and> (\<forall>u. u \<noteq> t \<longrightarrow> db_poll u c' = db_poll u c)"
proof -
  obtain resp where m: "pop_uint (from_data (header DB_RESPONSE src @ le_encode 4 (unat r) @ body)) = (r, resp)"
    "unread resp = body" "msg_index resp \<noteq> 0"
    using parse_numbered [OF assms(3,4)] by blast
  have id: "msg_id (from_data (header DB_RESPONSE src @ le_encode 4 (unat r) @ body)) = DB_RESPONSE"
    using from_data_header [OF assms(3,4)] by (simp del: le_encode.simps)
  let ?c' = "c\<lparr>db_request_promises := AList.delete r (db_request_promises c),
               channels := (channels c)[t := Delivered resp]\<rparr>"
  have "handle_incoming_message (connection_id c) (header DB_RESPONSE src @ le_encode 4 (unat r) @ body) c =
      (?c', [])"
    using id m(1) assms(1) by (simp add: handle_incoming_message_def handle_message_def)
  moreover have "db_poll t ?c' = Some (Inr resp)" using assms(2) by (simp add: db_poll_def)
  moreover have "clone_for_payload_reading resp = resp" using m(3) by (simp add: clone_for_payload_reading_def)
  moreover have "db_poll u ?c' = db_poll u c" if "u \<noteq> t" for u using that by (simp add: db_poll_def)
  moreover have "r \<notin> fst ` set (db_request_promises ?c')" by (auto simp: AList.delete_eq)
  ultimately show ?thesis using m(2) by blast
qed

subsection \<open>Properties\<close>


definition ready_sys :: req_sys where
  "ready_sys = init_sys\<lparr>rs_client := new_internal\<lparr>server_ready := True, data_ready := True\<rparr>\<rparr>"

definition waiting_sys :: req_sys where
  "waiting_sys =
     \<lparr>rs_client = insert_promise 0 0 (fst (db_take_id (rs_client ready_sys))), rs_tasks = [(0, TInserted)]\<rparr>"

lemma reachable_ready: "reachable ready_sys"
proof -
  have "handle_message 0 (message_new SERVER_READY Highest SYSTEM_SOURCE) (rs_client init_sys) =
      (rs_client ready_sys, [NotifyReconnect])"
    by (simp add: handle_message_def message_new_data init_sys_def ready_sys_def new_internal_def)
  from req_step.message_step [OF this] reachable_step [OF reachable_start]
  show ?thesis by (simp add: ready_sys_def init_sys_def)
qed

lemma reachable_waiting: "reachable waiting_sys"
proof -
  let ?s1 = "\<lparr>rs_client = fst (db_take_id (rs_client ready_sys)), rs_tasks = [(0, TTaken)]\<rparr>"
  have "db_check (rs_client ready_sys)" by (simp add: ready_sys_def db_check_def new_internal_def)
  from req_step.begin_request [OF this, of "fst (db_take_id (rs_client ready_sys))" 0 0]
  have "req_step ready_sys ?s1"
    by (simp add: ready_sys_def init_sys_def db_take_id_def new_internal_def)
  then have r1: "reachable ?s1" using reachable_step [OF reachable_ready] by blast
  have "req_step ?s1 waiting_sys"
    using req_step.insert_step [of 0 ?s1 0] by (simp add: set_pc_def waiting_sys_def)
  then show ?thesis using reachable_step [OF r1] by blast
qed




text \<open>
  C7. A request is matched with its own response. A successful \<^verbatim>\<open>send_db_request\<close> appends exactly one
  message to the most urgent priority, and it parses as the caller's message with the fresh request
  number in front of the payload. When the server later answers with that number, the answer is
  delivered to this request and to no other, the cursor of the delivered message stands at the first
  field of the body, and the entry is gone from the table.
\<close>

theorem request_response_correlation:
  assumes send: "send_db_request m c = (c', Inr (r, t))"
    and m: "msg_data m = header (msg_id m) (msg_source m) @ payload"
      "wf_str (msg_source m)" "length (msg_source m) < 2 ^ 64"
    and src: "wf_str src" "length src < 2 ^ 64"
    and c: "wf_queue (queue c)" "\<forall>u\<in>snd ` set (db_request_promises c). u < length (channels c)"
  shows "(\<exists>w m'. pending (queue c') 0 ''db'' = pending (queue c) 0 ''db'' @ [w]
           \<and> msg_id (from_data w) = msg_id m \<and> msg_source (from_data w) = msg_source m
           \<and> pop_uint (from_data w) = (r, m') \<and> unread m' = payload)
    \<and> db_poll t c' = None
    \<and> (\<exists>resp c''. handle_incoming_message (connection_id c')
           (get_data (append_raw_bytes (push_uint (message_new DB_RESPONSE p src) r) body)) c' = (c'', [])
         \<and> db_poll t c'' = Some (Inr resp) \<and> unread resp = body \<and> clone_for_payload_reading resp = resp
         \<and> r \<notin> fst ` set (db_request_promises c'')
         \<and> (\<forall>u. u \<noteq> t \<longrightarrow> db_poll u c'' = db_poll u c'))"
proof (intro conjI)
  note ok = send_db_request_ok [OF send] and pr = send_db_request_promise [OF send c(2)]
  let ?w = "get_data (wrap_request r m)"
  have w: "?w = header (msg_id m) (msg_source m) @ le_encode 4 (unat r) @ payload"
    using wrap_request_data [OF m] .
  have "queue c' = enqueue (queue c) 0 ''db'' ?w"
    using ok(3) by (simp add: ok(4) db_queue_def queue_message_def)
  then have "pending (queue c') 0 ''db'' = pending (queue c) 0 ''db'' @ [?w]"
    using wf_queue_length [OF c(1)] by (simp add: pending_enqueue PRIORITY_LEVELS_def)
  moreover have "msg_id (from_data ?w) = msg_id m" "msg_source (from_data ?w) = msg_source m"
    using from_data_header [OF m(2,3)] w by simp_all
  moreover obtain m' where "pop_uint (from_data ?w) = (r, m')" "unread m' = payload"
    using parse_numbered [OF m(2,3), of "msg_id m" r payload] w by metis
  ultimately show "\<exists>w m'. pending (queue c') 0 ''db'' = pending (queue c) 0 ''db'' @ [w]
           \<and> msg_id (from_data w) = msg_id m \<and> msg_source (from_data w) = msg_source m
           \<and> pop_uint (from_data w) = (r, m') \<and> unread m' = payload" by blast
  show "db_poll t c' = None" using pr(2,3) by (simp add: db_poll_def)
  have "get_data (append_raw_bytes (push_uint (message_new DB_RESPONSE p src) r) body) =
      header DB_RESPONSE src @ le_encode 4 (unat r) @ body"
    by (simp add: get_data_def message_new_data uint.push_enc del: le_encode.simps)
  then show "\<exists>resp c''. handle_incoming_message (connection_id c')
           (get_data (append_raw_bytes (push_uint (message_new DB_RESPONSE p src) r) body)) c' = (c'', [])
         \<and> db_poll t c'' = Some (Inr resp) \<and> unread resp = body \<and> clone_for_payload_reading resp = resp
         \<and> r \<notin> fst ` set (db_request_promises c'')
         \<and> (\<forall>u. u \<noteq> t \<longrightarrow> db_poll u c'' = db_poll u c')"
    using response_delivered [OF pr(1,2) src] by simp
qed

theorem request_response_correlation_witness:
  "\<exists>c' c'' resp. send_db_request (message_new DB_JOB_GET_RUNNING_JOBS Highest ''db'')
       (new_internal\<lparr>server_ready := True\<rparr>) = (c', Inr (0, 0))
     \<and> handle_incoming_message 0
         (get_data (append_raw_bytes (push_uint (message_new DB_RESPONSE Highest ''db'') 0) [1])) c' = (c'', [])
     \<and> db_poll 0 c'' = Some (Inr resp) \<and> unread resp = [1]"
proof -
  let ?m = "message_new DB_JOB_GET_RUNNING_JOBS Highest ''db''"
  let ?c = "new_internal\<lparr>server_ready := True\<rparr>"
  obtain c' x where "send_db_request ?m ?c = (c', x)" by (cases "send_db_request ?m ?c")
  then have send: "send_db_request ?m ?c = (c', Inr (0, 0))"
    by (auto simp: send_db_request_def db_check_def db_take_id_def db_recheck_def db_queue_def
        new_internal_def split: if_splits)
  have m: "msg_data ?m = header (msg_id ?m) (msg_source ?m) @ []" "wf_str ''db''"
    "msg_source ?m = ''db''"
    by (simp_all add: message_new_data) (rule wf_str_ascii, auto)
  have c: "wf_queue (queue ?c)" "\<forall>u\<in>snd ` set (db_request_promises ?c). u < length (channels ?c)"
    by (simp_all add: new_internal_def wf_new_queue)
  have "connection_id c' = 0" using send_db_request_promise(4) [OF send c(2)] by (simp add: new_internal_def)
  with request_response_correlation [OF send m(1), of "''db''" Highest "[1]"] m c send
  show ?thesis by fastforce
qed

text \<open>
  Reconnection backs off. While the client is to reconnect, its supervisor never gives up, and the
  delays between its attempts are those of the specification \<open>backoff_spec\<close>: 1, 2, 4, 8 and 16 seconds
  for consecutive failures, then 30 for every further one however many there are (the counter
  saturates), one second after a connection that was established and lost. It never signals a shutdown,
  and between two attempts the client is marked closed.
\<close>

theorem supervisor_backs_off:
  assumes "reconnectable c" "connection_config c \<noteq> None"
  shows "case supervise_connections contended 0 rs c of (c', eff, ds, running) \<Rightarrow>
    running \<and> ds = backoff_spec 0 (map (\<lambda>(now, session). \<not> isl session) rs)
    \<and> NotifyShutdown \<notin> set eff \<and> (rs \<noteq> [] \<longrightarrow> connection_closed c')"
proof -
  have "counts 0 0" by (simp add: counts_def)
  then show ?thesis
    using supervise_connections_backoff [OF assms, of 0 0 contended rs]
    by (auto simp: count_list_0_iff split: prod.splits)
qed

theorem supervisor_backs_off_witness:
  "case supervise_connections (\<lambda>_. False) 0
      [(0, Inl []), (0, Inl []), (0, Inr []), (0, Inl []), (0, Inl []), (0, Inl []), (0, Inl []), (0, Inl [])]
      (new_internal\<lparr>reconnectable := True, connection_config := Some \<lparr>cc_url = [], cc_token = []\<rparr>\<rparr>)
   of (c', eff, ds, running) \<Rightarrow> running \<and> ds = [1, 2, 1, 2, 4, 8, 16, 30]"
  using supervisor_backs_off [of "new_internal\<lparr>reconnectable := True,
      connection_config := Some \<lparr>cc_url = [], cc_token = []\<rparr>\<rparr>"
      "[(0, Inl []), (0, Inl []), (0, Inr []), (0, Inl []), (0, Inl []), (0, Inl []), (0, Inl []), (0, Inl [])]" "\<lambda>_. False"]
  by (auto simp: numeral_eq_Suc split: prod.splits)

text \<open>
  A client that must not reconnect shuts down. Its supervisor returns after the first round, whether
  the attempt failed or the connection was established and lost, without sleeping, with the client
  closed, and the shutdown signal is raised exactly once.
\<close>

theorem non_reconnectable_shuts_down:
  assumes "\<not> reconnectable c" "connection_config c \<noteq> None"
  shows "case supervise_connections contended attempt (r # rs) c of (c', eff, ds, running) \<Rightarrow>
    \<not> running \<and> ds = [] \<and> connection_closed c' \<and> \<not> server_ready c' \<and> count_list eff NotifyShutdown = 1"
proof -
  obtain now session where r: "r = (now, session)" by (cases r)
  obtain c1 eff1 "next" where round: "supervise_round contended now attempt session c = (c1, eff1, next)"
    by (cases "supervise_round contended now attempt session c")
  from supervise_round_cases [OF round assms(2)] supervise_round_shutdown [OF round assms(2)] assms(1)
  show ?thesis by (simp add: r round)
qed

theorem non_reconnectable_shuts_down_witness:
  "case supervise_connections (\<lambda>_. False) 0 [(5, Inr [Inr Ping]), (6, Inl [])]
      (new_internal\<lparr>connection_config := Some \<lparr>cc_url = [], cc_token = []\<rparr>\<rparr>)
   of (c', eff, ds, running) \<Rightarrow> \<not> running \<and> count_list eff NotifyShutdown = 1"
  using non_reconnectable_shuts_down [of "new_internal\<lparr>connection_config := Some \<lparr>cc_url = [], cc_token = []\<rparr>\<rparr>"
      "\<lambda>_. False" 0 "(5, Inr [Inr Ping])" "[(6, Inl [])]"]
  by (simp add: new_internal_def split: prod.splits)

text \<open>
  Dead connections are detected and live ones kept. After the ping task has sent a ping, and
  whatever frames other than a close arrive before its next tick, that tick keeps the connection and
  sends the next ping exactly if one of the frames was a pong; otherwise it closes the connection and
  notifies the disconnect.
\<close>

theorem missed_pong_is_detected:
  assumes "0 < now" "0 < later" "\<not> connection_closed c"
    and tick: "ping_tick contended now True (connection_id c) c = (c1, [WritePing], True)"
    and fs: "list_all keeps_session fs"
  shows "case ping_tick contended t3 True (connection_id c)
             (run_frames contended later (connection_id c) fs c1) of (c3, eff, alive) \<Rightarrow>
    (alive \<longleftrightarrow> Pong \<in> set fs) \<and> (connection_closed c3 \<longleftrightarrow> Pong \<notin> set fs)
    \<and> (WritePing \<in> set eff \<longleftrightarrow> Pong \<in> set fs)
    \<and> (NotifyDisconnect (connection_id c) \<in> set eff \<longleftrightarrow> Pong \<notin> set fs)"
proof -
  have c1: "c1 = c\<lparr>pong_timestamp := 0, ping_timestamp := millis_to_i64 now\<rparr>"
    using tick assms(3)
    by (auto simp: ping_tick_def Let_def handle_disconnect_def split: sum.splits if_splits)
  let ?c2 = "run_frames contended later (connection_id c) fs c1"
  have "connection_id ?c2 = connection_id c" "\<not> connection_closed ?c2"
    "ping_timestamp ?c2 = millis_to_i64 now"
    "pong_timestamp ?c2 = (if Pong \<in> set fs then millis_to_i64 later else 0)"
    using run_frames_pings [OF fs, of c1 "connection_id c" contended later] assms(3) by (simp_all add: c1)
  then show ?thesis
    using millis_nonzero [OF assms(1)] millis_nonzero [OF assms(2)]
    by (simp add: ping_tick_def check_pings_internal_def Let_def handle_disconnect_def take_promises_def)
qed

theorem missed_pong_is_detected_witness:
  "case ping_tick (\<lambda>_. False) 60000 True 0
      (run_frames (\<lambda>_. False) 45000 0 [Ping, Frame]
        (fst (ping_tick (\<lambda>_. False) 30000 True 0 new_internal))) of (c3, eff, alive) \<Rightarrow>
   \<not> alive \<and> connection_closed c3"
proof -
  obtain c1 eff alive where t: "ping_tick (\<lambda>_. False) 30000 True 0 new_internal = (c1, eff, alive)"
    by (cases "ping_tick (\<lambda>_. False) 30000 True 0 new_internal")
  then have "eff = [WritePing]" "alive"
    by (auto simp: ping_tick_def new_internal_def check_pings_internal_def)
  with t missed_pong_is_detected [of 30000 45000 new_internal "\<lambda>_. False" c1 "[Ping, Frame]" 60000]
  show ?thesis by (auto simp: new_internal_def keeps_session_def split: prod.splits)
qed



end
