(* ===== verification/Once_Cell.thy ===== *)
theory Once_Cell
  imports Client_Prelude
begin

text \<open>
  Cells of the process that are filled once: \<^verbatim>\<open>OnceLock\<close> with \<^verbatim>\<open>get_or_init\<close> and \<^verbatim>\<open>set\<close>. A cell is a field of a state record, given
  by its selector and its update. The computation that fills it may itself change the state, and may end the
  process, by a panic or by an exit: then its value is \<open>None\<close> and the cell stays empty.
\<close>

definition get_or_init ::
    "('s \<Rightarrow> 'a option) \<Rightarrow> ('a \<Rightarrow> 's \<Rightarrow> 's) \<Rightarrow> ('s \<Rightarrow> ('a \<times> 's) option) \<Rightarrow> 's \<Rightarrow> ('a \<times> 's) option" where
  "get_or_init cell put f s =
     (case cell s of
        Some v \<Rightarrow> Some (v, s)
      | None \<Rightarrow> (case f s of None \<Rightarrow> None | Some (v, s') \<Rightarrow> Some (v, put v s')))"

text \<open>\<^verbatim>\<open>set\<close> with its result ignored.\<close>

definition set_once :: "('s \<Rightarrow> 'a option) \<Rightarrow> ('a \<Rightarrow> 's \<Rightarrow> 's) \<Rightarrow> 'a \<Rightarrow> 's \<Rightarrow> 's" where
  "set_once cell put v s = (if cell s = None then put v s else s)"

text \<open>The results of \<open>n\<close> calls in a row.\<close>

fun calls_in_row :: "nat \<Rightarrow> ('s \<Rightarrow> ('a \<times> 's) option) \<Rightarrow> 's \<Rightarrow> ('a list \<times> 's) option" where
  "calls_in_row 0 op s = Some ([], s)"
| "calls_in_row (Suc n) op s =
     (case op s of
        None \<Rightarrow> None
      | Some (v, s') \<Rightarrow> (case calls_in_row n op s' of None \<Rightarrow> None | Some (vs, s'') \<Rightarrow> Some (v # vs, s'')))"

locale once_cell =
  fixes cell :: "'s \<Rightarrow> 'a option" and put :: "'a \<Rightarrow> 's \<Rightarrow> 's"
  assumes cell_put: "cell (put v s) = Some v"
begin

lemma fills: "get_or_init cell put f s = Some (v, s') \<Longrightarrow> cell s' = Some v"
  by (auto simp: get_or_init_def cell_put split: option.splits)

lemma filled: "cell s = Some v \<Longrightarrow> get_or_init cell put f s = Some (v, s)"
  by (simp add: get_or_init_def)

text \<open>The first call decides: every later call gives its value and changes nothing, whatever it would compute.\<close>

lemma first_call_decides: "get_or_init cell put f s = Some (v, s') \<Longrightarrow> get_or_init cell put f' s' = Some (v, s')"
  by (rule filled [OF fills])

lemma calls_filled: "cell s = Some v \<Longrightarrow> calls_in_row n (get_or_init cell put f) s = Some (replicate n v, s)"
  by (induction n) (simp_all add: filled)

lemma calls_agree:
  "get_or_init cell put f s = Some (v, s') \<Longrightarrow>
   calls_in_row (Suc n) (get_or_init cell put f) s = Some (replicate (Suc n) v, s')"
  by (simp add: calls_filled [OF fills])

lemma set_once_filled: "\<exists>u. cell (set_once cell put v s) = Some u"
  by (cases "cell s") (auto simp: set_once_def cell_put)

end

end
