(* ===== verification/Config.thy ===== *)
theory Config
  imports Environment Once_Cell
begin

text \<open>
  The configuration of \<^verbatim>\<open>src/src/src/config.rs\<close> and the choice of the websocket token in
  \<^verbatim>\<open>src/src/src/main.rs\<close>. The parsed \<^verbatim>\<open>config.json\<close> is a JSON value, the environment variable and the
  command line are arguments. \<^verbatim>\<open>str::trim\<close> removes the characters with the Unicode property White_Space;
  on the UTF-8 bytes of a string these are the sequences listed in \<open>white_space\<close>.
\<close>

subsection \<open>Trimming\<close>

definition white_space :: "string list" where
  "white_space =
     [[CHR 0x09], [CHR 0x0A], [CHR 0x0B], [CHR 0x0C], [CHR 0x0D], [CHR 0x20],
      [CHR 0xC2, CHR 0x85], [CHR 0xC2, CHR 0xA0], [CHR 0xE1, CHR 0x9A, CHR 0x80],
      [CHR 0xE2, CHR 0x80, CHR 0x80], [CHR 0xE2, CHR 0x80, CHR 0x81],
      [CHR 0xE2, CHR 0x80, CHR 0x82], [CHR 0xE2, CHR 0x80, CHR 0x83],
      [CHR 0xE2, CHR 0x80, CHR 0x84], [CHR 0xE2, CHR 0x80, CHR 0x85],
      [CHR 0xE2, CHR 0x80, CHR 0x86], [CHR 0xE2, CHR 0x80, CHR 0x87],
      [CHR 0xE2, CHR 0x80, CHR 0x88], [CHR 0xE2, CHR 0x80, CHR 0x89],
      [CHR 0xE2, CHR 0x80, CHR 0x8A], [CHR 0xE2, CHR 0x80, CHR 0xA8],
      [CHR 0xE2, CHR 0x80, CHR 0xA9], [CHR 0xE2, CHR 0x80, CHR 0xAF],
      [CHR 0xE2, CHR 0x81, CHR 0x9F], [CHR 0xE3, CHR 0x80, CHR 0x80]]"

function strip_prefixes :: "string list \<Rightarrow> string \<Rightarrow> string" where
  "strip_prefixes ws s =
     (case List.find (\<lambda>w. w \<noteq> [] \<and> prefix w s) ws of
        None \<Rightarrow> s
      | Some w \<Rightarrow> strip_prefixes ws (drop (length w) s))"
  by pat_completeness auto
termination
  by (relation "measure (length \<circ> snd)") (auto simp: find_Some_iff prefix_def)

declare strip_prefixes.simps [simp del]

definition trim_start :: "string \<Rightarrow> string" where
  "trim_start s = strip_prefixes white_space s"

definition trim_end :: "string \<Rightarrow> string" where
  "trim_end s = rev (strip_prefixes (map rev white_space) (rev s))"

definition trim :: "string \<Rightarrow> string" where
  "trim s = trim_end (trim_start s)"

subsection \<open>Operations\<close>

definition VALID_LOG_LEVELS :: "string list" where
  "VALID_LOG_LEVELS = [''trace'', ''debug'', ''info'', ''warn'', ''error'', ''off'']"

definition get_non_empty_str :: "json \<Rightarrow> string \<Rightarrow> string option" where
  "get_non_empty_str config key =
     (case json_get config key of
        None \<Rightarrow> None
      | Some v \<Rightarrow> (case as_str v of
                     None \<Rightarrow> None
                   | Some s \<Rightarrow> if trim s \<noteq> [] then Some (trim s) else None))"

definition validate_string_field :: "json \<Rightarrow> string \<Rightarrow> bool \<Rightarrow> string list" where
  "validate_string_field config key required =
     (case json_get config key of
        None \<Rightarrow> if required then [key @ '' is missing or null''] else []
      | Some JNull \<Rightarrow> if required then [key @ '' is missing or null''] else []
      | Some (JString s) \<Rightarrow> if trim s = [] then [key @ '' is empty''] else []
      | Some _ \<Rightarrow> [key @ '' must be a string''])"

fun join :: "string \<Rightarrow> string list \<Rightarrow> string" where
  "join sep [] = []"
| "join sep [x] = x"
| "join sep (x # y # zs) = x @ sep @ join sep (y # zs)"

definition validate_config :: "json \<Rightarrow> string list + unit" where
  "validate_config config =
     (let errors = validate_string_field config ''pythonLibrary'' True
                 @ validate_string_field config ''websocketEndpoint'' True
                 @ validate_string_field config ''logLevel'' False
                 @ validate_string_field config ''ltk'' False
                 @ (case get_non_empty_str config ''logLevel'' of
                      None \<Rightarrow> []
                    | Some level \<Rightarrow>
                        if level \<notin> set VALID_LOG_LEVELS
                        then [''logLevel must be one of: '' @ join '', '' VALID_LOG_LEVELS] else [])
      in if errors = [] then Inr () else Inl errors)"

definition get_ltk_from_config :: "json \<Rightarrow> string option" where
  "get_ltk_from_config config = get_non_empty_str config ''ltk''"

text \<open>\<open>None\<close> where the source prints an error and exits.\<close>

definition get_python_library_path :: "string option \<Rightarrow> json \<Rightarrow> string option" where
  "get_python_library_path env_var config =
     (case env_var of
        Some path \<Rightarrow> if trim path \<noteq> [] then Some (trim path) else get_non_empty_str config ''pythonLibrary''
      | None \<Rightarrow> get_non_empty_str config ''pythonLibrary'')"

definition ensure_websocket_endpoint_trailing_slash :: "string \<Rightarrow> string" where
  "ensure_websocket_endpoint_trailing_slash endpoint =
     (if suffix ''/'' endpoint then endpoint else endpoint @ ''/'')"

definition get_websocket_endpoint :: "json \<Rightarrow> string" where
  "get_websocket_endpoint config =
     ensure_websocket_endpoint_trailing_slash
       (unwrap_or (get_non_empty_str config ''websocketEndpoint'') ''ws://127.0.0.1:8001/ws/'')"

definition get_log_level :: "json \<Rightarrow> string" where
  "get_log_level config = unwrap_or (get_non_empty_str config ''logLevel'') ''info''"

definition resolve_websocket_token :: "string list \<Rightarrow> json \<Rightarrow> (string \<times> bool) result" where
  "resolve_websocket_token args config =
     (let config_ltk = get_ltk_from_config config;
          cli_token = (if 1 < length args \<and> trim (args ! 1) \<noteq> [] then Some (trim (args ! 1)) else None)
      in case (config_ltk, cli_token) of
           (Some _, Some _) \<Rightarrow>
             Inl ''Both config.json 'ltk' and a CLI WebSocket token were provided. Remove one.''
         | (Some token, None) \<Rightarrow> Inr (token, True)
         | (None, Some token) \<Rightarrow> Inr (token, False)
         | (None, None) \<Rightarrow>
             Inl ''No WebSocket token configured. Set config.json 'ltk' or pass a CLI token.'')"

subsection \<open>The configuration file\<close>

text \<open>
  What the process finds of itself and of its file: the path of the executable, whether the file can be opened, and
  what \<^verbatim>\<open>serde_json\<close> makes of it. The parsed file is kept in a cell of the process; \<open>None\<close> where the source exits.
\<close>

record config_disk =
  current_exe :: "path option"
  config_opens :: "path \<Rightarrow> bool"
  config_parsed :: "path \<Rightarrow> json result"

definition get_executable_path :: "config_disk \<Rightarrow> path" where
  "get_executable_path d = unwrap_or (current_exe d) []"

definition path_pop :: "path \<Rightarrow> path" where
  "path_pop p = unwrap_or (path_parent p) p"

definition get_default_bundle_path :: "config_disk \<Rightarrow> string" where
  "get_default_bundle_path d = path_to_string (path_join (path_pop (get_executable_path d)) [Normal ''bundles''])"

definition load_config :: "config_disk \<Rightarrow> json option \<Rightarrow> (json \<times> json option) option" where
  "load_config d cell =
     (let config_path = path_join (path_pop (get_executable_path d)) [Normal ''config.json'']
      in if \<not> config_opens d config_path then None
         else case config_parsed d config_path of Inl _ \<Rightarrow> None | Inr config \<Rightarrow> Some (config, cell))"

definition read_client_config :: "config_disk \<Rightarrow> json option \<Rightarrow> (json \<times> json option) option" where
  "read_client_config d = get_or_init id (\<lambda>v _. Some v) (load_config d)"

interpretation config_cell: once_cell id "\<lambda>v _. Some v"
  by unfold_locales simp

text \<open>All readers of one process see the same configuration, even if the file changes between the calls.\<close>

lemma config_is_read_once:
  assumes "read_client_config d None = Some (config, cell)"
  shows "read_client_config d' cell = Some (config, cell)"
  using config_cell.first_call_decides [OF assms [unfolded read_client_config_def], of "load_config d'"]
  by (simp add: read_client_config_def)

subsection \<open>Lemmas: trimming\<close>

lemma strip_prefixes_suffix: "suffix (strip_prefixes ws s) s"
proof (induction ws s rule: strip_prefixes.induct)
  case (1 ws s)
  show ?case
  proof (cases "List.find (\<lambda>w. w \<noteq> [] \<and> prefix w s) ws")
    case None
    then show ?thesis by (simp add: strip_prefixes.simps [of ws s])
  next
    case (Some w)
    then show ?thesis using 1 [OF Some] suffix_drop [of "length w" s]
      by (auto simp: strip_prefixes.simps [of ws s] intro: suffix_order.trans)
  qed
qed

lemma strip_prefixes_done: "w \<in> set ws \<Longrightarrow> w \<noteq> [] \<Longrightarrow> \<not> prefix w (strip_prefixes ws s)"
proof (induction ws s rule: strip_prefixes.induct)
  case (1 ws s)
  show ?case
  proof (cases "List.find (\<lambda>w. w \<noteq> [] \<and> prefix w s) ws")
    case None
    then have "strip_prefixes ws s = s" by (simp add: strip_prefixes.simps [of ws s])
    with None 1(2,3) show ?thesis by (auto simp: find_None_iff)
  next
    case (Some w')
    then show ?thesis using 1 by (simp add: strip_prefixes.simps [of ws s])
  qed
qed

lemma white_space_nonempty: "w \<in> set white_space \<Longrightarrow> w \<noteq> []"
  by (auto simp: white_space_def)

lemma trim_end_prefix: "prefix (trim_end s) s"
  using strip_prefixes_suffix [of "map rev white_space" "rev s"]
  by (metis rev_rev_ident suffix_to_prefix trim_end_def)

lemma trim_no_suffix: "w \<in> set white_space \<Longrightarrow> \<not> suffix w (trim s)"
  using strip_prefixes_done [of "rev w" "map rev white_space"] white_space_nonempty [of w]
  by (simp add: trim_def trim_end_def suffix_to_prefix)

lemma trim_no_prefix: "w \<in> set white_space \<Longrightarrow> \<not> prefix w (trim s)"
proof
  assume w: "w \<in> set white_space" "prefix w (trim s)"
  then have "prefix w (trim_start s)" using trim_end_prefix prefix_order.trans unfolding trim_def by blast
  then show False using w(1) strip_prefixes_done [of w white_space s] white_space_nonempty
    by (simp add: trim_start_def)
qed

lemma get_non_empty_str_sound:
  assumes "get_non_empty_str config key = Some s"
  shows "s \<noteq> []" "\<forall>w\<in>set white_space. \<not> prefix w s \<and> \<not> suffix w s"
  using assms trim_no_prefix trim_no_suffix
  by (auto simp: get_non_empty_str_def split: option.splits if_splits)

subsection \<open>Properties\<close>

text \<open>
  A configuration that passes validation is usable. The library path and the endpoint are present,
  non-empty and free of surrounding white space, so neither the fallback endpoint nor the exit for a
  missing library is ever taken; the endpoint that is used ends with a slash and is the configured one
  up to that slash; the log level is one of the six valid ones.
\<close>

theorem validated_config_is_usable:
  assumes "validate_config config = Inr ()"
  shows "\<exists>lib url. get_non_empty_str config ''pythonLibrary'' = Some lib \<and> lib \<noteq> []
    \<and> get_python_library_path None config = Some lib
    \<and> get_non_empty_str config ''websocketEndpoint'' = Some url \<and> url \<noteq> []
    \<and> (get_websocket_endpoint config = url \<or> get_websocket_endpoint config = url @ ''/'')
    \<and> suffix ''/'' (get_websocket_endpoint config)
    \<and> get_log_level config \<in> set VALID_LOG_LEVELS"
proof -
  have field: "\<exists>s. get_non_empty_str config key = Some s" if "validate_string_field config key True = []" for key
    using that by (auto simp: validate_string_field_def get_non_empty_str_def split: option.splits json.splits if_splits)
  from assms have "validate_string_field config ''pythonLibrary'' True = []"
    "validate_string_field config ''websocketEndpoint'' True = []"
    and level: "case get_non_empty_str config ''logLevel'' of None \<Rightarrow> True | Some l \<Rightarrow> l \<in> set VALID_LOG_LEVELS"
    by (auto simp: validate_config_def Let_def split: if_splits option.splits)
  then obtain lib url where some: "get_non_empty_str config ''pythonLibrary'' = Some lib"
    "get_non_empty_str config ''websocketEndpoint'' = Some url" using field by blast
  moreover have "get_log_level config \<in> set VALID_LOG_LEVELS"
    using level by (auto simp: get_log_level_def unwrap_or_def VALID_LOG_LEVELS_def split: option.splits)
  ultimately show ?thesis
    using get_non_empty_str_sound(1) [OF some(1)] get_non_empty_str_sound(1) [OF some(2)]
    by (simp add: get_python_library_path_def get_websocket_endpoint_def unwrap_or_def
        ensure_websocket_endpoint_trailing_slash_def)
qed

definition sample_config :: json where
  "sample_config = JObject [(''pythonLibrary'', JString '' /lib/p.so ''), (''websocketEndpoint'', JString ''wss://h/ws'')]"

theorem validated_config_is_usable_witness:
  "get_websocket_endpoint sample_config = ''wss://h/ws/'' \<and> get_log_level sample_config \<in> set VALID_LOG_LEVELS"
proof -
  have "validate_config sample_config = Inr ()" by code_simp
  from validated_config_is_usable [OF this] have "get_log_level sample_config \<in> set VALID_LOG_LEVELS" by blast
  moreover have "get_websocket_endpoint sample_config = ''wss://h/ws/''" by code_simp
  ultimately show ?thesis by simp
qed

text \<open>
  The token has one source. The client starts exactly if one of the configuration and the command
  line provides a non-blank token and the other does not; the token used is that one without
  surrounding white space, and the client reconnects exactly if it came from the configuration.
\<close>

theorem token_has_one_source:
  "(case resolve_websocket_token args config of
      Inl e \<Rightarrow> (get_ltk_from_config config = None) = (length args \<le> 1 \<or> trim (args ! 1) = [])
    | Inr (token, reconn) \<Rightarrow>
        token \<noteq> [] \<and> (\<forall>w\<in>set white_space. \<not> prefix w token \<and> \<not> suffix w token)
        \<and> (if reconn then get_ltk_from_config config = Some token \<and> (length args \<le> 1 \<or> trim (args ! 1) = [])
           else get_ltk_from_config config = None \<and> 1 < length args \<and> token = trim (args ! 1)))"
  using get_non_empty_str_sound [of config "''ltk''"] trim_no_prefix trim_no_suffix
  by (cases "get_ltk_from_config config")
    (auto simp: resolve_websocket_token_def get_ltk_from_config_def Let_def split: if_splits)

theorem token_has_one_source_witness:
  "resolve_websocket_token [''c'', '' tok ''] sample_config = Inr (''tok'', False)"
proof -
  have "resolve_websocket_token [''c'', '' tok ''] sample_config = Inr (''tok'', False)" by code_simp
  then show ?thesis using token_has_one_source [of sample_config "[''c'', '' tok '']"] by simp
qed

end
