(* ===== verification/Logging.thy ===== *)
theory Logging
  imports Config
begin

text \<open>
  Setting up the log, \<^verbatim>\<open>src/src/src/logging.rs\<close>: the directory, the rotating file, the level and the global subscriber. Of the tracing
  library only what the client asks of it is modelled: the directory is created, a file appender is
  built, and a subscriber with a filter is installed once for the process. \<open>None\<close> where the source panics.
\<close>

record log_subscriber =
  log_in :: path
  log_prefix :: string
  log_kept :: nat
  log_filter :: string

text \<open>Whether the directory and the appender can be made, the filter from \<^verbatim>\<open>RUST_LOG\<close>, and whether a global subscriber can be set.\<close>

record log_host =
  makes_dir :: "path \<Rightarrow> bool"
  makes_appender :: "path \<Rightarrow> bool"
  rust_log :: "string option"
  accepts_default :: bool

type_synonym log_state = "log_subscriber option"

definition install_subscriber :: "log_host \<Rightarrow> log_subscriber \<Rightarrow> log_state \<Rightarrow> (log_subscriber \<times> log_state) option" where
  "install_subscriber H sub st = (if accepts_default H then Some (sub, st) else None)"

definition init_logging :: "log_host \<Rightarrow> path \<Rightarrow> string \<Rightarrow> nat \<Rightarrow> string \<Rightarrow> log_state \<Rightarrow> log_state option" where
  "init_logging H log_dir prefix_name max_files level st =
     (if \<not> makes_dir H log_dir then None
      else if \<not> makes_appender H log_dir then None
      else let sub = \<lparr>log_in = log_dir, log_prefix = prefix_name, log_kept = max_files,
                      log_filter = unwrap_or (rust_log H) level\<rparr>
           in map_option snd (get_or_init id (\<lambda>v _. Some v) (install_subscriber H sub) st))"

definition log_dir_of :: "path \<Rightarrow> path" where
  "log_dir_of exe = path_join (unwrap_or (path_parent exe) [CurDir]) [Normal ''logs'']"

definition init_logging_with_level :: "log_host \<Rightarrow> path \<Rightarrow> string \<Rightarrow> log_state \<Rightarrow> log_state option" where
  "init_logging_with_level H exe level = init_logging H (log_dir_of exe) ''adacs_job_client'' 7 level"

text \<open>
  The log is next to the executable, where daemonization puts standard output, at the level of the configuration
  unless the environment overrides it; a later call changes nothing.
\<close>

lemma log_is_set_up_once:
  assumes "init_logging_with_level H exe level None = Some st"
  shows "(\<exists>sub. st = Some sub \<and> log_in sub = log_dir_of exe \<and> log_filter sub = unwrap_or (rust_log H) level)
    \<and> init_logging_with_level H' exe' level' st \<in> {None, Some st}"
  using assms
  by (auto simp: init_logging_with_level_def init_logging_def install_subscriber_def get_or_init_def Let_def
      split: if_splits)

text \<open>A level that passes the validation is the default of the filter.\<close>

lemma log_level_is_configured:
  assumes "validate_config config = Inr ()" "rust_log H = None"
    and "init_logging_with_level H exe (get_log_level config) None = Some (Some sub)"
  shows "log_filter sub \<in> set VALID_LOG_LEVELS"
  using assms log_is_set_up_once [OF assms(3)]
  by (auto simp: unwrap_or_def get_log_level_def validate_config_def Let_def VALID_LOG_LEVELS_def
      split: option.splits if_splits)

end
