(* ===== verification/Daemon.thy ===== *)
theory Daemon
  imports Paths
begin

text \<open>
  Daemonization, \<^verbatim>\<open>src/src/src/daemon.rs\<close>: two forks, the session, the working directory and the file mode mask, and
  the redirection of the standard descriptors. A process has its identifiers and a table of open descriptors; a
  fork gives two processes, so that the function yields every process that returns from it with what it
  returns. The outcomes of the system calls are a record \<open>sys\<close>; what they do to a process when they
  succeed is as POSIX has it: a new descriptor is the lowest free one, \<^verbatim>\<open>setsid\<close> fails for a group leader only.
\<close>

subsection \<open>Descriptors\<close>

datatype open_file = DevNull bool | AppendTo path | OtherFile nat

text \<open>The table as a list; a descriptor beyond its end is closed.\<close>

type_synonym fd_table = "open_file option list"

definition fd_get :: "fd_table \<Rightarrow> nat \<Rightarrow> open_file option" where
  "fd_get t n = (if n < length t then t ! n else None)"

definition fd_put :: "nat \<Rightarrow> open_file option \<Rightarrow> fd_table \<Rightarrow> fd_table" where
  "fd_put n v t = (t @ replicate (Suc n - length t) None)[n := v]"

definition lowest_free :: "fd_table \<Rightarrow> nat" where
  "lowest_free t = length (takeWhile (\<lambda>f. f \<noteq> None) t)"

definition open_fd :: "open_file \<Rightarrow> fd_table \<Rightarrow> nat \<times> fd_table" where
  "open_fd f t = (lowest_free t, fd_put (lowest_free t) (Some f) t)"

definition close_fd :: "nat \<Rightarrow> fd_table \<Rightarrow> fd_table" where
  "close_fd n t = fd_put n None t"

text \<open>\<open>ok\<close> says whether the call succeeds.\<close>

definition dup2 :: "bool \<Rightarrow> nat \<Rightarrow> nat \<Rightarrow> fd_table \<Rightarrow> fd_table" where
  "dup2 ok src dst t = (if ok then fd_put dst (fd_get t src) t else t)"

subsection \<open>Processes\<close>

record process =
  p_pid :: int
  p_pgid :: int
  p_sid :: int
  p_cwd :: path
  p_umask :: nat
  p_fds :: fd_table

record sys =
  s_fork :: "nat \<Rightarrow> int"
  s_chdir :: bool
  s_open :: "nat \<Rightarrow> unit result"
  s_dup2 :: "nat \<Rightarrow> bool"

text \<open>What \<^verbatim>\<open>fork\<close> returns, in each process that it returns in.\<close>

definition fork :: "int \<Rightarrow> process \<Rightarrow> (int \<times> process) list" where
  "fork r p = (if r = -1 then [(-1, p)] else [(r, p), (0, p\<lparr>p_pid := r\<rparr>)])"

definition chdir_root :: "bool \<Rightarrow> process \<Rightarrow> process" where
  "chdir_root ok p = (if ok then p\<lparr>p_cwd := [RootDir]\<rparr> else p)"

definition setsid :: "process \<Rightarrow> process" where
  "setsid p = (if p_pid p = p_pgid p then p else p\<lparr>p_pgid := p_pid p, p_sid := p_pid p\<rparr>)"

subsection \<open>Redirection\<close>

text \<open>The standard descriptors on \<^verbatim>\<open>/dev/null\<close>; on an error nothing that was opened is closed.\<close>

definition null_stdio :: "sys \<Rightarrow> fd_table \<Rightarrow> unit result \<times> fd_table" where
  "null_stdio w t =
     (case s_open w 0 of
        Inl e \<Rightarrow> (Inl (''open /dev/null: '' @ e), t)
      | Inr _ \<Rightarrow>
        let (fd_in, t1) = open_fd (DevNull False) t
        in case s_open w 1 of
             Inl e \<Rightarrow> (Inl (''open /dev/null: '' @ e), t1)
           | Inr _ \<Rightarrow>
               let (fd_out, t2) = open_fd (DevNull True) t1;
                   t3 = dup2 (s_dup2 w 0) fd_in 0 t2;
                   t4 = dup2 (s_dup2 w 1) fd_out 1 t3;
                   t5 = dup2 (s_dup2 w 2) fd_out 2 t4;
                   t6 = (if fd_in > 2 then close_fd fd_in t5 else t5);
                   t7 = (if fd_out > 2 then close_fd fd_out t6 else t6)
               in (Inr (), t7))"

text \<open>Output and errors into the log files; the files are closed when they go out of scope, on an error too.\<close>

definition log_stdio :: "sys \<Rightarrow> path \<Rightarrow> fd_table \<Rightarrow> unit result \<times> fd_table" where
  "log_stdio w log_dir t =
     (case s_open w 2 of
        Inl e \<Rightarrow> (Inl e, t)
      | Inr _ \<Rightarrow>
        let (stdout_fd, t1) = open_fd (AppendTo (path_join log_dir [Normal ''stdout.log''])) t
        in case s_open w 3 of
             Inl e \<Rightarrow> (Inl e, close_fd stdout_fd t1)
           | Inr _ \<Rightarrow>
               let (stderr_fd, t2) = open_fd (AppendTo (path_join log_dir [Normal ''stderr.log''])) t1;
                   t3 = dup2 (s_dup2 w 3) stdout_fd 1 t2;
                   t4 = dup2 (s_dup2 w 4) stderr_fd 2 t3
               in (Inr (), close_fd stdout_fd (close_fd stderr_fd t4)))"

definition redirect_stdio :: "sys \<Rightarrow> path \<Rightarrow> process \<Rightarrow> bool result \<times> process" where
  "redirect_stdio w log_dir p =
     (case null_stdio w (p_fds p) of
        (Inl e, t) \<Rightarrow> (Inl e, p\<lparr>p_fds := t\<rparr>)
      | (Inr _, t) \<Rightarrow>
          (case log_stdio w log_dir t of
             (Inl e, t') \<Rightarrow> (Inl e, p\<lparr>p_fds := t'\<rparr>)
           | (Inr _, t') \<Rightarrow> (Inr True, p\<lparr>p_fds := t'\<rparr>)))"

subsection \<open>Daemonization\<close>

definition second_fork :: "sys \<Rightarrow> path \<Rightarrow> int \<times> process \<Rightarrow> bool result \<times> process" where
  "second_fork w log_dir = (\<lambda>(r, p).
     if r = -1 then (Inl ''fork #2 failed'', p)
     else if r > 0 then (Inr False, p)
     else redirect_stdio w log_dir p)"

definition detach :: "sys \<Rightarrow> process \<Rightarrow> process" where
  "detach w p = (setsid (chdir_root (s_chdir w) p))\<lparr>p_umask := 18\<rparr>"

definition first_fork :: "sys \<Rightarrow> path \<Rightarrow> int \<times> process \<Rightarrow> (bool result \<times> process) list" where
  "first_fork w log_dir = (\<lambda>(r, p).
     if r = -1 then [(Inl ''fork #1 failed'', p)]
     else if r > 0 then [(Inr False, p)]
     else map (second_fork w log_dir) (fork (s_fork w 1) (detach w p)))"

definition daemonize_with_log_redirect :: "sys \<Rightarrow> path \<Rightarrow> process \<Rightarrow> (bool result \<times> process) list" where
  "daemonize_with_log_redirect w log_dir p = concat (map (first_fork w log_dir) (fork (s_fork w 0) p))"

subsection \<open>Lemmas on descriptors\<close>

lemma fd_get_put [simp]: "fd_get (fd_put n v t) m = (if m = n then v else fd_get t m)"
  by (auto simp: fd_get_def fd_put_def nth_append nth_list_update)

lemma fd_get_lowest_free [simp]: "fd_get t (lowest_free t) = None"
  using nth_length_takeWhile [of "\<lambda>f. f \<noteq> None" t] by (simp add: fd_get_def lowest_free_def)

lemma below_lowest_free: "n < lowest_free t \<Longrightarrow> fd_get t n \<noteq> None"
  using nth_mem [of n "takeWhile (\<lambda>f. f \<noteq> None) t"] length_takeWhile_le [of "\<lambda>f. f \<noteq> None" t]
  by (auto simp: lowest_free_def fd_get_def takeWhile_nth dest: set_takeWhileD)

text \<open>A second descriptor is above the first and was free as well.\<close>

lemma second_lowest_free:
  "lowest_free t < lowest_free (fd_put (lowest_free t) (Some f) t)
   \<and> fd_get t (lowest_free (fd_put (lowest_free t) (Some f) t)) = None"
proof -
  let ?t1 = "fd_put (lowest_free t) (Some f) t"
  have "fd_get ?t1 (lowest_free ?t1) = None" by (rule fd_get_lowest_free)
  then have o: "lowest_free ?t1 \<noteq> lowest_free t" "fd_get t (lowest_free ?t1) = None"
    by (auto simp del: fd_get_lowest_free split: if_splits)
  then show ?thesis using below_lowest_free [of "lowest_free ?t1" t] by (metis linorder_neqE_nat)
qed

lemma fd_get_close [simp]: "fd_get (close_fd n t) m = (if m = n then None else fd_get t m)"
  by (simp add: close_fd_def)

lemma fd_get_dup2 [simp]: "fd_get (dup2 True src dst t) m = (if m = dst then fd_get t src else fd_get t m)"
  by (simp add: dup2_def)

text \<open>With the standard descriptors open, a new descriptor is none of them.\<close>

lemma lowest_free_ge:
  assumes "fd_get t 0 \<noteq> None" "fd_get t 1 \<noteq> None" "fd_get t 2 \<noteq> None"
  shows "2 < lowest_free t"
proof (rule ccontr)
  assume "\<not> 2 < lowest_free t"
  then have "lowest_free t \<in> {0, 1, 2}" by auto
  moreover have "fd_get t (lowest_free t) = None" by (rule fd_get_lowest_free)
  ultimately show False using assms by (auto simp del: fd_get_lowest_free)
qed

text \<open>Whichever standard descriptors were closed before, they end on \<^verbatim>\<open>/dev/null\<close>, and no other descriptor is left open.\<close>

lemma null_stdio_ok:
  assumes "null_stdio w t = (Inr (), t')" "s_dup2 w 0" "s_dup2 w 1" "s_dup2 w 2"
  shows "fd_get t' n = (if n = 0 then Some (DevNull False) else if n = 1 \<or> n = 2 then Some (DevNull True) else fd_get t n)"
proof -
  show ?thesis
    using assms second_lowest_free [of t "DevNull False"] fd_get_lowest_free [of t]
    by (auto simp: null_stdio_def open_fd_def Let_def split: sum.splits if_splits)
qed

lemma log_stdio_ok:
  assumes "log_stdio w log_dir t = (Inr (), t')" "s_dup2 w 3" "s_dup2 w 4"
    and "fd_get t 0 \<noteq> None" "fd_get t 1 \<noteq> None" "fd_get t 2 \<noteq> None"
  shows "fd_get t' n = (if n = 1 then Some (AppendTo (path_join log_dir [Normal ''stdout.log'']))
    else if n = 2 then Some (AppendTo (path_join log_dir [Normal ''stderr.log''])) else fd_get t n)"
proof -
  let ?f = "AppendTo (path_join log_dir [Normal ''stdout.log''])"
  let ?t1 = "fd_put (lowest_free t) (Some ?f) t"
  have "2 < lowest_free t" "2 < lowest_free ?t1"
    using assms(4-) by (auto intro!: lowest_free_ge)
  then show ?thesis
    using assms(1-3) second_lowest_free [of t ?f] fd_get_lowest_free [of t]
    by (auto simp: log_stdio_def open_fd_def Let_def split: sum.splits if_splits)
qed

text \<open>All duplications of descriptors succeed.\<close>

definition dups_ok :: "sys \<Rightarrow> bool" where
  "dups_ok w \<longleftrightarrow> list_all (s_dup2 w) [0, 1, 2, 3, 4]"

lemma redirect_stdio_ok:
  assumes "redirect_stdio w log_dir p = (Inr True, q)" "dups_ok w"
  shows "fd_get (p_fds q) = (fd_get (p_fds p))(0 := Some (DevNull False),
      1 := Some (AppendTo (path_join log_dir [Normal ''stdout.log''])),
      2 := Some (AppendTo (path_join log_dir [Normal ''stderr.log''])))"
proof -
  obtain t where t: "null_stdio w (p_fds p) = (Inr (), t)" "log_stdio w log_dir t = (Inr (), p_fds q)"
    using assms(1) by (auto simp: redirect_stdio_def split: prod.splits sum.splits)
  note d = assms(2) [unfolded dups_ok_def, simplified]
  have n: "fd_get t n = (if n = 0 then Some (DevNull False) else if n = 1 \<or> n = 2 then Some (DevNull True)
      else fd_get (p_fds p) n)" for n
    using null_stdio_ok [OF t(1)] d by simp
  show ?thesis
    using log_stdio_ok [OF t(2)] d by (auto simp: fun_eq_iff n)
qed

lemma redirect_stdio_keeps:
  assumes "redirect_stdio w log_dir p = (r, q)"
  shows "r \<noteq> Inr False \<and> (\<exists>t. q = p\<lparr>p_fds := t\<rparr>)"
  using assms by (auto simp: redirect_stdio_def split: prod.splits sum.splits)

subsection \<open>Properties\<close>

text \<open>A fork fails or gives an identifier that no process, group or session has.\<close>

definition forks_fresh :: "sys \<Rightarrow> process \<Rightarrow> bool" where
  "forks_fresh w p \<longleftrightarrow>
     (s_fork w 0 = -1 \<or> s_fork w 0 > 0 \<and> s_fork w 0 \<notin> {p_pid p, p_pgid p, p_sid p})
     \<and> (s_fork w 1 = -1 \<or> s_fork w 1 > 0 \<and> s_fork w 1 \<notin> {p_pid p, p_pgid p, p_sid p, s_fork w 0})"

text \<open>The daemon: the second child, in the session of the first.\<close>

definition daemon_of :: "sys \<Rightarrow> process \<Rightarrow> process" where
  "daemon_of w p = (detach w (p\<lparr>p_pid := s_fork w 0\<rparr>))\<lparr>p_pid := s_fork w 1\<rparr>"

lemma daemon_of_fields:
  assumes "forks_fresh w p" "s_fork w 0 \<noteq> -1" "s_fork w 1 \<noteq> -1"
  shows "p_sid (daemon_of w p) = s_fork w 0" "p_pid (daemon_of w p) = s_fork w 1" "p_umask (daemon_of w p) = 18"
    "s_chdir w \<Longrightarrow> p_cwd (daemon_of w p) = [RootDir]" "p_fds (daemon_of w p) = p_fds p"
  using assms by (auto simp: daemon_of_def detach_def setsid_def chdir_root_def forks_fresh_def)

lemma one_process_goes_on:
  assumes "forks_fresh w p"
  shows "\<exists>r q. filter (\<lambda>(r, _). r \<noteq> Inr False) (daemonize_with_log_redirect w log_dir p) = [(r, q)] \<and>
    (r = Inr True \<longrightarrow> s_fork w 0 \<noteq> -1 \<and> s_fork w 1 \<noteq> -1 \<and> redirect_stdio w log_dir (daemon_of w p) = (r, q))"
proof (cases "s_fork w 0 = -1 \<or> s_fork w 1 = -1")
  case True
  then show ?thesis
    using assms
    by (auto simp: daemonize_with_log_redirect_def fork_def first_fork_def second_fork_def forks_fresh_def)
next
  case False
  obtain r q where r: "redirect_stdio w log_dir (daemon_of w p) = (r, q)"
    by (cases "redirect_stdio w log_dir (daemon_of w p)")
  then have "filter (\<lambda>(r, _). r \<noteq> Inr False) (daemonize_with_log_redirect w log_dir p) = [(r, q)]"
    using False assms redirect_stdio_keeps [OF r]
    by (auto simp: daemonize_with_log_redirect_def fork_def first_fork_def second_fork_def forks_fresh_def daemon_of_def)
  then show ?thesis using False r by blast
qed


definition sample_sys :: sys where
  "sample_sys = \<lparr>s_fork = (\<lambda>n. if n = 0 then 20 else 21), s_chdir = True, s_open = (\<lambda>_. Inr ()), s_dup2 = (\<lambda>_. True)\<rparr>"

definition sample_process :: process where
  "sample_process = \<lparr>p_pid = 10, p_pgid = 10, p_sid = 5, p_cwd = [], p_umask = 0, p_fds = [None, Some (OtherFile 1)]\<rparr>"


end
