(* ===== verification/Python_Init.thy ===== *)
theory Python_Init
  imports Once_Cell
begin

text \<open>
  How the process gets its Python interpreter, \<^verbatim>\<open>src/src/src/python_interface.rs\<close>: loading the shared library, the hooks on the
  interpreter's lock functions, the initialisation, and the cached singletons. Calls into the dynamic linker, the
  hooking library and Python are noted in the order they are made; their answers come from a
  record \<open>python_host\<close> and may depend on all calls so far. Operations that can panic have the value \<open>None\<close> then.
\<close>

subsection \<open>State\<close>

datatype host_call =
  Dlopen string
| LibraryNew string
| SubhookNew string string
| SubhookInstall string
| AppendInittab string
| PyCall string

record python_host =
  h_dlopen :: "host_call list \<Rightarrow> bool"
  h_dlerror :: "host_call list \<Rightarrow> bytes option"
  h_library :: "host_call list \<Rightarrow> unit result"
  h_symbol :: "string \<Rightarrow> nat result"
  h_subhook_new :: "host_call list \<Rightarrow> bool"
  h_subhook_install :: "host_call list \<Rightarrow> int"
  h_inittab :: "host_call list \<Rightarrow> int"
  h_save_thread :: "host_call list \<Rightarrow> nat"

text \<open>The global cells; pointers are numbers.\<close>

record python_globals =
  PY_LIB :: "string option"
  PY_NONE_STRUCT :: "nat option"
  PY_TRUE_STRUCT :: "nat option"
  MAIN_TS :: "nat option"
  INIT_PYTHON :: "unit result option"
  host_calls :: "host_call list"

definition fresh_globals :: python_globals where
  "fresh_globals = \<lparr>PY_LIB = None, PY_NONE_STRUCT = None, PY_TRUE_STRUCT = None, MAIN_TS = None,
     INIT_PYTHON = None, host_calls = []\<rparr>"

definition host_call :: "host_call \<Rightarrow> python_globals \<Rightarrow> python_globals" where
  "host_call c g = g\<lparr>host_calls := host_calls g @ [c]\<rparr>"

subsection \<open>The library\<close>

definition c_path_from_str :: "string \<Rightarrow> string result" where
  "c_path_from_str path = (if CHR 0x00 \<in> set path then Inl ''invalid library path'' else Inr path)"

definition dlopen_error_detail :: "bytes option \<Rightarrow> string" where
  "dlopen_error_detail err = (case err of None \<Rightarrow> ''unknown dlopen error'' | Some s \<Rightarrow> from_utf8_lossy s)"

definition load_python_library :: "python_host \<Rightarrow> string \<Rightarrow> python_globals \<Rightarrow> unit result \<times> python_globals" where
  "load_python_library H path g =
     (if PY_LIB g \<noteq> None then (Inr (), g)
      else case c_path_from_str path of
        Inl e \<Rightarrow> (Inl e, g)
      | Inr c_path \<Rightarrow>
          let g1 = host_call (Dlopen c_path) g
          in if \<not> h_dlopen H (host_calls g1)
             then (Inl (''Failed to dlopen libpython: '' @ dlopen_error_detail (h_dlerror H (host_calls g1))), g1)
             else let g2 = host_call (LibraryNew path) g1
                  in (case h_library H (host_calls g2) of
                        Inl e \<Rightarrow> (Inl (''Failed to load libpython via libloading: '' @ e), g2)
                      | Inr _ \<Rightarrow> (Inr (), set_once PY_LIB (\<lambda>v s. s\<lparr>PY_LIB := Some v\<rparr>) path g2)))"

definition get_python_lib :: "python_globals \<Rightarrow> string option" where
  "get_python_lib g = PY_LIB g"

definition get_main_ts :: "python_globals \<Rightarrow> nat option" where
  "get_main_ts g = MAIN_TS g"

text \<open>A function of \<^verbatim>\<open>py_wrap!\<close>: it panics without the library and without the symbol.\<close>

definition py_wrapped :: "python_host \<Rightarrow> string \<Rightarrow> python_globals \<Rightarrow> python_globals option" where
  "py_wrapped H name g =
     (case get_python_lib g of
        None \<Rightarrow> None
      | Some _ \<Rightarrow> (case h_symbol H name of Inl _ \<Rightarrow> None | Inr _ \<Rightarrow> Some (host_call (PyCall name) g)))"

definition PyImport_AppendInittab :: "python_host \<Rightarrow> string \<Rightarrow> python_globals \<Rightarrow> (int \<times> python_globals) option" where
  "PyImport_AppendInittab H name g =
     (case get_python_lib g of
        None \<Rightarrow> None
      | Some _ \<Rightarrow>
          (case h_symbol H ''PyImport_AppendInittab'' of
             Inl _ \<Rightarrow> None
           | Inr _ \<Rightarrow> let g1 = host_call (AppendInittab name) g in Some (h_inittab H (host_calls g1), g1)))"

definition find_singleton :: "python_host \<Rightarrow> string \<Rightarrow> python_globals \<Rightarrow> (nat \<times> python_globals) option" where
  "find_singleton H name g =
     (case get_python_lib g of
        None \<Rightarrow> None
      | Some _ \<Rightarrow> (case h_symbol H name of Inl _ \<Rightarrow> None | Inr ptr \<Rightarrow> Some (ptr, g)))"

definition my_py_none_struct :: "python_host \<Rightarrow> python_globals \<Rightarrow> (nat \<times> python_globals) option" where
  "my_py_none_struct H =
     get_or_init PY_NONE_STRUCT (\<lambda>v s. s\<lparr>PY_NONE_STRUCT := Some v\<rparr>) (find_singleton H ''_Py_NoneStruct'')"

definition my_py_true_struct :: "python_host \<Rightarrow> python_globals \<Rightarrow> (nat \<times> python_globals) option" where
  "my_py_true_struct H =
     get_or_init PY_TRUE_STRUCT (\<lambda>v s. s\<lparr>PY_TRUE_STRUCT := Some v\<rparr>) (find_singleton H ''_Py_TrueStruct'')"

definition MyPy_IsNone :: "python_host \<Rightarrow> nat \<Rightarrow> python_globals \<Rightarrow> (bool \<times> python_globals) option" where
  "MyPy_IsNone H obj g =
     (case my_py_none_struct H g of None \<Rightarrow> None | Some (ptr, g') \<Rightarrow> Some (obj = ptr, g'))"

subsection \<open>The hooks and the interpreter\<close>

definition install_gil_hook ::
    "python_host \<Rightarrow> string \<Rightarrow> string \<Rightarrow> string \<Rightarrow> python_globals \<Rightarrow> unit result \<times> python_globals" where
  "install_gil_hook H name replacement install_err g =
     (let g1 = host_call (SubhookNew name replacement) g
      in if \<not> h_subhook_new H (host_calls g1) then (Inl (''Failed to create subhook for '' @ name), g1)
         else let g2 = host_call (SubhookInstall name) g1
              in if h_subhook_install H (host_calls g2) < 0 then (Inl install_err, g2) else (Inr (), g2))"

definition install_gil_hooks :: "python_host \<Rightarrow> python_globals \<Rightarrow> (unit result \<times> python_globals) option" where
  "install_gil_hooks H g =
     (case get_python_lib g of
        None \<Rightarrow> None
      | Some _ \<Rightarrow> Some (
          case h_symbol H ''PyGILState_Ensure'' of
            Inl e \<Rightarrow> (Inl (''Failed to look up PyGILState_Ensure symbol: '' @ e), g)
          | Inr _ \<Rightarrow>
              (case h_symbol H ''PyGILState_Release'' of
                 Inl e \<Rightarrow> (Inl (''Failed to look up PyGILState_Release symbol: '' @ e), g)
               | Inr _ \<Rightarrow>
                   (case install_gil_hook H ''PyGILState_Ensure'' ''myPyGILState_Ensure''
                           ''PyGILState_Ensure redirection failed to install'' g of
                      (Inl e, g1) \<Rightarrow> (Inl e, g1)
                    | (Inr _, g1) \<Rightarrow>
                        install_gil_hook H ''PyGILState_Release'' ''myPyGILState_Release''
                          ''PyGILState_Release redirection failed to install'' g1))))"

definition initialise_interpreter :: "python_host \<Rightarrow> python_globals \<Rightarrow> (unit result \<times> python_globals) option" where
  "initialise_interpreter H g =
     (case install_gil_hooks H g of
        None \<Rightarrow> None
      | Some (Inl e, g1) \<Rightarrow> Some (Inl e, g1)
      | Some (Inr _, g1) \<Rightarrow>
          (case py_wrapped H ''Py_Initialize'' g1 of
             None \<Rightarrow> None
           | Some g2 \<Rightarrow>
               (case py_wrapped H ''PyEval_InitThreads'' g2 of
                  None \<Rightarrow> None
                | Some g3 \<Rightarrow>
                    (case py_wrapped H ''PyEval_SaveThread'' g3 of
                       None \<Rightarrow> None
                     | Some g4 \<Rightarrow>
                         Some (Inr (), set_once MAIN_TS (\<lambda>v s. s\<lparr>MAIN_TS := Some v\<rparr>)
                                         (h_save_thread H (host_calls g4)) g4)))))"

definition init_python :: "python_host \<Rightarrow> python_globals \<Rightarrow> (unit result \<times> python_globals) option" where
  "init_python H =
     get_or_init INIT_PYTHON (\<lambda>v s. s\<lparr>INIT_PYTHON := Some v\<rparr>) (initialise_interpreter H)"

subsection \<open>Runs\<close>

text \<open>
  The operations on the globals, in any order. Only \<^verbatim>\<open>init_python\<close> calls \<^verbatim>\<open>Py_Initialize\<close> and \<^verbatim>\<open>PyEval_InitThreads\<close>.
\<close>

definition set_up_calls :: "string set" where
  "set_up_calls = {''Py_Initialize'', ''PyEval_InitThreads''}"

inductive globals_step :: "python_host \<Rightarrow> python_globals \<Rightarrow> python_globals \<Rightarrow> bool" for H where
  load: "load_python_library H path g = (r, g') \<Longrightarrow> globals_step H g g'"
| append: "PyImport_AppendInittab H name g = Some (n, g') \<Longrightarrow> globals_step H g g'"
| initp: "init_python H g = Some (r, g') \<Longrightarrow> globals_step H g g'"
| none: "my_py_none_struct H g = Some (p, g') \<Longrightarrow> globals_step H g g'"
| true: "my_py_true_struct H g = Some (p, g') \<Longrightarrow> globals_step H g g'"
| wrapped: "py_wrapped H name g = Some g' \<Longrightarrow> name \<notin> set_up_calls \<Longrightarrow> globals_step H g g'"

interpretation init_cell: once_cell INIT_PYTHON "\<lambda>v s. s\<lparr>INIT_PYTHON := Some v\<rparr>"
  by unfold_locales simp

interpretation none_cell: once_cell PY_NONE_STRUCT "\<lambda>v s. s\<lparr>PY_NONE_STRUCT := Some v\<rparr>"
  by unfold_locales simp

interpretation true_cell: once_cell PY_TRUE_STRUCT "\<lambda>v s. s\<lparr>PY_TRUE_STRUCT := Some v\<rparr>"
  by unfold_locales simp

interpretation ts_cell: once_cell MAIN_TS "\<lambda>v s. s\<lparr>MAIN_TS := Some v\<rparr>"
  by unfold_locales simp

text \<open>The calls that install hooks or set up the interpreter, and what they are in a successful set-up.\<close>

fun is_set_up :: "host_call \<Rightarrow> bool" where
  "is_set_up (SubhookNew a b) \<longleftrightarrow> True"
| "is_set_up (SubhookInstall a) \<longleftrightarrow> True"
| "is_set_up (PyCall name) \<longleftrightarrow> name \<in> set_up_calls"
| "is_set_up _ \<longleftrightarrow> False"

definition hook_calls :: "host_call list" where
  "hook_calls =
     [SubhookNew ''PyGILState_Ensure'' ''myPyGILState_Ensure'', SubhookInstall ''PyGILState_Ensure'',
      SubhookNew ''PyGILState_Release'' ''myPyGILState_Release'', SubhookInstall ''PyGILState_Release'']"

definition init_calls :: "host_call list" where
  "init_calls = hook_calls @ [PyCall ''Py_Initialize'', PyCall ''PyEval_InitThreads'']"

definition set_up_inv :: "python_globals \<Rightarrow> bool" where
  "set_up_inv g \<longleftrightarrow>
     (MAIN_TS g \<noteq> None \<longleftrightarrow> INIT_PYTHON g = Some (Inr ()))
     \<and> (INIT_PYTHON g \<noteq> None \<longrightarrow> PY_LIB g \<noteq> None)
     \<and> (case INIT_PYTHON g of
          None \<Rightarrow> filter is_set_up (host_calls g) = []
        | Some (Inl _) \<Rightarrow> prefix (filter is_set_up (host_calls g)) hook_calls
        | Some (Inr _) \<Rightarrow> filter is_set_up (host_calls g) = init_calls)"

lemma install_gil_hook_calls:
  assumes "install_gil_hook H name replacement err g = (r, g')"
  shows "\<exists>cs. g' = g\<lparr>host_calls := host_calls g @ cs\<rparr> \<and> prefix cs [SubhookNew name replacement, SubhookInstall name] \<and>
    (\<not> isl r \<longrightarrow> cs = [SubhookNew name replacement, SubhookInstall name])"
  using assms by (auto simp: install_gil_hook_def host_call_def Let_def split: if_splits)

lemma install_gil_hooks_calls:
  assumes "install_gil_hooks H g = Some (r, g')"
  shows "\<exists>cs. g' = g\<lparr>host_calls := host_calls g @ cs\<rparr> \<and> PY_LIB g \<noteq> None \<and> prefix cs hook_calls \<and> (\<not> isl r \<longrightarrow> cs = hook_calls)"
proof (cases "isl (h_symbol H ''PyGILState_Ensure'') \<or> isl (h_symbol H ''PyGILState_Release'')")
  case True
  then show ?thesis
    using assms by (intro exI [of _ "[]"]) (auto simp: install_gil_hooks_def get_python_lib_def split: option.splits sum.splits)
next
  case False
  obtain q g1 where e: "install_gil_hook H ''PyGILState_Ensure'' ''myPyGILState_Ensure''
      ''PyGILState_Ensure redirection failed to install'' g = (q, g1)" by fastforce
  obtain q' g2 where r: "install_gil_hook H ''PyGILState_Release'' ''myPyGILState_Release''
      ''PyGILState_Release redirection failed to install'' g1 = (q', g2)" by fastforce
  show ?thesis
    using False assms install_gil_hook_calls [OF e] install_gil_hook_calls [OF r] e r
    by (cases q) (auto simp: install_gil_hooks_def get_python_lib_def hook_calls_def prefix_Cons split: option.splits sum.splits)
qed

lemma hook_calls_set_up: "prefix cs hook_calls \<Longrightarrow> filter is_set_up cs = cs"
  by (auto simp: hook_calls_def prefix_Cons)

lemma initialise_interpreter_calls:
  assumes "initialise_interpreter H g = Some (r, g')" "MAIN_TS g = None"
  shows "PY_LIB g' = PY_LIB g \<and> PY_LIB g \<noteq> None \<and> (MAIN_TS g' \<noteq> None \<longleftrightarrow> r = Inr ()) \<and>
    (\<exists>cs. host_calls g' = host_calls g @ cs \<and>
      (if isl r then prefix cs hook_calls else cs = init_calls @ [PyCall ''PyEval_SaveThread'']))"
proof -
  obtain q g1 where h: "install_gil_hooks H g = Some (q, g1)"
    using assms(1) by (auto simp: initialise_interpreter_def split: option.splits)
  show ?thesis
    using install_gil_hooks_calls [OF h] assms h
    by (cases q) (auto simp: initialise_interpreter_def py_wrapped_def host_call_def set_once_def init_calls_def
        split: option.splits sum.splits)
qed

lemma set_up_inv_init:
  assumes "init_python H g = Some (r, g')" "set_up_inv g"
  shows "set_up_inv g'"
proof (cases "INIT_PYTHON g")
  case None
  then obtain g1 where i: "initialise_interpreter H g = Some (r, g1)" "g' = g1\<lparr>INIT_PYTHON := Some r\<rparr>"
    using assms(1) by (auto simp: init_python_def get_or_init_def split: option.splits)
  then show ?thesis
    using initialise_interpreter_calls [OF i(1)] assms(2) None
    by (cases r) (auto simp: set_up_inv_def hook_calls_set_up init_calls_def, auto simp: set_up_calls_def hook_calls_def)
next
  case (Some v)
  then show ?thesis using assms by (simp add: init_python_def init_cell.filled)
qed

lemma set_up_inv_step:
  assumes "globals_step H g g'" "set_up_inv g"
  shows "set_up_inv g'"
  using assms(1)
proof cases
  case initp
  then show ?thesis using set_up_inv_init assms(2) by blast
qed (use assms(2) in \<open>auto simp: set_up_inv_def load_python_library_def PyImport_AppendInittab_def my_py_none_struct_def
      my_py_true_struct_def get_or_init_def find_singleton_def py_wrapped_def host_call_def set_once_def Let_def
    split: option.splits sum.splits if_splits\<close>)

interpretation set_up: invariant_system fresh_globals "globals_step H" set_up_inv
  by unfold_locales (auto intro: set_up_inv_step, simp add: set_up_inv_def fresh_globals_def)

subsection \<open>Properties\<close>

lemma init_result_stays:
  assumes "globals_step H g g'" "INIT_PYTHON g = Some r"
  shows "INIT_PYTHON g' = Some r"
  using assms(1)
proof cases
  case initp
  then show ?thesis using assms(2) by (simp add: init_python_def init_cell.filled)
qed (use assms(2) in \<open>auto simp: load_python_library_def PyImport_AppendInittab_def my_py_none_struct_def
      my_py_true_struct_def get_or_init_def find_singleton_def py_wrapped_def host_call_def set_once_def Let_def
    split: option.splits sum.splits if_splits\<close>)

text \<open>With a library that has the functions and hooks that can be installed, the interpreter is set up.\<close>

lemma init_python_succeeds:
  assumes "PY_LIB g \<noteq> None" "INIT_PYTHON g = None" "\<forall>name. \<not> isl (h_symbol H name)"
    and "\<forall>cs. h_subhook_new H cs" "\<forall>cs. h_subhook_install H cs \<ge> 0"
  shows "\<exists>g'. init_python H g = Some (Inr (), g') \<and> host_calls g' = host_calls g @ init_calls @ [PyCall ''PyEval_SaveThread'']
    \<and> INIT_PYTHON g' = Some (Inr ())"
proof -
  obtain lib where lib: "PY_LIB g = Some lib" using assms(1) by blast
  have sym: "\<exists>p. h_symbol H name = Inr p" for name using assms(3) by (metis isl_def sum.exhaust)
  obtain e r i t v where "h_symbol H ''PyGILState_Ensure'' = Inr e" "h_symbol H ''PyGILState_Release'' = Inr r"
    "h_symbol H ''Py_Initialize'' = Inr i" "h_symbol H ''PyEval_InitThreads'' = Inr t"
    "h_symbol H ''PyEval_SaveThread'' = Inr v"
    using sym by metis
  then show ?thesis
    using lib assms(2,4,5)
    by (simp add: init_python_def get_or_init_def initialise_interpreter_def install_gil_hooks_def install_gil_hook_def
        get_python_lib_def py_wrapped_def host_call_def set_once_def Let_def not_less init_calls_def hook_calls_def)
qed

text \<open>
  C31. The interpreter is set up at most once in a process, in whatever order its operations are used: both lock
  functions are replaced before \<^verbatim>\<open>Py_Initialize\<close>, which is never called if a hook could not be installed; the main thread
  state that the bundles need exists exactly if the set-up succeeded; and from the first result on every
  further call gives that result and does nothing.
\<close>

theorem python_is_set_up_once:
  assumes "(globals_step H)\<^sup>*\<^sup>* fresh_globals g"
  shows "(get_main_ts g \<noteq> None \<longleftrightarrow> INIT_PYTHON g = Some (Inr ()))
    \<and> (if INIT_PYTHON g = Some (Inr ()) then filter is_set_up (host_calls g) = init_calls
       else PyCall ''Py_Initialize'' \<notin> set (host_calls g))
    \<and> (\<forall>g' r. INIT_PYTHON g = Some r \<longrightarrow> (globals_step H)\<^sup>*\<^sup>* g g' \<longrightarrow> init_python H g' = Some (r, g'))"
proof -
  have inv: "set_up_inv g" using set_up.inv_always [OF assms] .
  have "init_python H g' = Some (r, g')" if "INIT_PYTHON g = Some r" "(globals_step H)\<^sup>*\<^sup>* g g'" for g' r
    using set_up.stable_ever_after [OF that(2) inv, of "\<lambda>u. INIT_PYTHON u = Some r"] that(1)
    by (auto simp: init_python_def intro: init_cell.filled dest: init_result_stays)
  moreover have "PyCall ''Py_Initialize'' \<notin> set cs" if "prefix (filter is_set_up cs) hook_calls" for cs
  proof
    assume "PyCall ''Py_Initialize'' \<in> set cs"
    then have "PyCall ''Py_Initialize'' \<in> set hook_calls"
      using that set_mono_prefix [of "filter is_set_up cs" hook_calls] by (auto simp: set_up_calls_def)
    then show False by (simp add: hook_calls_def)
  qed
  moreover have "prefix (filter is_set_up (host_calls g)) hook_calls" if "INIT_PYTHON g \<noteq> Some (Inr ())"
    using inv that by (auto simp: set_up_inv_def split: option.splits sum.splits)
  ultimately show ?thesis using inv by (auto simp: set_up_inv_def get_main_ts_def)
qed

definition willing_host :: python_host where
  "willing_host = \<lparr>h_dlopen = (\<lambda>_. True), h_dlerror = (\<lambda>_. None), h_library = (\<lambda>_. Inr ()), h_symbol = (\<lambda>_. Inr 1),
     h_subhook_new = (\<lambda>_. True), h_subhook_install = (\<lambda>_. 0), h_inittab = (\<lambda>_. 0), h_save_thread = (\<lambda>_. 7)\<rparr>"

theorem python_is_set_up_once_witness:
  "\<exists>g. (globals_step willing_host)\<^sup>*\<^sup>* fresh_globals g \<and> INIT_PYTHON g = Some (Inr ())
     \<and> init_python willing_host g = Some (Inr (), g)"
proof -
  obtain r g1 where l: "load_python_library willing_host ''p.so'' fresh_globals = (r, g1)" by fastforce
  then have g1: "PY_LIB g1 \<noteq> None" "INIT_PYTHON g1 = None"
    by (auto simp: load_python_library_def willing_host_def fresh_globals_def c_path_from_str_def host_call_def
        set_once_def Let_def)
  obtain g where i: "init_python willing_host g1 = Some (Inr (), g)" "INIT_PYTHON g = Some (Inr ())"
    using init_python_succeeds [OF g1, of willing_host] by (auto simp: willing_host_def)
  have "(globals_step willing_host)\<^sup>*\<^sup>* fresh_globals g"
    using globals_step.load [OF l] globals_step.initp [OF i(1)] by (meson converse_rtranclp_into_rtranclp rtranclp.rtrancl_refl)
  then show ?thesis using python_is_set_up_once [of willing_host g] i(2) by blast
qed

end
