(* ===== verification/Update_Check.thy ===== *)
theory Update_Check
  imports Config
begin

text \<open>
  Self-update, \<^verbatim>\<open>src/src/src/update_check.rs\<close>: reading the release description, the version comparison,
  the bounded download with its retries, the digest check, and the replacement of the running binary.
  Version parsing and comparison, SHA-256 and the HTTP client are other crates: the first two are
  parameters (\<open>update_lib\<close>), the client, the file system and the process are an \<open>update_outside\<close> that
  answers events, as in \<open>Environment\<close>.
\<close>

abbreviation MAX_DOWNLOAD_RETRIES :: nat where "MAX_DOWNLOAD_RETRIES \<equiv> 3"
abbreviation MAX_DOWNLOAD_SIZE_BYTES :: nat where "MAX_DOWNLOAD_SIZE_BYTES \<equiv> 1073741824"

record 'v update_lib =
  parse_version :: "string \<Rightarrow> 'v result"
  version_le :: "'v \<Rightarrow> 'v \<Rightarrow> bool"
  sha256_hex :: "bytes \<Rightarrow> string"

text \<open>A response body is the bytes it delivers and whether it then ends or fails.\<close>

record body =
  body_bytes :: bytes
  body_error :: "string option"

datatype update_event =
  FetchRelease
| FetchAsset string
| Sleep u64
| WriteUpdate path bytes
| ChmodUpdate path
| RenameUpdate path path
| RemoveUpdate path
| RestartApp
| ExitProcess

type_synonym 'a uio = "update_event list \<Rightarrow> 'a \<times> update_event list"

record update_outside =
  u_release :: "update_event list \<Rightarrow> json result result"
  u_asset :: "update_event list \<Rightarrow> body result"
  u_fs :: "update_event list \<Rightarrow> unit result"
  u_exe :: "path result"
  u_current_version :: string

definition u_do :: "update_outside \<Rightarrow> update_event \<Rightarrow> unit result uio" where
  "u_do env e tr = (let tr' = tr @ [e] in (u_fs env tr', tr'))"

subsection \<open>Reading the release\<close>

definition get_update_path :: "path \<Rightarrow> path" where
  "get_update_path executable_path =
     (let name = Normal ''adacs_job_client.update''
      in if executable_path \<noteq> [] \<and> (case last executable_path of Normal _ \<Rightarrow> True | _ \<Rightarrow> False) then butlast executable_path @ [name]
         else executable_path @ [name])"

definition retry_delay_secs :: "u32 \<Rightarrow> u64" where
  "retry_delay_secs attempt =
     (let n = unat attempt - 1 in 1 * (if 2 ^ n < (2::nat) ^ 64 then 2 ^ n else - 1))"

record release_info =
  download_url :: string
  digest :: "string option"

definition json_nth :: "json \<Rightarrow> nat \<Rightarrow> json" where
  "json_nth v i = (case v of JArray xs \<Rightarrow> if i < length xs then xs ! i else JNull | _ \<Rightarrow> JNull)"

definition parse_release_response :: "'v update_lib \<Rightarrow> json \<Rightarrow> string \<Rightarrow> release_info option result" where
  "parse_release_response lib response current_version =
     (let latest_tag = unwrap_or (as_str (json_index response ''tag_name'')) [];
          latest_version_str = dropWhile (\<lambda>c. c = CHR ''v'') latest_tag
      in case parse_version lib current_version of
           Inl e \<Rightarrow> Inl (''Failed to parse current version '' @ [CHR 0x27] @ current_version @ [CHR 0x27] @ '': '' @ e)
         | Inr current \<Rightarrow>
             (case parse_version lib latest_version_str of
                Inl e \<Rightarrow> Inl (''Failed to parse latest version '' @ [CHR 0x27] @ latest_version_str @ [CHR 0x27] @ '': '' @ e)
              | Inr latest \<Rightarrow>
                  if version_le lib latest current then Inr None
                  else
                    let asset = json_nth (json_index response ''assets'') 0
                    in case as_str (json_index asset ''browser_download_url'') of
                         None \<Rightarrow> Inl ''No download URL found in GitHub response''
                       | Some url \<Rightarrow> Inr (Some \<lparr>download_url = url, digest = as_str (json_index asset ''digest'')\<rparr>)))"

subsection \<open>Verification and installation\<close>

definition ascii_lower :: "char \<Rightarrow> char" where
  "ascii_lower c = (let k = of_char c :: nat in if 65 \<le> k \<and> k \<le> 90 then char_of (k + 32) else c)"

definition eq_ignore_ascii_case :: "string \<Rightarrow> string \<Rightarrow> bool" where
  "eq_ignore_ascii_case a b \<longleftrightarrow> map ascii_lower a = map ascii_lower b"

definition expected_hex :: "string \<Rightarrow> string" where
  "expected_hex expected =
     (let trimmed = trim expected
      in if prefix ''sha256:'' trimmed \<or> prefix ''SHA256:'' trimmed then drop 7 trimmed else trimmed)"

definition verify_sha256 :: "'v update_lib \<Rightarrow> bytes \<Rightarrow> string \<Rightarrow> unit result" where
  "verify_sha256 lib data expected =
     (let computed = sha256_hex lib data
      in if eq_ignore_ascii_case computed (expected_hex expected) then Inr ()
         else Inl (''sha256 mismatch: expected '' @ expected @ '', computed '' @ computed))"

definition verify_download :: "'v update_lib \<Rightarrow> bytes \<Rightarrow> string option \<Rightarrow> unit result" where
  "verify_download lib data dig = (case dig of Some expected \<Rightarrow> verify_sha256 lib data expected | None \<Rightarrow> Inr ())"

definition abandon_update :: "update_outside \<Rightarrow> path \<Rightarrow> string \<Rightarrow> unit result uio" where
  "abandon_update env update_path e tr = (Inl e, snd (u_do env (RemoveUpdate update_path) tr))"

definition replace_binary :: "update_outside \<Rightarrow> path \<Rightarrow> bytes \<Rightarrow> unit result uio" where
  "replace_binary env executable_path update_data tr =
     (if update_data = [] then (Inl ''Refusing to replace binary: update data is empty'', tr)
      else
        let update_path = get_update_path executable_path
        in case u_do env (WriteUpdate update_path update_data) tr of
             (Inl e, tr1) \<Rightarrow> abandon_update env update_path e tr1
           | (Inr _, tr1) \<Rightarrow>
               (case u_do env (ChmodUpdate update_path) tr1 of
                  (Inl e, tr2) \<Rightarrow> abandon_update env update_path e tr2
                | (Inr _, tr2) \<Rightarrow>
                    (case u_do env (RenameUpdate update_path executable_path) tr2 of
                       (Inl e, tr3) \<Rightarrow> abandon_update env update_path e tr3
                     | (Inr _, tr3) \<Rightarrow> (Inr (), tr3))))"

subsection \<open>The download\<close>

definition check_for_update :: "'v update_lib \<Rightarrow> update_outside \<Rightarrow> release_info option result uio" where
  "check_for_update lib env tr =
     (let tr' = tr @ [FetchRelease]
      in (case u_release env tr' of
            Inl e \<Rightarrow> Inr None
          | Inr (Inl e) \<Rightarrow> Inl e
          | Inr (Inr response) \<Rightarrow>
              (case parse_release_response lib response (u_current_version env) of
                 Inl e \<Rightarrow> Inl (''Failed to parse release response: '' @ e)
               | Inr release \<Rightarrow> Inr release),
          tr'))"

definition read_bounded :: "body \<Rightarrow> nat \<Rightarrow> bytes result" where
  "read_bounded b max_bytes =
     (let data = take (max_bytes + 1) (body_bytes b)
      in if length data \<le> max_bytes \<and> body_error b \<noteq> None then Inl (the (body_error b))
         else if max_bytes < length data
           then Inl (''Downloaded data exceeds maximum size of '' @ show_nat max_bytes @ '' bytes'')
         else Inr data)"

function download_with_retry :: "bytes result uio \<Rightarrow> nat \<Rightarrow> bytes result uio" where
  "download_with_retry attempt attempt_num tr =
     (case attempt tr of
        (Inr data, tr1) \<Rightarrow> (Inr data, tr1)
      | (Inl e, tr1) \<Rightarrow>
          if attempt_num < MAX_DOWNLOAD_RETRIES
          then download_with_retry attempt (attempt_num + 1) (tr1 @ [Sleep (retry_delay_secs (of_nat attempt_num))])
          else (Inl (''Download failed after 3 attempts: '' @ e), tr1))"
  by pat_completeness auto
termination
  by (relation "measure (\<lambda>(attempt, n, tr). MAX_DOWNLOAD_RETRIES - n)") auto

declare download_with_retry.simps [simp del]

definition download_attempt :: "update_outside \<Rightarrow> string \<Rightarrow> bytes result uio" where
  "download_attempt env url tr =
     (let tr' = tr @ [FetchAsset url]
      in (case u_asset env tr' of Inl e \<Rightarrow> Inl e | Inr b \<Rightarrow> read_bounded b MAX_DOWNLOAD_SIZE_BYTES, tr'))"

definition download_file :: "update_outside \<Rightarrow> string \<Rightarrow> bytes result uio" where
  "download_file env url tr = download_with_retry (download_attempt env url) 1 tr"

definition perform_update :: "'v update_lib \<Rightarrow> update_outside \<Rightarrow> release_info \<Rightarrow> unit result uio" where
  "perform_update lib env release tr =
     (case u_exe env of
        Inl e \<Rightarrow> (Inl e, tr)
      | Inr executable_path \<Rightarrow>
          (case download_file env (download_url release) tr of
             (Inl e, tr1) \<Rightarrow> (Inl e, tr1)
           | (Inr update_data, tr1) \<Rightarrow>
               (case verify_download lib update_data (digest release) of
                  Inl e \<Rightarrow> (Inl e, tr1)
                | Inr _ \<Rightarrow>
                    (case replace_binary env executable_path update_data tr1 of
                       (Inl e, tr2) \<Rightarrow> (Inl e, tr2)
                     | (Inr _, tr2) \<Rightarrow> (Inr (), tr2 @ [RestartApp, ExitProcess])))))"

definition check_for_updates :: "'v update_lib \<Rightarrow> update_outside \<Rightarrow> update_event list \<Rightarrow> update_event list" where
  "check_for_updates lib env tr =
     (case check_for_update lib env tr of
        (Inr (Some release), tr1) \<Rightarrow> snd (perform_update lib env release tr1)
      | (Inr None, tr1) \<Rightarrow> tr1
      | (Inl e, tr1) \<Rightarrow> tr1)"

subsection \<open>Lemmas\<close>

lemma read_bounded_bound: "read_bounded b n = Inr d \<Longrightarrow> length d \<le> n \<and> d = body_bytes b \<and> body_error b = None"
  by (auto simp: read_bounded_def Let_def split: if_splits)

lemma download_attempt_events:
  "snd (download_attempt env url tr) = tr @ [FetchAsset url]"
  "fst (download_attempt env url tr) = Inr d \<Longrightarrow>
   \<exists>b. u_asset env (tr @ [FetchAsset url]) = Inr b \<and> d = body_bytes b \<and> body_error b = None \<and> length d \<le> MAX_DOWNLOAD_SIZE_BYTES"
  by (auto simp: download_attempt_def Let_def split: sum.splits dest: read_bounded_bound)

text \<open>The events of a download, by the number of attempts it takes.\<close>

definition attempts :: "string \<Rightarrow> nat \<Rightarrow> update_event list" where
  "attempts url k = [FetchAsset url] @ (if 1 < k then [Sleep 1, FetchAsset url] else []) @ (if 2 < k then [Sleep 2, FetchAsset url] else [])"

lemma retry_unfold:
  "download_with_retry a n tr =
     (case fst (a tr) of
        Inr data \<Rightarrow> (Inr data, snd (a tr))
      | Inl e \<Rightarrow>
          if n < 3 then download_with_retry a (n + 1) (snd (a tr) @ [Sleep (retry_delay_secs (of_nat n))])
          else (Inl (''Download failed after 3 attempts: '' @ e), snd (a tr)))"
  by (subst download_with_retry.simps) (simp split: prod.split sum.split)

lemma retry_delays: "retry_delay_secs 1 = 1" "retry_delay_secs 2 = 2"
  by (simp_all add: retry_delay_secs_def)

definition delivered :: "update_outside \<Rightarrow> update_event list \<Rightarrow> bytes \<Rightarrow> bool" where
  "delivered env tr d \<longleftrightarrow>
     (\<exists>b. u_asset env tr = Inr b \<and> d = body_bytes b \<and> body_error b = None \<and> length d \<le> MAX_DOWNLOAD_SIZE_BYTES)"

lemma download_file_spec:
  "case download_file env url tr of
     (r, tr') \<Rightarrow> \<exists>k. 1 \<le> k \<and> k \<le> 3 \<and> tr' = tr @ attempts url k
       \<and> (case r of Inl e \<Rightarrow> k = 3 | Inr d \<Rightarrow> delivered env tr' d)"
proof -
  let ?a = "download_attempt env url"
  let ?t1 = "tr @ [FetchAsset url, Sleep 1]" and ?t2 = "tr @ [FetchAsset url, Sleep 1, FetchAsset url, Sleep 2]"
  have step: "download_file env url tr = (case fst (?a tr) of Inr d \<Rightarrow> (Inr d, tr @ attempts url 1)
     | Inl e \<Rightarrow> (case fst (?a ?t1) of Inr d \<Rightarrow> (Inr d, tr @ attempts url 2)
     | Inl e \<Rightarrow> (case fst (?a ?t2) of Inr d \<Rightarrow> (Inr d, tr @ attempts url 3)
     | Inl e \<Rightarrow> (Inl (''Download failed after 3 attempts: '' @ e), tr @ attempts url 3))))"
  proof -
    have "download_with_retry ?a (Suc 0) t = (case fst (?a t) of Inr d \<Rightarrow> (Inr d, t @ [FetchAsset url])
        | Inl e \<Rightarrow> download_with_retry ?a 2 (t @ [FetchAsset url, Sleep 1]))" for t
      by (subst retry_unfold) (simp add: download_attempt_events(1) retry_delays numeral_2_eq_2 [symmetric] split: sum.split)
    moreover have "download_with_retry ?a 2 t = (case fst (?a t) of Inr d \<Rightarrow> (Inr d, t @ [FetchAsset url])
        | Inl e \<Rightarrow> download_with_retry ?a 3 (t @ [FetchAsset url, Sleep 2]))" for t
      by (subst retry_unfold) (simp add: download_attempt_events(1) retry_delays split: sum.split)
    moreover have "download_with_retry ?a 3 t = (case fst (?a t) of Inr d \<Rightarrow> (Inr d, t @ [FetchAsset url])
        | Inl e \<Rightarrow> (Inl (''Download failed after 3 attempts: '' @ e), t @ [FetchAsset url]))" for t
      by (subst retry_unfold) (simp add: download_attempt_events(1) split: sum.split)
    ultimately show ?thesis by (simp add: download_file_def attempts_def split: sum.split)
  qed
  have got: "delivered env (t @ [FetchAsset url]) d" if "fst (?a t) = Inr d" for t d
    using download_attempt_events(2) [OF that] by (simp add: delivered_def)
  show ?thesis
  proof (cases "fst (?a tr)")
    case (Inr d)
    then show ?thesis using step got [OF Inr] by (auto simp: attempts_def intro!: exI [of _ 1])
  next
    case first: (Inl e)
    show ?thesis
    proof (cases "fst (?a ?t1)")
      case (Inr d)
      then show ?thesis using step first got [OF Inr] by (auto simp: attempts_def intro!: exI [of _ 2])
    next
      case (Inl e)
      then show ?thesis using step first got [of ?t2]
        by (cases "fst (?a ?t2)") (auto simp: attempts_def intro!: exI [of _ 3])
    qed
  qed
qed

lemma replace_binary_events:
  assumes "replace_binary env exe d tr = (r, tr')"
  defines "up \<equiv> get_update_path exe"
  shows "(case r of
      Inr _ \<Rightarrow> d \<noteq> [] \<and> tr' = tr @ [WriteUpdate up d, ChmodUpdate up, RenameUpdate up exe] \<and> u_fs env tr' = Inr ()
        \<and> u_fs env (tr @ [WriteUpdate up d]) = Inr () \<and> u_fs env (tr @ [WriteUpdate up d, ChmodUpdate up]) = Inr ()
    | Inl e \<Rightarrow> d = [] \<and> tr' = tr
        \<or> d \<noteq> [] \<and> tr' \<in> {tr @ [WriteUpdate up d, RemoveUpdate up], tr @ [WriteUpdate up d, ChmodUpdate up, RemoveUpdate up]}
        \<or> d \<noteq> [] \<and> tr' = tr @ [WriteUpdate up d, ChmodUpdate up, RenameUpdate up exe, RemoveUpdate up]
          \<and> u_fs env (tr @ [WriteUpdate up d, ChmodUpdate up, RenameUpdate up exe]) \<noteq> Inr ())"
  using assms by (auto simp: replace_binary_def abandon_update_def u_do_def Let_def split: sum.splits if_splits)

text \<open>Events that touch neither the files nor the process.\<close>

fun only_fetches :: "update_event \<Rightarrow> bool" where
  "only_fetches FetchRelease \<longleftrightarrow> True"
| "only_fetches (FetchAsset url) \<longleftrightarrow> True"
| "only_fetches (Sleep s) \<longleftrightarrow> True"
| "only_fetches _ \<longleftrightarrow> False"

lemma attempts_fetch: "list_all only_fetches (attempts url k)"
  by (simp add: attempts_def)

text \<open>The data may be installed: nonempty, bounded, and matching the digest of the release if it has one.\<close>

definition installable :: "'v update_lib \<Rightarrow> release_info \<Rightarrow> bytes \<Rightarrow> bool" where
  "installable lib rel d \<longleftrightarrow>
     d \<noteq> [] \<and> length d \<le> MAX_DOWNLOAD_SIZE_BYTES
     \<and> (case digest rel of None \<Rightarrow> True | Some x \<Rightarrow> eq_ignore_ascii_case (sha256_hex lib d) (expected_hex x))"

definition update_run ::
  "'v update_lib \<Rightarrow> update_outside \<Rightarrow> release_info \<Rightarrow> update_event list \<Rightarrow> unit result \<Rightarrow> update_event list \<Rightarrow> bool" where
  "update_run lib env rel tr r es \<longleftrightarrow>
     list_all only_fetches es \<and> r \<noteq> Inr ()
     \<or> (\<exists>fs d exe. list_all only_fetches fs \<and> installable lib rel d \<and> u_exe env = Inr exe
          \<and> (let up = get_update_path exe
             in r \<noteq> Inr () \<and> es \<in> {fs @ [WriteUpdate up d, RemoveUpdate up], fs @ [WriteUpdate up d, ChmodUpdate up, RemoveUpdate up]}
                \<or> r \<noteq> Inr () \<and> es = fs @ [WriteUpdate up d, ChmodUpdate up, RenameUpdate up exe, RemoveUpdate up]
                  \<and> u_fs env (tr @ fs @ [WriteUpdate up d, ChmodUpdate up, RenameUpdate up exe]) \<noteq> Inr ()
                \<or> r = Inr () \<and> es = fs @ [WriteUpdate up d, ChmodUpdate up, RenameUpdate up exe, RestartApp, ExitProcess]
                  \<and> u_fs env (tr @ fs @ [WriteUpdate up d]) = Inr () \<and> u_fs env (tr @ fs @ [WriteUpdate up d, ChmodUpdate up]) = Inr ()
                  \<and> u_fs env (tr @ fs @ [WriteUpdate up d, ChmodUpdate up, RenameUpdate up exe]) = Inr ()))"

lemma perform_update_run:
  "case perform_update lib env rel tr of (r, tr') \<Rightarrow> \<exists>es. tr' = tr @ es \<and> update_run lib env rel tr r es"
proof (cases "u_exe env")
  case (Inl e)
  then show ?thesis by (simp add: perform_update_def update_run_def)
next
  case exe: (Inr exe)
  obtain r1 tr1 where dl: "download_file env (download_url rel) tr = (r1, tr1)" by (metis prod.collapse)
  obtain k where k: "tr1 = tr @ attempts (download_url rel) k" "case r1 of Inl e \<Rightarrow> k = 3 | Inr d \<Rightarrow> delivered env tr1 d"
    using download_file_spec [where env = env and url = "download_url rel" and tr = tr] dl by auto
  let ?fs = "attempts (download_url rel) k"
  show ?thesis
  proof (cases r1)
    case (Inl e)
    then show ?thesis using exe dl k by (auto simp: perform_update_def update_run_def attempts_fetch)
  next
    case (Inr d)
    show ?thesis
    proof (cases "verify_download lib d (digest rel)")
      case (Inl e)
      then show ?thesis using exe dl k Inr \<open>r1 = Inr d\<close>
        by (auto simp: perform_update_def update_run_def attempts_fetch)
    next
      case verified: (Inr u)
      obtain r2 tr2 where rb: "replace_binary env exe d tr1 = (r2, tr2)" by (metis prod.collapse)
      have ok: "installable lib rel d" if "d \<noteq> []"
        using that verified k(2) Inr
        by (auto simp: installable_def verify_download_def verify_sha256_def Let_def delivered_def split: option.splits if_splits)
      have "perform_update lib env rel tr = (case r2 of Inl e \<Rightarrow> (Inl e, tr2) | Inr _ \<Rightarrow> (Inr (), tr2 @ [RestartApp, ExitProcess]))"
        using exe dl Inr verified rb by (simp add: perform_update_def split: sum.split)
      then show ?thesis
        using replace_binary_events [OF rb] ok exe k(1) attempts_fetch [of "download_url rel" k]
        by (cases r2) (auto simp: update_run_def Let_def)
    qed
  qed
qed

lemma check_for_updates_run:
  "\<exists>es. check_for_updates lib env tr = tr @ FetchRelease # es \<and>
     (es = [] \<or> (\<exists>response rel r. u_release env (tr @ [FetchRelease]) = Inr (Inr response)
        \<and> parse_release_response lib response (u_current_version env) = Inr (Some rel)
        \<and> update_run lib env rel (tr @ [FetchRelease]) r es))"
proof -
  obtain c tr1 where c: "check_for_update lib env tr = (c, tr1)" by (metis prod.collapse)
  have tr1: "tr1 = tr @ [FetchRelease]" using c by (simp add: check_for_update_def Let_def)
  show ?thesis
  proof (cases "\<exists>rel. c = Inr (Some rel)")
    case True
    then obtain rel where rel: "c = Inr (Some rel)" by blast
    obtain response where "u_release env (tr @ [FetchRelease]) = Inr (Inr response)"
      "parse_release_response lib response (u_current_version env) = Inr (Some rel)"
      using c rel by (auto simp: check_for_update_def Let_def split: sum.splits)
    moreover obtain r es where "perform_update lib env rel tr1 = (r, tr1 @ es)" "update_run lib env rel tr1 r es"
      using perform_update_run [where lib = lib and env = env and rel = rel and tr = tr1] by (auto split: prod.splits)
    ultimately show ?thesis using c rel tr1 by (auto simp: check_for_updates_def)
  next
    case False
    then have "check_for_updates lib env tr = tr @ [FetchRelease]"
      using c tr1 by (auto simp: check_for_updates_def split: sum.splits option.splits)
    then show ?thesis by blast
  qed
qed

lemma parse_release_newer:
  assumes "parse_release_response lib response current = Inr (Some rel)"
  shows "\<exists>cur new. parse_version lib current = Inr cur
    \<and> parse_version lib (dropWhile (\<lambda>c. c = CHR ''v'') (unwrap_or (as_str (json_index response ''tag_name'')) [])) = Inr new
    \<and> \<not> version_le lib new cur"
  using assms by (auto simp: parse_release_response_def Let_def split: sum.splits if_splits)

lemma fetches_only: "list_all only_fetches fs \<Longrightarrow>
  RestartApp \<notin> set fs \<and> RenameUpdate a b \<notin> set fs \<and> WriteUpdate p d \<notin> set fs"
  by (auto simp: list_all_iff)

lemma unfinished_update_shape:
  assumes "check_for_updates lib env tr = tr @ es" "RestartApp \<notin> set es"
  obtains (fetched) "list_all only_fetches es"
    | (written) fs d up where "list_all only_fetches fs"
        "es \<in> {fs @ [WriteUpdate up d, RemoveUpdate up], fs @ [WriteUpdate up d, ChmodUpdate up, RemoveUpdate up]}"
    | (unmoved) fs d up exe where "list_all only_fetches fs"
        "es = fs @ [WriteUpdate up d, ChmodUpdate up, RenameUpdate up exe, RemoveUpdate up]"
        "u_fs env (tr @ fs @ [WriteUpdate up d, ChmodUpdate up, RenameUpdate up exe]) \<noteq> Inr ()"
proof -
  obtain es' where c: "check_for_updates lib env tr = tr @ FetchRelease # es'"
    and run: "es' = [] \<or> (\<exists>rel r. update_run lib env rel (tr @ [FetchRelease]) r es')"
    using check_for_updates_run [where lib = lib and env = env and tr = tr] by blast
  have es: "es = FetchRelease # es'" using c assms by simp
  show ?thesis
  proof (cases "list_all only_fetches es")
    case False
    with run es obtain rel r where "update_run lib env rel (tr @ [FetchRelease]) r es'" by auto
    then obtain fs d exe where f: "list_all only_fetches (FetchRelease # fs)"
      "es' \<in> {fs @ [WriteUpdate (get_update_path exe) d, RemoveUpdate (get_update_path exe)],
              fs @ [WriteUpdate (get_update_path exe) d, ChmodUpdate (get_update_path exe), RemoveUpdate (get_update_path exe)]}
       \<or> es' = fs @ [WriteUpdate (get_update_path exe) d, ChmodUpdate (get_update_path exe), RenameUpdate (get_update_path exe) exe, RemoveUpdate (get_update_path exe)]
         \<and> u_fs env ((tr @ [FetchRelease]) @ fs @ [WriteUpdate (get_update_path exe) d, ChmodUpdate (get_update_path exe), RenameUpdate (get_update_path exe) exe]) \<noteq> Inr ()"
      using False es assms(2) unfolding update_run_def Let_def by auto
    with es show ?thesis using written [of "FetchRelease # fs" "get_update_path exe" d] unmoved [of "FetchRelease # fs" "get_update_path exe" d exe] by auto
  qed (use fetched in blast)
qed

subsection \<open>Properties\<close>


definition sample_lib :: "nat update_lib" where
  "sample_lib = \<lparr>parse_version = (\<lambda>s. if s = ''1.0.0'' then Inr 1 else if s = ''2.0.0'' then Inr 2 else Inl ''bad version''),
     version_le = (\<le>), sha256_hex = (\<lambda>_. ''ab'')\<rparr>"

definition sample_release :: json where
  "sample_release = JObject [(''tag_name'', JString ''v2.0.0''),
     (''assets'', JArray [JObject [(''browser_download_url'', JString ''url''), (''digest'', JString ''sha256:AB'')]])]"

definition sample_updates :: "unit result \<Rightarrow> update_outside" where
  "sample_updates r = \<lparr>u_release = (\<lambda>_. Inr (Inr sample_release)), u_asset = (\<lambda>_. Inr \<lparr>body_bytes = [1, 2], body_error = None\<rparr>),
     u_fs = (\<lambda>_. r), u_exe = Inr [RootDir, Normal ''client''], u_current_version = ''1.0.0''\<rparr>"

lemma sample_updates_run:
  "check_for_updates sample_lib (sample_updates r) [] =
     [FetchRelease, FetchAsset ''url'', WriteUpdate [RootDir, Normal ''adacs_job_client.update''] [1, 2]]
     @ (case r of Inl e \<Rightarrow> [RemoveUpdate [RootDir, Normal ''adacs_job_client.update'']]
        | Inr _ \<Rightarrow> [ChmodUpdate [RootDir, Normal ''adacs_job_client.update''],
            RenameUpdate [RootDir, Normal ''adacs_job_client.update''] [RootDir, Normal ''client''], RestartApp, ExitProcess])"
proof -
  have hex: "eq_ignore_ascii_case ''ab'' (expected_hex ''sha256:AB'')"
    by code_simp
  show ?thesis
    by (cases r) (simp_all add: check_for_updates_def check_for_update_def parse_release_response_def sample_lib_def
        sample_updates_def sample_release_def Let_def json_index_def json_nth_def unwrap_or_def perform_update_def
        download_file_def download_with_retry.simps download_attempt_def read_bounded_def verify_download_def
        verify_sha256_def hex replace_binary_def u_do_def abandon_update_def get_update_path_def)
qed


text \<open>
  A failed update leaves the client as it was. Unless the binary was replaced and the client restarts,
  no move over the binary has succeeded, the client does not restart, and an update file that was
  written is removed, as the last step.
\<close>

theorem failed_update_is_harmless:
  assumes "check_for_updates lib env tr = tr @ es" "RestartApp \<notin> set es"
  shows "(\<forall>p d. WriteUpdate p d \<in> set es \<longrightarrow> last es = RemoveUpdate p)
    \<and> (\<forall>es1 a b es2. es = es1 @ RenameUpdate a b # es2 \<longrightarrow> u_fs env (tr @ es1 @ [RenameUpdate a b]) \<noteq> Inr ())"
  using assms
proof (cases rule: unfinished_update_shape)
  case fetched
  then show ?thesis using fetches_only by (metis in_set_conv_decomp)
next
  case written
  then show ?thesis using fetches_only [OF written(1)]
    by (auto simp: append_eq_append_conv2 append_eq_Cons_conv Cons_eq_append_conv)
next
  case unmoved
  then show ?thesis using fetches_only [OF unmoved(1)]
    by (auto simp: append_eq_append_conv2 append_eq_Cons_conv Cons_eq_append_conv)
qed

theorem failed_update_is_harmless_witness:
  "last (check_for_updates sample_lib (sample_updates (Inl ''disk full'')) []) = RemoveUpdate [RootDir, Normal ''adacs_job_client.update'']"
proof -
  have "check_for_updates sample_lib (sample_updates (Inl ''disk full'')) [] = [] @ check_for_updates sample_lib (sample_updates (Inl ''disk full'')) []" by simp
  moreover have "RestartApp \<notin> set (check_for_updates sample_lib (sample_updates (Inl ''disk full'')) [])" by (simp add: sample_updates_run)
  ultimately have "WriteUpdate [RootDir, Normal ''adacs_job_client.update''] [1, 2] \<in> set (check_for_updates sample_lib (sample_updates (Inl ''disk full'')) [])
      \<longrightarrow> last (check_for_updates sample_lib (sample_updates (Inl ''disk full'')) []) = RemoveUpdate [RootDir, Normal ''adacs_job_client.update'']"
    using failed_update_is_harmless by blast
  then show ?thesis by (simp add: sample_updates_run)
qed

text \<open>
  Retries are bounded and their delays cannot overflow. A download makes one to three attempts,
  waiting one and then two seconds between them, stops at the first that succeeds and fails only after
  the third; the delay for any attempt number is the power of two, or the largest 64-bit number where
  that does not fit.
\<close>

theorem download_retries_are_bounded:
  "(\<exists>k. 1 \<le> k \<and> k \<le> 3 \<and> snd (download_file env url tr) = tr @ attempts url k
      \<and> (case fst (download_file env url tr) of
           Inl e \<Rightarrow> k = 3
         | Inr d \<Rightarrow> (\<exists>b. u_asset env (tr @ attempts url k) = Inr b \<and> body_bytes b = d \<and> length d \<le> MAX_DOWNLOAD_SIZE_BYTES)))
   \<and> unat (retry_delay_secs n) = (if unat n \<le> 64 then 2 ^ (unat n - 1) else 2 ^ 64 - 1)"
proof
  show "\<exists>k. 1 \<le> k \<and> k \<le> 3 \<and> snd (download_file env url tr) = tr @ attempts url k
      \<and> (case fst (download_file env url tr) of
           Inl e \<Rightarrow> k = 3
         | Inr d \<Rightarrow> (\<exists>b. u_asset env (tr @ attempts url k) = Inr b \<and> body_bytes b = d \<and> length d \<le> MAX_DOWNLOAD_SIZE_BYTES))"
  proof -
    obtain r tr' where dl: "download_file env url tr = (r, tr')" by (metis prod.collapse)
    show ?thesis using download_file_spec [where env = env and url = url and tr = tr] unfolding dl
      by (cases r) (auto simp: delivered_def)
  qed
  have "unat n - 1 < 64 \<longleftrightarrow> unat n \<le> 64" by linarith
  moreover have "(2::nat) ^ (unat n - 1) < 2 ^ 64 \<longleftrightarrow> unat n - 1 < 64" by (rule power_strict_increasing_iff) simp
  moreover have "unat ((2::u64) ^ k) = 2 ^ k" if "k < 64" for k
  proof -
    have "(2::nat) ^ k < 2 ^ 64" using that by (rule power_strict_increasing) simp
    then have "unat (of_nat (2 ^ k) :: u64) = 2 ^ k" by (simp only: unat_of_nat) simp
    then show ?thesis by simp
  qed
  moreover have "unat (- 1 :: u64) = 2 ^ 64 - 1" by (simp add: unsigned_minus_1_eq_mask mask_eq_exp_minus_1)
  ultimately show "unat (retry_delay_secs n) = (if unat n \<le> 64 then 2 ^ (unat n - 1) else 2 ^ 64 - 1)"
    by (simp add: retry_delay_secs_def Let_def)
qed

end
