(* ===== verification/Main_Loop.thy ===== *)
theory Main_Loop
  imports Jobs Websocket Logging Daemon Python_Init Update_Check
begin

text \<open>
  The program from its command line to its end, \<^verbatim>\<open>src/src/src/main.rs\<close>: help, configuration, log, update check,
  daemonization, start, the wait for the server and the main loop. The components that are started come from their own
  theories; what they meet outside is in a record \<open>boot\<close>, what they do is a list of \<open>boot_event\<close>s. The wait for the
  server and the main loop read what they observe from a list, one entry for each poll and each event that
  \<^verbatim>\<open>select!\<close> picks. A list that ends is an observation that ends: the loops themselves have no bound.
\<close>

subsection \<open>Start\<close>

datatype boot_event =
  HostCall host_call
| InitBundles string
| StartBridge
| StartConnection string string bool

record boot =
  b_disk :: config_disk
  b_log :: log_host
  b_sys :: sys
  b_runtime :: "unit result"
  b_env_library :: "string option"
  b_python :: python_host
  b_start :: "unit result"
  b_signals :: "unit result"

text \<open>
  \<open>ExitWith\<close> ends the process, \<open>Abort\<close> is an error returned by the start, \<open>Panic\<close> a panic. The flag \<^verbatim>\<open>IS_LTK\<close> is set with the
  token, \<^verbatim>\<open>READY_FOR_RESTART\<close> when the server is ready.
\<close>

datatype boot_outcome = ExitWith nat | Abort string | Panic | Started bool

definition register_module :: "python_host \<Rightarrow> string \<Rightarrow> python_globals \<Rightarrow> boot_outcome option \<times> python_globals" where
  "register_module H name g =
     (case PyImport_AppendInittab H name g of
        None \<Rightarrow> (Some Panic, g)
      | Some (n, g') \<Rightarrow> (if n \<noteq> 0 then Some (ExitWith 1) else None, g'))"

definition start_python :: "python_host \<Rightarrow> string \<Rightarrow> boot_outcome option \<times> python_globals" where
  "start_python H library =
     (case load_python_library H library fresh_globals of
        (Inl _, g) \<Rightarrow> (Some (ExitWith 1), g)
      | (Inr _, g) \<Rightarrow>
        (case register_module H ''_bundledb'' g of
           (Some r, g1) \<Rightarrow> (Some r, g1)
         | (None, g1) \<Rightarrow>
           (case register_module H ''_bundlelogging'' g1 of
              (Some r, g2) \<Rightarrow> (Some r, g2)
            | (None, g2) \<Rightarrow>
              (case init_python H g2 of
                 None \<Rightarrow> (Some Panic, g2)
               | Some (Inl _, g3) \<Rightarrow> (Some (ExitWith 1), g3)
               | Some (Inr _, g3) \<Rightarrow> (None, g3)))))"

definition start_client :: "boot \<Rightarrow> string list \<Rightarrow> json \<Rightarrow> boot_outcome \<times> boot_event list" where
  "start_client w args config =
     (case validate_config config of
        Inl _ \<Rightarrow> (ExitWith 1, [])
      | Inr _ \<Rightarrow>
        (case get_python_library_path (b_env_library w) config of
           None \<Rightarrow> (ExitWith 1, [])
         | Some library \<Rightarrow>
           (case resolve_websocket_token args config of
              Inl _ \<Rightarrow> (ExitWith 1, [])
            | Inr (ws_token, reconn) \<Rightarrow>
              (case start_python (b_python w) library of
                 (Some r, g) \<Rightarrow> (r, map HostCall (host_calls g))
               | (None, g) \<Rightarrow>
                   let es = map HostCall (host_calls g)
                          @ [InitBundles (get_default_bundle_path (b_disk w)), StartBridge,
                             StartConnection (get_websocket_endpoint config) ws_token reconn]
                   in (case b_start w of
                         Inl e \<Rightarrow> (Abort e, es)
                       | Inr _ \<Rightarrow> (Started reconn, es))))))"

text \<open>\<^verbatim>\<open>restart_app\<close>: the program and the arguments of the new process; the slice of the arguments panics if there are none.\<close>

definition restart_app :: "path option \<Rightarrow> string list \<Rightarrow> (path \<times> string list) option" where
  "restart_app exe args =
     (if args = [] then None else Some (unwrap_or exe [CurDir, Normal ''adacs_job_client''], tl args))"

text \<open>Whether the panic hook starts the client again.\<close>

definition restart_on_panic :: "bool \<Rightarrow> bool \<Rightarrow> bool \<Rightarrow> bool" where
  "restart_on_panic production is_ltk ready_for_restart \<longleftrightarrow> production \<and> is_ltk \<and> ready_for_restart"

subsection \<open>Waiting for the server\<close>

record poll =
  p_ready :: bool
  p_closed :: bool
  p_late :: bool

fun wait_ready :: "bool \<Rightarrow> poll list \<Rightarrow> unit result option" where
  "wait_ready reconn [] = None"
| "wait_ready reconn (p # ps) =
     (if p_ready p then Some (Inr ())
      else if \<not> reconn \<and> p_closed p then Some (Inl ''WebSocket connection closed during startup'')
      else if \<not> reconn \<and> p_late p then Some (Inl ''Server did not become ready within the timeout period'')
      else wait_ready reconn ps)"

subsection \<open>The loop\<close>

text \<open>What \<^verbatim>\<open>select!\<close> picks; a tick and a reconnect come with whether the connection is closed then.\<close>

datatype main_event = Tick bool | Reconnected bool | ShutdownNotified | SigTerm | SigInt

text \<open>
  The \<open>n\<close>-th status check sees \<open>env n\<close>, its tasks see \<open>tasks n\<close>. The result is what the status checks did, each with the
  traces of its tasks, and whether the loop still runs.
\<close>

type_synonym round = "trace \<times> trace list"

definition status_round :: "(nat \<Rightarrow> outside) \<Rightarrow> (nat \<Rightarrow> nat \<Rightarrow> outside) \<Rightarrow> nat \<Rightarrow> round" where
  "status_round env tasks n = check_all_jobs_status (env n) (tasks n) []"

fun main_loop :: "(nat \<Rightarrow> outside) \<Rightarrow> (nat \<Rightarrow> nat \<Rightarrow> outside) \<Rightarrow> bool \<Rightarrow> main_event list \<Rightarrow> nat \<Rightarrow> round list \<times> bool" where
  "main_loop env tasks reconn [] n = ([], True)"
| "main_loop env tasks reconn (Tick closed # es) n =
     (if closed then if reconn then main_loop env tasks reconn es n else ([], False)
      else case main_loop env tasks reconn es (Suc n) of (rs, go) \<Rightarrow> (status_round env tasks n # rs, go))"
| "main_loop env tasks reconn (Reconnected closed # es) n =
     (if closed then main_loop env tasks reconn es n
      else case main_loop env tasks reconn es (Suc n) of (rs, go) \<Rightarrow> (status_round env tasks n # rs, go))"
| "main_loop env tasks reconn (ShutdownNotified # es) n = ([], False)"
| "main_loop env tasks reconn (SigTerm # es) n = ([], False)"
| "main_loop env tasks reconn (SigInt # es) n = ([], False)"

subsection \<open>The program\<close>

text \<open>How a process of the client ends, or what it was doing when the observation ended.\<close>

datatype client_end =
  Exited nat
| Failed string
| Panicked
| ParentDone
| Waiting
| Looping "round list"
| Finished "round list"

record client_run =
  c_end :: client_end
  c_events :: "boot_event list"
  c_is_ltk :: bool
  c_ready :: bool

text \<open>What the client observes once it runs.\<close>

record observed =
  ob_polls :: "poll list"
  ob_events :: "main_event list"
  ob_env :: "nat \<Rightarrow> outside"
  ob_tasks :: "nat \<Rightarrow> nat \<Rightarrow> outside"

definition serve :: "boot \<Rightarrow> observed \<Rightarrow> bool \<Rightarrow> client_end \<times> bool" where
  "serve w ob reconn =
     (case wait_ready reconn (ob_polls ob) of
        None \<Rightarrow> (Waiting, False)
      | Some (Inl e) \<Rightarrow> (Failed e, False)
      | Some (Inr _) \<Rightarrow>
          (case b_signals w of
             Inl e \<Rightarrow> (Failed e, True)
           | Inr _ \<Rightarrow>
               (case main_loop (ob_env ob) (ob_tasks ob) reconn (ob_events ob) 0 of
                  (rs, go) \<Rightarrow> (if go then Looping rs else Finished rs, True))))"

definition client_process :: "boot \<Rightarrow> observed \<Rightarrow> string list \<Rightarrow> json \<Rightarrow> client_run" where
  "client_process w ob args config =
     (case b_runtime w of
        Inl e \<Rightarrow> \<lparr>c_end = Failed e, c_events = [], c_is_ltk = False, c_ready = False\<rparr>
      | Inr _ \<Rightarrow>
          let ltk = (\<not> isl (validate_config config) \<and> get_python_library_path (b_env_library w) config \<noteq> None
                     \<and> (case resolve_websocket_token args config of Inl _ \<Rightarrow> False | Inr (_, is_ltk) \<Rightarrow> is_ltk))
          in case start_client w args config of
               (ExitWith n, es) \<Rightarrow> \<lparr>c_end = Exited n, c_events = es, c_is_ltk = ltk, c_ready = False\<rparr>
             | (Abort e, es) \<Rightarrow> \<lparr>c_end = Failed e, c_events = es, c_is_ltk = ltk, c_ready = False\<rparr>
             | (Panic, es) \<Rightarrow> \<lparr>c_end = Panicked, c_events = es, c_is_ltk = ltk, c_ready = False\<rparr>
             | (Started reconn, es) \<Rightarrow>
                 (case serve w ob reconn of
                    (r, ready) \<Rightarrow> \<lparr>c_end = r, c_events = es, c_is_ltk = ltk, c_ready = ready\<rparr>))"

definition is_help :: "string list \<Rightarrow> bool" where
  "is_help args \<longleftrightarrow> length args > 1 \<and> args ! 1 \<in> {''--help'', ''-h''}"

text \<open>Every process that comes out of one start of the program; \<open>p\<close> is the process that is started.\<close>

definition client_main ::
    "'v update_lib \<Rightarrow> update_outside \<Rightarrow> boot \<Rightarrow> observed \<Rightarrow> string list \<Rightarrow> process \<Rightarrow> client_run list" where
  "client_main lib env w ob args p =
     (let only = (\<lambda>r. [\<lparr>c_end = r, c_events = [], c_is_ltk = False, c_ready = False\<rparr>])
      in if is_help args then only (Exited 0)
         else case read_client_config (b_disk w) None of
           None \<Rightarrow> only (Exited 1)
         | Some (config, _) \<Rightarrow>
             let exe = get_executable_path (b_disk w)
             in case init_logging_with_level (b_log w) exe (get_log_level config) None of
                  None \<Rightarrow> only Panicked
                | Some _ \<Rightarrow>
                    if ExitProcess \<in> set (check_for_updates lib env []) then only (Exited 0)
                    else map (\<lambda>(r, q). if r = Inr False then hd (only ParentDone) else client_process w ob args config)
                           (daemonize_with_log_redirect (b_sys w) (log_dir_of exe) p))"

subsection \<open>Properties\<close>

lemma start_python_ok:
  assumes "start_python H library = (None, g)"
  shows "host_calls g = [Dlopen library, LibraryNew library, AppendInittab ''_bundledb'', AppendInittab ''_bundlelogging'']
      @ init_calls @ [PyCall ''PyEval_SaveThread''] \<and> INIT_PYTHON g = Some (Inr ())"
proof -
  obtain g0 g1 n1 g2 n2 where *: "load_python_library H library fresh_globals = (Inr (), g0)"
    "PyImport_AppendInittab H ''_bundledb'' g0 = Some (n1, g1)" "PyImport_AppendInittab H ''_bundlelogging'' g1 = Some (n2, g2)"
    "init_python H g2 = Some (Inr (), g)"
    using assms by (auto simp: start_python_def register_module_def split: prod.splits sum.splits option.splits if_splits)
  have g2: "INIT_PYTHON g2 = None" "MAIN_TS g2 = None" "host_calls g2 =
      [Dlopen library, LibraryNew library, AppendInittab ''_bundledb'', AppendInittab ''_bundlelogging'']"
    using *(1-3)
    by (auto simp: load_python_library_def PyImport_AppendInittab_def fresh_globals_def host_call_def c_path_from_str_def
        set_once_def Let_def split: sum.splits option.splits if_splits)
  then obtain g3 where i: "initialise_interpreter H g2 = Some (Inr (), g3)" "g = g3\<lparr>INIT_PYTHON := Some (Inr ())\<rparr>"
    using *(4) by (auto simp: init_python_def get_or_init_def split: option.splits)
  show ?thesis using initialise_interpreter_calls [OF i(1) g2(2)] i(2) g2(3) by auto
qed

lemma start_python_not_started: "start_python H library \<noteq> (Some (Started b), g)"
  by (auto simp: start_python_def register_module_def split: prod.splits sum.splits option.splits if_splits)

lemma connects_only_after_set_up:
  assumes "start_client w args config = (r, es)" "StartConnection url token reconn \<in> set es"
  shows "validate_config config = Inr () \<and> resolve_websocket_token args config = Inr (token, reconn)
    \<and> url = get_websocket_endpoint config
    \<and> (\<exists>library. get_python_library_path (b_env_library w) config = Some library
        \<and> es = map HostCall ([Dlopen library, LibraryNew library, AppendInittab ''_bundledb'', AppendInittab ''_bundlelogging'']
                   @ init_calls @ [PyCall ''PyEval_SaveThread''])
               @ [InitBundles (get_default_bundle_path (b_disk w)), StartBridge, StartConnection url token reconn])
    \<and> (r = Started reconn \<longleftrightarrow> \<not> isl (b_start w))"
  using assms
  by (auto simp: start_client_def Let_def dest!: start_python_ok
      split: sum.splits option.splits prod.splits if_splits bool.splits)

text \<open>A client with a one-shot token does not wait for ever: a poll after the deadline ends the wait.\<close>

lemma one_shot_wait_ends:
  assumes "i < length ps" "p_late (ps ! i)"
  shows "\<exists>r. wait_ready False ps = Some r"
  using assms by (induction ps arbitrary: i) (auto simp: nth_Cons split: nat.splits)

text \<open>With a persistent token only the server ends it.\<close>

lemma persistent_wait: "wait_ready True ps = (if \<exists>p \<in> set ps. p_ready p then Some (Inr ()) else None)"
  by (induction ps) auto

fun is_connection :: "boot_event \<Rightarrow> bool" where
  "is_connection (StartConnection url token reconn) \<longleftrightarrow> True"
| "is_connection _ \<longleftrightarrow> False"

fun rounds_of :: "client_end \<Rightarrow> round list" where
  "rounds_of (Looping rs) = rs"
| "rounds_of (Finished rs) = rs"
| "rounds_of _ = []"

lemma is_connection_iff: "is_connection e \<longleftrightarrow> (\<exists>url token reconn. e = StartConnection url token reconn)"
  by (cases e) auto

lemma serve_ready:
  assumes "serve w ob reconn = (r, ready)" "ready \<or> rounds_of r \<noteq> []"
  shows "list_ex p_ready (ob_polls ob)"
proof -
  have "list_ex p_ready ps" if "wait_ready reconn ps = Some (Inr ())" for ps
    using that by (induction ps) (auto split: if_splits)
  then show ?thesis using assms by (auto simp: serve_def split: option.splits sum.splits)
qed

text \<open>A process that has checked jobs, or that a panic would restart, has connected to a server that was ready.\<close>

lemma client_process_ready:
  assumes "c_ready (client_process w ob args config) \<or> rounds_of (c_end (client_process w ob args config)) \<noteq> []"
  shows "list_ex p_ready (ob_polls ob) \<and> list_ex is_connection (c_events (client_process w ob args config))"
  using assms
  by (auto simp: client_process_def Let_def start_client_def split: sum.splits option.splits prod.splits boot_outcome.splits
      dest: serve_ready simp: start_python_not_started)

lemma client_process_events:
  assumes "e \<in> set (c_events (client_process w ob args config))"
  shows "c_events (client_process w ob args config) = snd (start_client w args config)"
  using assms by (auto simp: client_process_def Let_def split: sum.splits prod.splits boot_outcome.splits)

text \<open>Of the processes of one start at most one is more than a parent that ends.\<close>

lemma client_main_processes:
  assumes "forks_fresh (b_sys w) p" "list_ex is_connection (c_events c)" "c \<in> set (client_main lib env w ob args p)"
  shows "\<exists>config. read_client_config (b_disk w) None = Some (config, Some config) \<and> c = client_process w ob args config
    \<and> filter (\<lambda>c. list_ex is_connection (c_events c)) (client_main lib env w ob args p) = [c]"
proof -
  let ?exe = "get_executable_path (b_disk w)"
  let ?d = "daemonize_with_log_redirect (b_sys w) (log_dir_of ?exe) p"
  let ?parent = "\<lparr>c_end = ParentDone, c_events = [], c_is_ltk = False, c_ready = False\<rparr>"
  obtain config where config: "read_client_config (b_disk w) None = Some (config, Some config)"
    "client_main lib env w ob args p = map (\<lambda>(r, q). if r = Inr False then ?parent else client_process w ob args config) ?d"
    using assms(2,3)
    by (auto simp: client_main_def Let_def read_client_config_def get_or_init_def split: if_splits option.splits prod.splits)
  obtain r q where rq: "filter (\<lambda>(r, _). r \<noteq> Inr False) ?d = [(r, q)]"
    using one_process_goes_on [OF assms(1)] by blast
  have "filter (\<lambda>c. list_ex is_connection (c_events c)) (map (\<lambda>(r, q). if r = Inr False then ?parent else k) xs)
      = (if list_ex is_connection (c_events k) then map (\<lambda>_. k) (filter (\<lambda>(r, _). r \<noteq> Inr False) xs) else [])"
    for k and xs :: "(bool result \<times> process) list"
    by (induction xs) (auto split: prod.splits)
  then have "filter (\<lambda>c. list_ex is_connection (c_events c)) (client_main lib env w ob args p) =
      (if list_ex is_connection (c_events (client_process w ob args config)) then [client_process w ob args config] else [])"
    using config(2) rq by simp
  moreover have "c = client_process w ob args config"
    using assms(2,3) config(2) by (auto split: if_splits)
  ultimately show ?thesis using config(1) assms(2) by simp
qed

text \<open>
  C29. One start of the program gives at most one process that connects to the server, however many processes the
  daemonization leaves. It connects with the one token that the validated configuration and the command line
  name, exactly after the Python library is loaded, both modules of the client are registered, the lock functions are
  hooked and the interpreter, the bundle manager and the database bridge are started, each once and in this order.
  Jobs are checked, and a panic restarts the client, only in this process and only once the server was ready.
\<close>

theorem one_process_connects:
  assumes "forks_fresh (b_sys w) p" "c \<in> set (client_main lib env w ob args p)"
    and "list_ex is_connection (c_events c) \<or> rounds_of (c_end c) \<noteq> [] \<or> restart_on_panic production (c_is_ltk c) (c_ready c)"
  shows "filter (\<lambda>c. list_ex is_connection (c_events c)) (client_main lib env w ob args p) = [c]
    \<and> (\<exists>config library token reconn. read_client_config (b_disk w) None = Some (config, Some config)
        \<and> validate_config config = Inr () \<and> get_python_library_path (b_env_library w) config = Some library
        \<and> resolve_websocket_token args config = Inr (token, reconn)
        \<and> c_events c = map HostCall ([Dlopen library, LibraryNew library, AppendInittab ''_bundledb'',
              AppendInittab ''_bundlelogging''] @ init_calls @ [PyCall ''PyEval_SaveThread''])
            @ [InitBundles (get_default_bundle_path (b_disk w)), StartBridge,
               StartConnection (get_websocket_endpoint config) token reconn])
    \<and> (rounds_of (c_end c) \<noteq> [] \<or> restart_on_panic production (c_is_ltk c) (c_ready c) \<longrightarrow> list_ex p_ready (ob_polls ob))"
proof -
  have ready: "list_ex is_connection (c_events c) \<and> list_ex p_ready (ob_polls ob)" if "c_ready c \<or> rounds_of (c_end c) \<noteq> []"
    using assms(2) that client_process_ready
    by (fastforce simp: client_main_def Let_def split: if_splits option.splits prod.splits)
  then have con: "list_ex is_connection (c_events c)" using assms(3) by (auto simp: restart_on_panic_def)
  obtain config where c: "read_client_config (b_disk w) None = Some (config, Some config)" "c = client_process w ob args config"
    "filter (\<lambda>c. list_ex is_connection (c_events c)) (client_main lib env w ob args p) = [c]"
    using client_main_processes [OF assms(1) con assms(2)] by blast
  obtain url token reconn where u: "StartConnection url token reconn \<in> set (c_events c)"
    using con by (auto simp: list_ex_iff is_connection_iff)
  have "c_events c = snd (start_client w args config)" using client_process_events u c(2) by blast
  then have "start_client w args config = (fst (start_client w args config), c_events c)" by simp
  from connects_only_after_set_up [OF this u] show ?thesis
    using c(1,3) ready by (auto simp: restart_on_panic_def)
qed

text \<open>A start in which everything works, with a server that is ready at the second poll.\<close>

definition willing_boot :: boot where
  "willing_boot = \<lparr>
     b_disk = \<lparr>current_exe = Some [RootDir, Normal ''c'', Normal ''client''], config_opens = (\<lambda>_. True), config_parsed = (\<lambda>_. Inr sample_config)\<rparr>,
     b_log = \<lparr>makes_dir = (\<lambda>_. True), makes_appender = (\<lambda>_. True), rust_log = None, accepts_default = True\<rparr>,
     b_sys = sample_sys, b_runtime = Inr (), b_env_library = None, b_python = willing_host, b_start = Inr (), b_signals = Inr ()\<rparr>"

definition ready_soon :: observed where
  "ready_soon = \<lparr>ob_polls = [\<lparr>p_ready = False, p_closed = False, p_late = False\<rparr>, \<lparr>p_ready = True, p_closed = False, p_late = False\<rparr>],
     ob_events = [SigTerm], ob_env = (\<lambda>_. quiet_outside), ob_tasks = (\<lambda>_ _. quiet_outside)\<rparr>"

definition no_release :: update_outside where
  "no_release = \<lparr>u_release = (\<lambda>_. Inl ''offline''), u_asset = (\<lambda>_. Inl ''offline''), u_fs = (\<lambda>_. Inr ()),
     u_exe = Inl ''unknown'', u_current_version = ''1''\<rparr>"

definition plain_versions :: "string update_lib" where
  "plain_versions = \<lparr>parse_version = Inr, version_le = (=), sha256_hex = (\<lambda>_. [])\<rparr>"

abbreviation sample_runs :: "client_run list" where
  "sample_runs \<equiv> client_main plain_versions no_release willing_boot ready_soon [''client'', ''tok''] sample_process"

lemma sample_runs_client: "client_process willing_boot ready_soon [''client'', ''tok''] sample_config \<in> set sample_runs"
  by (simp add: client_main_def is_help_def read_client_config_def get_or_init_def load_config_def Let_def willing_boot_def
      init_logging_with_level_def init_logging_def install_subscriber_def check_for_updates_def check_for_update_def
      no_release_def daemonize_with_log_redirect_def fork_def first_fork_def second_fork_def redirect_stdio_def
      null_stdio_def log_stdio_def open_fd_def sample_sys_def)

lemma sample_client_starts:
  "fst (start_client willing_boot [''client'', ''tok''] sample_config) = Started False
   \<and> list_ex is_connection (snd (start_client willing_boot [''client'', ''tok''] sample_config))"
  by code_simp

theorem one_process_connects_witness:
  "\<exists>c. filter (\<lambda>c. list_ex is_connection (c_events c)) sample_runs = [c] \<and> c_end c = Finished []"
proof -
  let ?c = "client_process willing_boot ready_soon [''client'', ''tok''] sample_config"
  have "?c = \<lparr>c_end = Finished [], c_events = snd (start_client willing_boot [''client'', ''tok''] sample_config),
      c_is_ltk = c_is_ltk ?c, c_ready = True\<rparr>"
    using sample_client_starts
    by (auto simp: client_process_def serve_def ready_soon_def willing_boot_def Let_def split: prod.splits)
  then have c: "c_end ?c = Finished []" "list_ex is_connection (c_events ?c)" using sample_client_starts by (metis client_run.select_convs)+
  have "forks_fresh (b_sys willing_boot) sample_process" by (simp add: willing_boot_def) code_simp
  then show ?thesis using one_process_connects [OF _ sample_runs_client] c by blast
qed

text \<open>An event that ends the loop, and one at which the jobs are checked.\<close>

fun ends_loop :: "bool \<Rightarrow> main_event \<Rightarrow> bool" where
  "ends_loop reconn (Tick closed) \<longleftrightarrow> closed \<and> \<not> reconn"
| "ends_loop reconn (Reconnected closed) \<longleftrightarrow> False"
| "ends_loop reconn _ \<longleftrightarrow> True"

fun checks_jobs :: "main_event \<Rightarrow> bool" where
  "checks_jobs (Tick closed) \<longleftrightarrow> \<not> closed"
| "checks_jobs (Reconnected closed) \<longleftrightarrow> \<not> closed"
| "checks_jobs _ \<longleftrightarrow> False"

text \<open>
  The main loop ends exactly at the first signal, requested shutdown or, with a one-shot token only, tick on a closed
  connection; until then it checks the jobs once for every tick and every reconnect that finds the connection
  open, and never otherwise.
\<close>

theorem main_loop_behaviour:
  "main_loop env tasks reconn es n =
     (map (status_round env tasks)
        [n ..< n + length (filter checks_jobs (takeWhile (\<lambda>e. \<not> ends_loop reconn e) es))],
      \<not> list_ex (ends_loop reconn) es)"
proof (induction es arbitrary: n)
  case (Cons e es)
  then show ?case by (cases e; cases reconn) (simp_all add: upt_conv_Cons del: upt_Suc)
qed simp

end
