(* ===== verification/Archive.thy ===== *)
theory Archive
  imports Jobs
begin

text \<open>
  The archive of a finished job: the size limiter and \<^verbatim>\<open>archive_dir\<close> of \<^verbatim>\<open>src/src/src/jobs/mod.rs\<close>, the work behind the event
  \<open>ArchiveDir\<close> of the job handlers. The walk over the directory, the tar builder and the gzip encoder are crates: a
  record \<open>archive_tools\<close> gives the entries the walk yields and the buffers that the builder and the encoder pass to
  \<^verbatim>\<open>Write::write\<close> during each operation and when they are dropped.
\<close>

subsection \<open>The archive size limit\<close>

text \<open>
  \<^verbatim>\<open>ArchiveSizeLimiter\<close> over an inner writer that accepts a prefix of each buffer or fails, as
  \<^verbatim>\<open>Write::write\<close> does. \<open>written\<close> counts what reached the inner writer.
\<close>

record archive_size_limiter =
  written :: u64
  max_size :: u64
  sink :: bytes

definition limiter_write ::
  "(bytes \<Rightarrow> nat result) \<Rightarrow> bytes \<Rightarrow> archive_size_limiter \<Rightarrow> nat result \<times> archive_size_limiter" where
  "limiter_write inner buf l =
     (case inner buf of
        Inl e \<Rightarrow> (Inl e, l)
      | Inr n \<Rightarrow>
          let l' = l\<lparr>written := u64_saturating_add (written l) (of_nat n), sink := sink l @ take n buf\<rparr>
          in if written l' > max_size l'
             then (Inl (''archive size limit of '' @ show_nat (unat (max_size l')) @ '' bytes exceeded (wrote ''
                        @ show_nat (unat (written l')) @ '' bytes)''), l')
             else (Inr n, l'))"

fun limiter_run ::
  "(bytes \<Rightarrow> nat result) \<Rightarrow> bytes list \<Rightarrow> archive_size_limiter \<Rightarrow> unit result \<times> archive_size_limiter" where
  "limiter_run inner [] l = (Inr (), l)"
| "limiter_run inner (b # bs) l =
     (case limiter_write inner b l of
        (Inl e, l') \<Rightarrow> (Inl e, l')
      | (Inr n, l') \<Rightarrow> limiter_run inner bs l')"

subsection \<open>Building the archive\<close>

abbreviation MAX_ARCHIVE_SIZE_BYTES :: u64 where "MAX_ARCHIVE_SIZE_BYTES \<equiv> 1073741824"

record walk_entry =
  we_path :: path
  we_is_dir :: bool

definition file_name :: "path \<Rightarrow> string" where
  "file_name p = (if p = [] then [] else component_name (last p))"

datatype archive_op = AppendDir path path | AppendPath path path | FinishArchive

text \<open>
  \<open>walk d keep\<close> is what \<^verbatim>\<open>WalkDir::new(d).into_iter().filter_entry(keep)\<close> yields. \<open>packed ops\<close> are the buffers written during the
  last of the operations \<open>ops\<close>, \<open>op_error ops\<close> an error of it that does not come from a write, \<open>on_drop ops\<close> the
  buffers written when builder and encoder are dropped; \<open>accept\<close> is the file.
\<close>

record archive_tools =
  create :: "unit result"
  walk :: "path \<Rightarrow> (walk_entry \<Rightarrow> bool) \<Rightarrow> walk_entry result list"
  packed :: "archive_op list \<Rightarrow> bytes list"
  op_error :: "archive_op list \<Rightarrow> string option"
  on_drop :: "archive_op list \<Rightarrow> bytes list"
  accept :: "bytes \<Rightarrow> nat result"

definition perform_op :: "archive_tools \<Rightarrow> archive_op list \<Rightarrow> archive_size_limiter \<Rightarrow> unit result \<times> archive_size_limiter" where
  "perform_op T ops l =
     (case limiter_run (accept T) (packed T ops) l of
        (Inl e, l') \<Rightarrow> (Inl e, l')
      | (Inr _, l') \<Rightarrow> (case op_error T ops of Some e \<Rightarrow> (Inl e, l') | None \<Rightarrow> (Inr (), l')))"

definition op_of :: "path \<Rightarrow> walk_entry \<Rightarrow> archive_op" where
  "op_of dir e =
     (let rel = strip_prefix_or dir (we_path e)
      in if we_is_dir e then AppendDir rel (we_path e) else AppendPath (we_path e) rel)"

definition append_error :: "walk_entry \<Rightarrow> string \<Rightarrow> string" where
  "append_error en e =
     (if we_is_dir en then ''Failed to append dir '' else ''Failed to append path '')
       @ path_to_string (we_path en) @ '': '' @ e"

fun append_entries ::
    "archive_tools \<Rightarrow> path \<Rightarrow> walk_entry result list \<Rightarrow> archive_op list \<Rightarrow> archive_size_limiter
       \<Rightarrow> unit result \<times> archive_op list \<times> archive_size_limiter" where
  "append_entries T dir [] ops l = (Inr (), ops, l)"
| "append_entries T dir (Inl e # es) ops l = (Inl (''Failed to read directory entry: '' @ e), ops, l)"
| "append_entries T dir (Inr en # es) ops l =
     (let ops' = ops @ [op_of dir en]
      in case perform_op T ops' l of
           (Inl e, l') \<Rightarrow> (Inl (append_error en e), ops', l')
         | (Inr _, l') \<Rightarrow> append_entries T dir es ops' l')"

text \<open>Dropping the encoder writes what it still holds and ignores errors.\<close>

fun drop_encoder :: "archive_tools \<Rightarrow> bytes list \<Rightarrow> archive_size_limiter \<Rightarrow> archive_size_limiter" where
  "drop_encoder T [] l = l"
| "drop_encoder T (b # bs) l = drop_encoder T bs (snd (limiter_write (accept T) b l))"

definition keep_entry :: "walk_entry \<Rightarrow> bool" where
  "keep_entry e \<longleftrightarrow> file_name (we_path e) \<noteq> ARCHIVE_FILE_NAME"

text \<open>The result, the operations done, and the archive before and after the encoder is dropped.\<close>

definition archive_dir_with_limit ::
    "archive_tools \<Rightarrow> path \<Rightarrow> u64 \<Rightarrow> unit result \<times> archive_op list \<times> archive_size_limiter \<times> archive_size_limiter" where
  "archive_dir_with_limit T dir max_bytes =
     (let l0 = \<lparr>written = 0, max_size = max_bytes, sink = []\<rparr>
      in case create T of
           Inl e \<Rightarrow> (Inl (''Failed to create archive file: '' @ e), [], l0, l0)
         | Inr _ \<Rightarrow>
             (case append_entries T dir (drop 1 (walk T dir keep_entry)) [] l0 of
                (Inl e, ops, l) \<Rightarrow> (Inl e, ops, l, drop_encoder T (on_drop T ops) l)
              | (Inr _, ops, l) \<Rightarrow>
                  (case perform_op T (ops @ [FinishArchive]) l of
                     (Inl e, l') \<Rightarrow> (Inl (''Failed to finish archive: '' @ e), ops @ [FinishArchive], l',
                                     drop_encoder T (on_drop T (ops @ [FinishArchive])) l')
                   | (Inr _, l') \<Rightarrow> (Inr (), ops @ [FinishArchive], l',
                                     drop_encoder T (on_drop T (ops @ [FinishArchive])) l'))))"

definition archive_dir :: "archive_tools \<Rightarrow> path \<Rightarrow> unit result \<times> archive_op list \<times> archive_size_limiter \<times> archive_size_limiter" where
  "archive_dir T dir = archive_dir_with_limit T dir MAX_ARCHIVE_SIZE_BYTES"

subsection \<open>Bounds\<close>

text \<open>What the limiter keeps: the counter counts the bytes in the file.\<close>

definition in_limit :: "archive_size_limiter \<Rightarrow> bool" where
  "in_limit l \<longleftrightarrow> unat (written l) = length (sink l) \<and> written l \<le> max_size l"

text \<open>The file takes a prefix of each buffer; buffers have at most \<open>m\<close> bytes.\<close>

definition takes_prefixes :: "(bytes \<Rightarrow> nat result) \<Rightarrow> bool" where
  "takes_prefixes inner \<longleftrightarrow> (\<forall>b n. inner b = Inr n \<longrightarrow> n \<le> length b)"

lemma limiter_write_in_limit:
  assumes "takes_prefixes inner" "length b \<le> m" "unat (max_size l) + m < 2 ^ 64" "in_limit l"
    and "limiter_write inner b l = (r, l')"
  shows "max_size l' = max_size l \<and> unat (written l') = length (sink l') \<and> length (sink l') \<le> unat (max_size l) + m
    \<and> (\<not> isl r \<longrightarrow> in_limit l')"
proof (cases "inner b")
  case (Inl e)
  then show ?thesis
    using assms(4,5) by (auto simp: limiter_write_def in_limit_def word_le_nat_alt)
next
  case (Inr n)
  then have n: "n \<le> length b" using assms(1) by (simp add: takes_prefixes_def)
  let ?l1 = "l\<lparr>written := u64_saturating_add (written l) (of_nat n), sink := sink l @ take n b\<rparr>"
  have "unat (of_nat n :: u64) = n" using n assms(2,3) by (simp add: unat_of_nat)
  then have "unat (written ?l1) = length (sink ?l1)"
    using n assms(2-4) by (simp add: in_limit_def word_le_nat_alt u64_saturating_add_def unat_word_ariths(1))
  moreover have "length (sink ?l1) \<le> unat (max_size l) + m"
    using n assms(2,4) by (simp add: in_limit_def word_le_nat_alt)
  moreover have "l' = ?l1" "isl r \<longleftrightarrow> written ?l1 > max_size ?l1"
    using assms(5) unfolding limiter_write_def Inr by (auto simp: Let_def split: if_splits)
  ultimately show ?thesis by (simp add: in_limit_def not_less)
qed

lemma limiter_run_in_limit:
  assumes "takes_prefixes inner" "\<forall>b\<in>set bufs. length b \<le> m" "unat (max_size l) + m < 2 ^ 64" "in_limit l"
    and "limiter_run inner bufs l = (r, l')"
  shows "max_size l' = max_size l \<and> length (sink l') \<le> unat (max_size l) + m \<and> (\<not> isl r \<longrightarrow> in_limit l')"
  using assms(2-)
proof (induction bufs arbitrary: l)
  case Nil
  then show ?case by (simp add: in_limit_def word_le_nat_alt)
next
  case (Cons b bs)
  obtain q u where w: "limiter_write inner b l = (q, u)" by (cases "limiter_write inner b l")
  note u = limiter_write_in_limit [OF assms(1) _ Cons.prems(2,3) w]
  show ?case
    using u Cons.IH [of u] Cons.prems w by (cases q) auto
qed

lemma perform_op_in_limit:
  assumes "takes_prefixes (accept T)" "\<forall>b\<in>set (packed T ops). length b \<le> m" "unat (max_size l) + m < 2 ^ 64" "in_limit l"
    and "perform_op T ops l = (r, l')"
  shows "max_size l' = max_size l \<and> length (sink l') \<le> unat (max_size l) + m \<and> (\<not> isl r \<longrightarrow> in_limit l')"
proof -
  obtain q u where w: "limiter_run (accept T) (packed T ops) l = (q, u)"
    by (cases "limiter_run (accept T) (packed T ops) l")
  show ?thesis
    using limiter_run_in_limit [OF assms(1-4) w] assms(5) w
    by (cases q) (auto simp: perform_op_def split: option.splits)
qed

text \<open>The entries of a walk without an error are appended in their order.\<close>

lemma append_entries_ok:
  assumes "append_entries T dir es ops l = (Inr (), ops', l')"
  shows "\<exists>ens. es = map Inr ens \<and> ops' = ops @ map (op_of dir) ens"
  using assms
proof (induction es arbitrary: ops l)
  case (Cons x es)
  show ?case
  proof (cases x)
    case (Inr en)
    then obtain u where "perform_op T (ops @ [op_of dir en]) l = (Inr (), u)"
      "append_entries T dir es (ops @ [op_of dir en]) u = (Inr (), ops', l')"
      using Cons.prems by (auto simp: Let_def split: prod.splits sum.splits)
    then obtain ens where "es = map Inr ens" "ops' = (ops @ [op_of dir en]) @ map (op_of dir) ens"
      using Cons.IH by blast
    then show ?thesis using Inr by (intro exI [of _ "en # ens"]) simp
  qed (use Cons.prems in simp)
qed simp

lemma append_entries_in_limit:
  assumes "takes_prefixes (accept T)" "\<forall>ops. \<forall>b\<in>set (packed T ops). length b \<le> m"
    and "unat (max_size l) + m < 2 ^ 64" "in_limit l" "append_entries T dir es ops l = (r, ops', l')"
  shows "max_size l' = max_size l \<and> length (sink l') \<le> unat (max_size l) + m \<and> (\<not> isl r \<longrightarrow> in_limit l')"
  using assms(3-)
proof (induction es arbitrary: ops l)
  case Nil
  then show ?case by (auto simp: in_limit_def word_le_nat_alt)
next
  case (Cons x es)
  show ?case
  proof (cases x)
    case (Inl e)
    then show ?thesis using Cons.prems by (auto simp: in_limit_def word_le_nat_alt)
  next
    case (Inr en)
    obtain q u where p: "perform_op T (ops @ [op_of dir en]) l = (q, u)"
      by (cases "perform_op T (ops @ [op_of dir en]) l")
    note u = perform_op_in_limit [OF assms(1) assms(2) [THEN spec] Cons.prems(1,2) p]
    show ?thesis
      using u Cons.IH [of u "ops @ [op_of dir en]"] Cons.prems Inr p by (cases q) (auto simp: Let_def)
  qed
qed


text \<open>A directory with one file; the file system refuses a buffer that starts with 9.\<close>

definition sample_tools :: archive_tools where
  "sample_tools = \<lparr>create = Inr (),
     walk = (\<lambda>d keep. map Inr (filter keep [\<lparr>we_path = d, we_is_dir = True\<rparr>,
                                         \<lparr>we_path = d @ [Normal ''f''], we_is_dir = False\<rparr>])),
     packed = (\<lambda>_. [[1, 2]]), op_error = (\<lambda>_. None), on_drop = (\<lambda>_. [[9, 9]]),
     accept = (\<lambda>b. if take 1 b = [9] then Inl ''No space left on device'' else Inr (length b))\<rparr>"

lemma sample_archive:
  "archive_dir sample_tools [RootDir, Normal ''w''] =
     (let l = \<lparr>written = 4, max_size = MAX_ARCHIVE_SIZE_BYTES, sink = [1, 2, 1, 2]\<rparr>
      in (Inr (), [AppendPath [RootDir, Normal ''w'', Normal ''f''] [Normal ''f''], FinishArchive], l, l))"
  by (simp add: archive_dir_def archive_dir_with_limit_def sample_tools_def perform_op_def limiter_write_def Let_def
      keep_entry_def file_name_def op_of_def strip_prefix_or_def u64_saturating_add_def)


text \<open>
  The encoder is never finished, only dropped, and errors of its last writes are ignored: an archive whose end
  could not be written is reported as made.
\<close>

lemma unfinished_archive_is_reported_made:
  "\<exists>ops l. archive_dir sample_tools [RootDir, Normal ''w''] = (Inr (), ops, l, l) \<and> on_drop sample_tools ops = [[9, 9]]"
  by (simp add: sample_archive Let_def) (simp add: sample_tools_def)

end
