(* ===== verification/Submit_Tasks.thy ===== *)
theory Submit_Tasks
  imports Jobs
begin

text \<open>
  Many submit messages for one job at the same time. \<open>Jobs\<close> runs the handler of \<^verbatim>\<open>src/src/src/jobs/mod.rs\<close> as one task
  among arbitrary others; here all tasks that the messages of one job start run together, over the row of the job in the
  database and \<^verbatim>\<open>SUBMIT_MUTEX\<close>, which a task holds from before its lookup until its claim, its counter or its
  decision is settled, but not while it prepares and runs the submission. A request to the database is one step; one
  that fails may or may not have changed the row.
\<close>

subsection \<open>Tasks\<close>

text \<open>Where a task is, with its copy of the job.\<close>

datatype task_pc =
  WantsLock
| HasLock
| Found job
| Claimed job
| Prepared job
| Returned job u64
| Checking job
| Ended

text \<open>\<open>accepted\<close> counts the calls of the bundle's submit function that returned a scheduler identifier.\<close>

record submit_sys =
  row :: "job option"
  holder :: "nat option"
  pcs :: "task_pc list"
  accepted :: nat

definition found_job :: "job option \<Rightarrow> job" where
  "found_job r = (case r of None \<Rightarrow> default_job | Some j \<Rightarrow> j)"

definition accepted_job :: "job \<Rightarrow> u64 \<Rightarrow> job" where
  "accepted_job j scheduler_id =
     j\<lparr>j_scheduler_id := Some (cap_scheduler_id scheduler_id), j_submitting := False, j_running := True\<rparr>"

text \<open>The row after a request to save \<open>j\<close> that was not acknowledged, or whose acknowledgement is not used.\<close>

definition maybe_saved :: "job \<Rightarrow> job option \<Rightarrow> job option \<Rightarrow> bool" where
  "maybe_saved j r r' \<longleftrightarrow> r' = r \<or> (\<exists>k. r' = Some (j\<lparr>j_id := k\<rparr>))"

definition advance_task :: "nat \<Rightarrow> task_pc \<Rightarrow> submit_sys \<Rightarrow> submit_sys" where
  "advance_task i pc s = s\<lparr>pcs := (pcs s)[i := pc]\<rparr>"

inductive submit_step :: "i64 \<Rightarrow> submit_sys \<Rightarrow> submit_sys \<Rightarrow> bool" for job_id where
  skip: "i < length (pcs s) \<Longrightarrow> pcs s ! i = WantsLock \<Longrightarrow> submit_step job_id s (advance_task i Ended s)"
| lock: "i < length (pcs s) \<Longrightarrow> pcs s ! i = WantsLock \<Longrightarrow> holder s = None \<Longrightarrow>
    submit_step job_id s (advance_task i HasLock s\<lparr>holder := Some i\<rparr>)"
| lookup: "i < length (pcs s) \<Longrightarrow> pcs s ! i = HasLock \<Longrightarrow>
    submit_step job_id s (advance_task i (Found (found_job (row s))) s)"
| lookup_fails: "i < length (pcs s) \<Longrightarrow> pcs s ! i = HasLock \<Longrightarrow>
    submit_step job_id s (advance_task i Ended s\<lparr>holder := None\<rparr>)"
| bump: "i < length (pcs s) \<Longrightarrow> pcs s ! i = Found j \<Longrightarrow> decide_submit job_id j = StillSubmitting j' \<Longrightarrow>
    maybe_saved j' (row s) r \<Longrightarrow> submit_step job_id s (advance_task i Ended s\<lparr>holder := None, row := r\<rparr>)"
| already: "i < length (pcs s) \<Longrightarrow> pcs s ! i = Found j \<Longrightarrow> decide_submit job_id j = AlreadySubmitted j' \<Longrightarrow>
    submit_step job_id s (advance_task i (Checking j') s\<lparr>holder := None\<rparr>)"
| claim: "i < length (pcs s) \<Longrightarrow> pcs s ! i = Found j \<Longrightarrow> decide_submit job_id j = SubmitNow j' \<Longrightarrow>
    j2 = (claimed job_id hash j')\<lparr>j_id := k\<rparr> \<Longrightarrow>
    submit_step job_id s (advance_task i (Claimed j2) s\<lparr>holder := None, row := Some j2\<rparr>)"
| claim_fails: "i < length (pcs s) \<Longrightarrow> pcs s ! i = Found j \<Longrightarrow> decide_submit job_id j = SubmitNow j' \<Longrightarrow>
    maybe_saved (claimed job_id hash j') (row s) r \<Longrightarrow>
    submit_step job_id s (advance_task i Ended s\<lparr>holder := None, row := r\<rparr>)"
| prepare: "i < length (pcs s) \<Longrightarrow> pcs s ! i = Claimed j \<Longrightarrow> j2 = j\<lparr>j_working_directory := wd, j_id := k\<rparr> \<Longrightarrow>
    submit_step job_id s (advance_task i (Prepared j2) s\<lparr>row := Some j2\<rparr>)"
| prepare_fails: "i < length (pcs s) \<Longrightarrow> pcs s ! i = Claimed j \<Longrightarrow> maybe_saved (j\<lparr>j_working_directory := wd\<rparr>) (row s) r \<Longrightarrow>
    submit_step job_id s (advance_task i Ended s\<lparr>row := r\<rparr>)"
| run: "i < length (pcs s) \<Longrightarrow> pcs s ! i = Prepared j \<Longrightarrow>
    submit_step job_id s (advance_task i (Returned j scheduler_id) s
      \<lparr>accepted := (if scheduler_id = 0 then accepted s else Suc (accepted s))\<rparr>)"
| refused: "i < length (pcs s) \<Longrightarrow> pcs s ! i = Returned j 0 \<Longrightarrow> r \<in> {row s, None} \<Longrightarrow>
    submit_step job_id s (advance_task i Ended s\<lparr>row := r\<rparr>)"
| finish: "i < length (pcs s) \<Longrightarrow> pcs s ! i = Returned j scheduler_id \<Longrightarrow> scheduler_id \<noteq> 0 \<Longrightarrow>
    maybe_saved (accepted_job j scheduler_id) (row s) r \<Longrightarrow> submit_step job_id s (advance_task i Ended s\<lparr>row := r\<rparr>)"
| check: "i < length (pcs s) \<Longrightarrow> pcs s ! i = Checking j \<Longrightarrow> maybe_saved (j\<lparr>j_running := False\<rparr>) (row s) r \<Longrightarrow>
    submit_step job_id s (advance_task i Ended s\<lparr>row := r\<rparr>)"

text \<open>\<open>n\<close> messages for a job that the database does not have yet.\<close>

definition submit_start :: "nat \<Rightarrow> submit_sys" where
  "submit_start n = \<lparr>row = None, holder = None, pcs = replicate n WantsLock, accepted = 0\<rparr>"

fun locked :: "task_pc \<Rightarrow> bool" where
  "locked HasLock \<longleftrightarrow> True"
| "locked (Found j) \<longleftrightarrow> True"
| "locked _ \<longleftrightarrow> False"

fun submits :: "task_pc \<Rightarrow> bool" where
  "submits (Claimed j) \<longleftrightarrow> True"
| "submits (Prepared j) \<longleftrightarrow> True"
| "submits (Returned j sid) \<longleftrightarrow> True"
| "submits _ \<longleftrightarrow> False"

subsection \<open>The counter\<close>

text \<open>
  What each copy of the job, in the row and in the tasks, satisfies: its counter is at most the number of tasks
  that have ended, so fewer than 60 tasks never reach the limit at which a submission is taken over.
\<close>

definition ended :: "submit_sys \<Rightarrow> nat" where
  "ended s = length (filter (\<lambda>pc. pc = Ended) (pcs s))"

fun copy_of :: "task_pc \<Rightarrow> job option" where
  "copy_of (Found j) = Some j"
| "copy_of (Claimed j) = Some j"
| "copy_of (Prepared j) = Some j"
| "copy_of (Returned j sid) = Some j"
| "copy_of (Checking j) = Some j"
| "copy_of _ = None"

definition counts :: "submit_sys \<Rightarrow> i32 set" where
  "counts s = j_submitting_count ` (set_option (row s) \<union> \<Union> (set_option ` copy_of ` set (pcs s)))"

definition below_limit :: "submit_sys \<Rightarrow> bool" where
  "below_limit s \<longleftrightarrow> length (pcs s) < 60 \<and> (\<forall>c \<in> counts s. 0 \<le> sint c \<and> sint c \<le> int (ended s))"

lemma advance_simps [simp]:
  "row (advance_task i pc s) = row s" "holder (advance_task i pc s) = holder s"
  "pcs (advance_task i pc s) = (pcs s)[i := pc]" "accepted (advance_task i pc s) = accepted s"
  by (simp_all add: advance_task_def)

lemma filter_update_length:
  assumes "i < length xs"
  shows "length (filter P (xs[i := x])) + (if P (xs ! i) then 1 else 0) = length (filter P xs) + (if P x then 1 else 0)"
  using assms
proof (induction xs arbitrary: i)
  case (Cons y ys)
  then show ?case using Cons.IH [of "i - 1"] by (cases i) auto
qed simp

lemma ended_update:
  "i < length (pcs s) \<Longrightarrow> pcs s ! i \<noteq> Ended \<Longrightarrow>
   length (filter (\<lambda>pc. pc = Ended) ((pcs s)[i := pc])) = ended s + (if pc = Ended then 1 else 0)"
  using filter_update_length [of i "pcs s" "\<lambda>pc. pc = Ended" pc] by (simp add: ended_def)

lemma ended_less: "i < length (pcs s) \<Longrightarrow> pcs s ! i \<noteq> Ended \<Longrightarrow> ended s < length (pcs s)"
  unfolding ended_def by (rule length_filter_less) auto

text \<open>The counters after a step come from those before it, and one more for a task that ends.\<close>

lemma decide_counts:
  "decide_submit job_id j = StillSubmitting j' \<Longrightarrow>
     j_submitting_count j' = saturating_increment_submit_count (j_submitting_count j)"
  "decide_submit job_id j = AlreadySubmitted j' \<Longrightarrow> j_submitting_count j' \<in> {j_submitting_count j, 0}"
  "decide_submit job_id j = SubmitNow j' \<Longrightarrow> j_submitting_count j' \<in> {j_submitting_count j, 0}"
  by (auto simp: decide_submit_def Let_def split: if_splits)

lemma copy_counts: "i < length (pcs s) \<Longrightarrow> copy_of (pcs s ! i) = Some j \<Longrightarrow> j_submitting_count j \<in> counts s"
  by (force simp: counts_def)

lemma row_counts:
  "row s = Some j \<Longrightarrow> j_submitting_count j \<in> counts s" "j_submitting_count ` set_option (row s) \<subseteq> insert 0 (counts s)"
  by (auto simp: counts_def)

lemma counts_update:
  assumes "pcs s' = (pcs s)[i := pc]"
  shows "counts s' \<subseteq> counts s \<union> j_submitting_count ` (set_option (row s') \<union> set_option (copy_of pc))"
  using assms set_update_subset_insert [of "pcs s" i pc] by (fastforce simp: counts_def)

lemma step_counts:
  assumes "submit_step job_id s s'"
  obtains i pc where "i < length (pcs s)" "pcs s ! i \<noteq> Ended" "pcs s' = (pcs s)[i := pc]"
    "j_submitting_count ` (set_option (row s') \<union> set_option (copy_of pc)) \<subseteq> insert 0 (counts s) \<union>
       (if pc = Ended then saturating_increment_submit_count ` counts s else {})"
proof -
  note facts = claimed_def accepted_job_def found_job_def default_job_def maybe_saved_def
  show thesis
    using assms
  proof cases
    case (bump i j j' r)
    then show ?thesis
      using that [of i Ended] copy_counts [of i s j] row_counts [of s] decide_counts(1) [of job_id j j']
      by (auto simp: facts)
  next
    case (already i j j')
    then show ?thesis
      using that [of i "Checking j'"] copy_counts [of i s j] row_counts [of s] decide_counts(2) [of job_id j j'] by auto
  next
    case (claim i j j' j2 hash k)
    then show ?thesis
      using that [of i "Claimed j2"] copy_counts [of i s j] decide_counts(3) [of job_id j j'] by (auto simp: facts)
  next
    case (claim_fails i j j' hash r)
    then show ?thesis
      using that [of i Ended] copy_counts [of i s j] row_counts [of s] decide_counts(3) [of job_id j j'] by (auto simp: facts)
  next
    case (lookup i)
    then show ?thesis
      using that [of i "Found (found_job (row s))"] row_counts [of s] by (auto simp: facts split: option.splits)
  next
    case (prepare i j j2 wd k)
    then show ?thesis using that [of i "Prepared j2"] copy_counts [of i s j] by auto
  next
    case (run i j sid)
    then show ?thesis using that [of i "Returned j sid"] copy_counts [of i s j] row_counts [of s] by auto
  next
    case (lock i)
    then show ?thesis using that [of i HasLock] row_counts [of s] by auto
  qed (use that [of _ Ended] copy_counts [of _ s] row_counts [of s] in \<open>force simp: facts\<close>)+
qed

text \<open>Below the limit the job is counted or left alone, and never taken over.\<close>

lemma count_below_limit:
  assumes "0 \<le> sint c" "sint c < 59"
  shows "sint (saturating_increment_submit_count c) = sint c + 1"
proof -
  have "sint (word_of_int (sint c + 1) :: i32) = sint c + 1"
    using assms by (intro sint_small_32) simp_all
  then show ?thesis
    using assms by (simp add: saturating_increment_submit_count_def i32_saturating_add_def)
qed

lemma decide_below_limit:
  assumes "below_limit s" "i < length (pcs s)" "pcs s ! i = Found j" "job_id \<noteq> 0"
  shows "decide_submit job_id j =
    (if j_submitting j
     then StillSubmitting (j\<lparr>j_submitting_count := saturating_increment_submit_count (j_submitting_count j)\<rparr>)
     else if j_job_id j = Some job_id then AlreadySubmitted j else SubmitNow j)"
proof -
  have "ended s < 59" using ended_less [OF assms(2)] assms(1,3) by (simp add: below_limit_def)
  then have "sint (saturating_increment_submit_count (j_submitting_count j)) < 60"
    using copy_counts [OF assms(2), of j] assms(1,3) count_below_limit [of "j_submitting_count j"]
    by (force simp: below_limit_def)
  then show ?thesis using assms(4) by (simp add: decide_submit_def Let_def)
qed

lemma below_limit_step:
  assumes "submit_step job_id s s'" "below_limit s"
  shows "below_limit s'"
proof -
  from assms(1) obtain i pc where u: "i < length (pcs s)" "pcs s ! i \<noteq> Ended" "pcs s' = (pcs s)[i := pc]"
    and new: "j_submitting_count ` (set_option (row s') \<union> set_option (copy_of pc)) \<subseteq> insert 0 (counts s) \<union>
       (if pc = Ended then saturating_increment_submit_count ` counts s else {})"
    by (rule step_counts)
  have e: "ended s' = ended s + (if pc = Ended then 1 else 0)" "ended s < 59"
    using ended_update [OF u(1,2), of pc] ended_less [OF u(1,2)] u(3) assms(2) by (simp_all add: ended_def below_limit_def)
  have "0 \<le> sint c \<and> sint c \<le> int (ended s')" if c: "c \<in> counts s'" for c
  proof -
    have "c \<in> counts s \<union> (insert 0 (counts s) \<union> (if pc = Ended then saturating_increment_submit_count ` counts s else {}))"
      using counts_update [OF u(3)] new c by (meson subsetD subset_trans sup.mono sup_ge1 Un_mono order_refl)
    then have "c \<in> insert 0 (counts s) \<or> pc = Ended \<and> (\<exists>d \<in> counts s. c = saturating_increment_submit_count d)"
      by (auto split: if_splits)
    then show ?thesis
      using assms(2) e count_below_limit by (fastforce simp: below_limit_def)
  qed
  then show ?thesis using assms(2) u(3) by (simp add: below_limit_def)
qed

subsection \<open>The invariant\<close>

definition submitting_now :: "submit_sys \<Rightarrow> bool" where
  "submitting_now s \<longleftrightarrow> list_ex submits (pcs s)"

text \<open>A job that no new submission starts from: it is being submitted, or it has been submitted under this identifier.\<close>

definition settled :: "i64 \<Rightarrow> job \<Rightarrow> bool" where
  "settled job_id j \<longleftrightarrow> j_submitting j \<or> j_job_id j = Some job_id"

fun pc_inv :: "i64 \<Rightarrow> nat \<Rightarrow> bool \<Rightarrow> task_pc \<Rightarrow> bool" where
  "pc_inv job_id acc active (Found j) \<longleftrightarrow>
     (if acc = 0 then j_submitting j \<or> j = default_job \<and> \<not> active else settled job_id j)"
| "pc_inv job_id acc active (Claimed j) \<longleftrightarrow> acc = 0 \<and> j_submitting j \<and> j_job_id j = Some job_id"
| "pc_inv job_id acc active (Prepared j) \<longleftrightarrow> acc = 0 \<and> j_submitting j \<and> j_job_id j = Some job_id"
| "pc_inv job_id acc active (Returned j sid) \<longleftrightarrow> (acc = 0 \<longleftrightarrow> sid = 0) \<and> j_submitting j \<and> j_job_id j = Some job_id"
| "pc_inv job_id acc active (Checking j) \<longleftrightarrow> acc \<noteq> 0 \<and> j_job_id j = Some job_id"
| "pc_inv job_id acc active _ \<longleftrightarrow> True"

definition row_inv :: "i64 \<Rightarrow> submit_sys \<Rightarrow> bool" where
  "row_inv job_id s \<longleftrightarrow>
     (if accepted s = 0 then (\<forall>r. row s = Some r \<longrightarrow> j_submitting r) \<and> (submitting_now s \<longrightarrow> row s \<noteq> None)
      else \<exists>r. row s = Some r \<and> settled job_id r)"

definition lock_inv :: "submit_sys \<Rightarrow> bool" where
  "lock_inv s \<longleftrightarrow> (\<forall>i < length (pcs s). locked (pcs s ! i) \<longleftrightarrow> holder s = Some i)"

definition one_submits :: "submit_sys \<Rightarrow> bool" where
  "one_submits s \<longleftrightarrow> (\<forall>i < length (pcs s). \<forall>k < length (pcs s). submits (pcs s ! i) \<longrightarrow> submits (pcs s ! k) \<longrightarrow> i = k)"

definition submit_inv :: "i64 \<Rightarrow> submit_sys \<Rightarrow> bool" where
  "submit_inv job_id s \<longleftrightarrow> below_limit s \<and> lock_inv s \<and> one_submits s \<and> accepted s \<le> 1 \<and> row_inv job_id s
     \<and> (\<forall>i < length (pcs s). pc_inv job_id (accepted s) (submitting_now s) (pcs s ! i))"

lemma lock_inv_step: "submit_step job_id s s' \<Longrightarrow> lock_inv s \<Longrightarrow> lock_inv s'"
  by (induction rule: submit_step.induct) (auto simp: lock_inv_def nth_list_update)

lemma submitting_now_nth: "submitting_now s \<longleftrightarrow> (\<exists>i < length (pcs s). submits (pcs s ! i))"
  by (auto simp: submitting_now_def list_ex_length)

text \<open>Only a task that finds no row, while nothing is submitting and nothing was accepted, makes a claim.\<close>

lemma claim_alone:
  assumes "submit_inv job_id s" "i < length (pcs s)" "pcs s ! i = Found j" "job_id \<noteq> 0"
    and "decide_submit job_id j = SubmitNow j'"
  shows "j' = default_job \<and> accepted s = 0 \<and> \<not> submitting_now s"
proof -
  have l: "below_limit s" and p: "pc_inv job_id (accepted s) (submitting_now s) (Found j)"
    using assms(1-3) by (auto simp: submit_inv_def dest!: spec [of _ i])
  have "\<not> j_submitting j \<and> j_job_id j \<noteq> Some job_id \<and> j' = j"
    using assms(5) decide_below_limit [OF l assms(2-4)] by (simp split: if_splits)
  then show ?thesis using p by (auto simp: settled_def split: if_splits)
qed

lemma already_settled:
  assumes "submit_inv job_id s" "i < length (pcs s)" "pcs s ! i = Found j" "job_id \<noteq> 0"
    and "decide_submit job_id j = AlreadySubmitted j'"
  shows "j' = j \<and> accepted s \<noteq> 0 \<and> j_job_id j = Some job_id"
proof -
  have l: "below_limit s" and p: "pc_inv job_id (accepted s) (submitting_now s) (Found j)"
    using assms(1-3) by (auto simp: submit_inv_def dest!: spec [of _ i])
  have "\<not> j_submitting j \<and> j_job_id j = Some job_id \<and> j' = j"
    using assms(5) decide_below_limit [OF l assms(2-4)] by (simp split: if_splits)
  then show ?thesis using p by (auto simp: default_job_def split: if_splits)
qed

text \<open>A step of one task: what has to be shown for the task itself and for the row, and what follows for the others.\<close>

lemma submit_inv_update:
  assumes inv: "submit_inv job_id s" and i: "i < length (pcs s)" and s': "pcs s' = (pcs s)[i := pc]"
    and l: "below_limit s'" "lock_inv s'"
    and one: "submits pc \<Longrightarrow> submits (pcs s ! i) \<or> \<not> submitting_now s"
    and acc: "accepted s' = accepted s \<or> submits (pcs s ! i) \<and> submits pc \<and> accepted s = 0 \<and> accepted s' = 1"
    and act: "submits pc \<Longrightarrow> submits (pcs s ! i) \<or> locked (pcs s ! i)"
    and new: "row_inv job_id s'" "pc_inv job_id (accepted s') (submitting_now s') pc"
  shows "submit_inv job_id s'"
proof -
  have uniq: "\<not> submits (pcs s ! k)" if "submits pc" "k < length (pcs s)" "k \<noteq> i" for k
    using one [OF that(1)] inv that(2,3) i by (auto simp: submit_inv_def one_submits_def submitting_now_nth)
  have "one_submits s'"
    using inv uniq i s' by (auto simp: submit_inv_def one_submits_def nth_list_update)
  moreover have "pc_inv job_id (accepted s') (submitting_now s') (pcs s ! k)" if k: "k < length (pcs s)" "k \<noteq> i" for k
  proof -
    have p: "pc_inv job_id (accepted s) (submitting_now s) (pcs s ! k)" using inv k by (simp add: submit_inv_def)
    have nl: "\<not> locked (pcs s ! k)" if "locked (pcs s ! i)"
      using that inv i k by (auto simp: submit_inv_def lock_inv_def)
    have act': "submitting_now s' \<longrightarrow> submitting_now s \<or> submits pc"
      using s' i by (auto simp: submitting_now_nth nth_list_update split: if_splits)
    have now: "submitting_now s" if "submits (pcs s ! i)" using that i by (auto simp: submitting_now_nth)
    show ?thesis
      using p acc act act' uniq [OF _ k] nl now
      by (cases "pcs s ! k") (auto simp: settled_def split: if_splits)
  qed
  moreover have "accepted s' \<le> 1" using acc inv by (auto simp: submit_inv_def)
  ultimately show ?thesis using l new i s' by (auto simp: submit_inv_def nth_list_update)
qed

lemma submitting_now_update:
  "i < length (pcs s) \<Longrightarrow> pcs s' = (pcs s)[i := pc] \<Longrightarrow> submitting_now s' \<Longrightarrow> submitting_now s \<or> submits pc"
  by (auto simp: submitting_now_nth nth_list_update split: if_splits)

text \<open>A task that ends, or waits for the mutex, with the row kept or saved as a job that is settled.\<close>

lemma submit_inv_idle:
  assumes inv: "submit_inv job_id s" and i: "i < length (pcs s)" and s': "pcs s' = (pcs s)[i := pc]" "pc \<in> {Ended, HasLock}"
    and l: "below_limit s'" "lock_inv s'" and acc: "accepted s' = accepted s"
    and row: "maybe_saved j (row s) (row s')" "row s' \<noteq> row s \<Longrightarrow> if accepted s = 0 then j_submitting j else settled job_id j"
  shows "submit_inv job_id s'"
proof (rule submit_inv_update [OF inv i s'(1) l])
  have "submitting_now s' \<Longrightarrow> submitting_now s" using submitting_now_update [OF i s'(1)] s'(2) by auto
  then show "row_inv job_id s'"
    using inv row acc by (cases "row s' = row s") (auto simp: submit_inv_def row_inv_def maybe_saved_def settled_def split: if_splits)
qed (use s'(2) acc in auto)

lemma submit_inv_pcs:
  assumes "submit_inv job_id s" "i < length (pcs s)"
  shows "pc_inv job_id (accepted s) (submitting_now s) (pcs s ! i)" "submits (pcs s ! i) \<Longrightarrow> submitting_now s"
  using assms by (auto simp: submit_inv_def submitting_now_nth)

text \<open>Steps that decide under the mutex, and steps of the task that submits.\<close>

lemma submit_inv_step:
  assumes step: "submit_step job_id s s'" and inv: "submit_inv job_id s" and id: "job_id \<noteq> 0"
  shows "submit_inv job_id s'"
proof -
  have l: "below_limit s'" "lock_inv s'"
    using below_limit_step [OF step] lock_inv_step [OF step] inv by (auto simp: submit_inv_def)
  have r: "row_inv job_id s" "accepted s \<le> 1" and limit: "below_limit s" using inv by (auto simp: submit_inv_def)
  note upd = submit_inv_update [OF inv _ _ l] and idle = submit_inv_idle [OF inv _ _ _ l] and p = submit_inv_pcs [OF inv]
  note facts = row_inv_def settled_def
  show ?thesis
    using step
  proof cases
    case (lookup i)
    then show ?thesis
      using upd [of i "Found (found_job (row s))"] r submitting_now_update [of i s s' "Found (found_job (row s))"]
      by (auto simp: facts found_job_def split: option.splits if_splits)
  next
    case (bump i j j' q)
    then have "j_submitting j'" using decide_below_limit [OF limit bump(2,3) id] by (auto split: if_splits)
    then show ?thesis using idle [of i Ended j'] bump by (simp add: settled_def)
  next
    case (already i j j')
    then show ?thesis
      using upd [of i "Checking j'"] already_settled [OF inv already(2,3) id already(4)] r by (auto simp: facts)
  next
    case (claim i j j' j2 hash k)
    then show ?thesis
      using upd [of i "Claimed j2"] claim_alone [OF inv claim(2,3) id claim(4)] by (auto simp: facts claimed_def)
  next
    case (claim_fails i j j' hash q)
    then show ?thesis using idle [of i Ended "claimed job_id hash j'"] by (simp add: settled_def claimed_def)
  next
    case (prepare i j j2 wd k)
    then show ?thesis using upd [of i "Prepared j2"] p [of i] by (auto simp: facts)
  next
    case (prepare_fails i j wd q)
    then show ?thesis using idle [of i Ended "j\<lparr>j_working_directory := wd\<rparr>"] p(1) [of i] by simp
  next
    case (run i j sid)
    then show ?thesis using upd [of i "Returned j sid"] p [of i] r by (auto simp: facts split: if_splits)
  next
    case (refused i j q)
    have "\<not> submits (pcs s ! k)" if "k < length (pcs s)" "k \<noteq> i" for k
      using inv refused(2,3) that by (fastforce simp: submit_inv_def one_submits_def)
    then have "\<not> submitting_now s'" using refused(1,2) by (auto simp: submitting_now_nth nth_list_update)
    then show ?thesis using upd [of i Ended] refused p(1) [of i] r by (auto simp: facts)
  next
    case (finish i j sid q)
    then show ?thesis using idle [of i Ended "accepted_job j sid"] p(1) [of i] by (simp add: settled_def accepted_job_def)
  next
    case (check i j q)
    then show ?thesis using idle [of i Ended "j\<lparr>j_running := False\<rparr>"] p(1) [of i] by (simp add: settled_def)
  qed (use idle in \<open>auto simp: maybe_saved_def\<close>)
qed

subsection \<open>Properties\<close>

lemma step_length: "submit_step job_id s s' \<Longrightarrow> length (pcs s') = length (pcs s)"
  by (induction rule: submit_step.induct) simp_all

lemma submit_inv_start: "n < 60 \<Longrightarrow> submit_inv job_id (submit_start n)"
  by (auto simp: submit_inv_def submit_start_def below_limit_def counts_def lock_inv_def one_submits_def row_inv_def
      submitting_now_nth)

interpretation submission: invariant_system "submit_start n" "submit_step job_id"
    "\<lambda>s. job_id \<noteq> 0 \<longrightarrow> length (pcs s) < 60 \<longrightarrow> submit_inv job_id s"
proof unfold_locales
  show "job_id \<noteq> 0 \<longrightarrow> length (pcs (submit_start n)) < 60 \<longrightarrow> submit_inv job_id (submit_start n)"
    using submit_inv_start by (simp add: submit_start_def)
qed (auto dest: step_length intro: submit_inv_step)

lemma steps_length: "(submit_step job_id)\<^sup>*\<^sup>* s s' \<Longrightarrow> length (pcs s') = length (pcs s)"
  by (induction rule: rtranclp_induct) (simp_all add: step_length)

lemma at_most_one: "one_submits s \<Longrightarrow> length (filter submits (pcs s)) \<le> 1"
proof -
  assume one: "one_submits s"
  have "card {i. i < length (pcs s) \<and> submits (pcs s ! i)} \<le> Suc 0"
    using one by (auto simp: one_submits_def card_le_Suc0_iff_eq)
  then show ?thesis by (simp add: length_filter_conv_card)
qed

text \<open>
  C10. However many submit messages for a new job are handled at the same time, below the limit of 60 at which a
  submission is taken over, and however their steps interleave and their database requests fail: at most one
  of them is submitting at any time, the bundle accepts at most one submission, and once it has, the row of the
  job never again allows another.
\<close>

theorem one_submission_is_accepted:
  assumes "(submit_step job_id)\<^sup>*\<^sup>* (submit_start n) s" "n < 60" "job_id \<noteq> 0"
  shows "accepted s \<le> 1 \<and> length (filter submits (pcs s)) \<le> 1
    \<and> (accepted s = 1 \<longrightarrow> (\<exists>r. row s = Some r \<and> (j_submitting r \<or> j_job_id r = Some job_id)))"
proof -
  have "submit_inv job_id s"
    using submission.inv_always [OF assms(1)] steps_length [OF assms(1)] assms(2,3) by (simp add: submit_start_def)
  then show ?thesis
    using at_most_one [of s] by (auto simp: submit_inv_def row_inv_def settled_def)
qed

definition sample_claim :: job where
  "sample_claim = (claimed 7 ''h'' default_job)\<lparr>j_id := 1\<rparr>"

definition sample_prepared :: job where
  "sample_prepared = sample_claim\<lparr>j_working_directory := ''/w'', j_id := 1\<rparr>"

definition sample_bumped :: job where
  "sample_bumped = sample_prepared\<lparr>j_submitting_count := 1\<rparr>"

text \<open>
  The first task is accepted while the second, which read the row before, holds the mutex; the second then saves
  its copy with the counter raised.
\<close>

lemma overlapping_submissions:
  "(submit_step 7)\<^sup>*\<^sup>* (submit_start 2)
     \<lparr>row = Some sample_bumped, holder = None, pcs = [Ended, Ended], accepted = 1\<rparr>"
proof -
  note defs = advance_task_def
  let ?s = "\<lambda>r h p q n. \<lparr>row = r, holder = h, pcs = [p, q], accepted = n\<rparr> :: submit_sys"
  have d: "decide_submit 7 default_job = SubmitNow default_job"
    by (simp add: decide_submit_def default_job_def)
  have b: "decide_submit 7 sample_prepared = StillSubmitting sample_bumped"
    by (simp add: decide_submit_def sample_bumped_def sample_prepared_def sample_claim_def claimed_def default_job_def
        saturating_increment_submit_count_def i32_saturating_add_def)
  have "sample_bumped\<lparr>j_id := 1\<rparr> = sample_bumped" by (simp add: sample_bumped_def sample_prepared_def)
  then have m: "maybe_saved sample_bumped r (Some sample_bumped)" for r by (metis maybe_saved_def)
  have "submit_step 7 (submit_start 2) (?s None (Some 0) HasLock WantsLock 0)"
    using submit_step.lock [of 0 "submit_start 2" 7] by (simp add: defs submit_start_def numeral_2_eq_2)
  moreover have "submit_step 7 (?s None (Some 0) HasLock WantsLock 0) (?s None (Some 0) (Found default_job) WantsLock 0)"
    using submit_step.lookup [of 0 "?s None (Some 0) HasLock WantsLock 0" 7] by (simp add: defs found_job_def)
  moreover have "submit_step 7 (?s None (Some 0) (Found default_job) WantsLock 0)
      (?s (Some sample_claim) None (Claimed sample_claim) WantsLock 0)"
    using submit_step.claim [of 0 "?s None (Some 0) (Found default_job) WantsLock 0" default_job 7 default_job sample_claim 1 "''h''"] d
    by (simp add: defs sample_claim_def)
  moreover have "submit_step 7 (?s (Some sample_claim) None (Claimed sample_claim) WantsLock 0)
      (?s (Some sample_prepared) None (Prepared sample_prepared) WantsLock 0)"
    using submit_step.prepare [of 0 "?s (Some sample_claim) None (Claimed sample_claim) WantsLock 0" sample_claim sample_prepared 1 "''/w''" 7]
    by (simp add: defs sample_prepared_def)
  moreover have "submit_step 7 (?s (Some sample_prepared) None (Prepared sample_prepared) WantsLock 0)
      (?s (Some sample_prepared) None (Returned sample_prepared 5) WantsLock 1)"
    using submit_step.run [of 0 "?s (Some sample_prepared) None (Prepared sample_prepared) WantsLock 0" sample_prepared 7 5]
    by (simp add: defs)
  moreover have "submit_step 7 (?s (Some sample_prepared) None (Returned sample_prepared 5) WantsLock 1)
      (?s (Some sample_prepared) (Some 1) (Returned sample_prepared 5) HasLock 1)"
    using submit_step.lock [of 1 "?s (Some sample_prepared) None (Returned sample_prepared 5) WantsLock 1" 7] by (simp add: defs)
  moreover have "submit_step 7 (?s (Some sample_prepared) (Some 1) (Returned sample_prepared 5) HasLock 1)
      (?s (Some sample_prepared) (Some 1) (Returned sample_prepared 5) (Found sample_prepared) 1)"
    using submit_step.lookup [of 1 "?s (Some sample_prepared) (Some 1) (Returned sample_prepared 5) HasLock 1" 7]
    by (simp add: defs found_job_def)
  moreover have "submit_step 7 (?s (Some sample_prepared) (Some 1) (Returned sample_prepared 5) (Found sample_prepared) 1)
      (?s (Some (accepted_job sample_prepared 5\<lparr>j_id := 1\<rparr>)) (Some 1) Ended (Found sample_prepared) 1)"
    using submit_step.finish [of 0 "?s (Some sample_prepared) (Some 1) (Returned sample_prepared 5) (Found sample_prepared) 1"
        sample_prepared 5 "Some (accepted_job sample_prepared 5\<lparr>j_id := 1\<rparr>)" 7]
    by (auto simp: defs maybe_saved_def)
  moreover have "submit_step 7 (?s (Some (accepted_job sample_prepared 5\<lparr>j_id := 1\<rparr>)) (Some 1) Ended (Found sample_prepared) 1)
      (?s (Some sample_bumped) None Ended Ended 1)"
    using submit_step.bump [of 1 "?s (Some (accepted_job sample_prepared 5\<lparr>j_id := 1\<rparr>)) (Some 1) Ended (Found sample_prepared) 1"
        sample_prepared 7 sample_bumped "Some sample_bumped"] b m
    by (simp add: defs)
  ultimately show ?thesis by (meson converse_rtranclp_into_rtranclp rtranclp.rtrancl_refl)
qed

theorem one_submission_is_accepted_witness:
  "length (filter submits [Ended, Ended]) \<le> 1 \<and> (j_submitting sample_bumped \<or> j_job_id sample_bumped = Some 7)"
  using one_submission_is_accepted [OF overlapping_submissions] by simp


end
