(* ===== verification/Row_Writers.thy ===== *)
theory Row_Writers
  imports Jobs
begin

text \<open>
  The tasks that check, cancel and delete one job at the same time. \<open>Jobs\<close> runs each handler of \<^verbatim>\<open>src/src/src/jobs/mod.rs\<close> as
  one task among arbitrary others; here all tasks of one job that has been submitted run together over its row in the
  database. Each keeps a copy of the row, and every save writes a whole copy back; no mutex is held. A
  request to the database is one step; one that fails may or may not have changed the row. The row has an identifier, under
  which the server updates it.
\<close>

subsection \<open>Tasks\<close>

text \<open>
  Where a task is, with its copy of the job: the status check of the main loop and that of a submit message for
  a submitted job, the cancellation with its two checks and two reloads, and the deletion.
\<close>

datatype writer_pc =
  ListsRunning
| Resubmits
| Checks job
| WantsCancel
| CancelChecks job
| CancelReloads
| AsksCancel job
| CancelReloadsAgain
| CancelRechecks job
| CancelCloses job
| WantsDelete
| DeleteFound job
| AsksDelete job
| DeleteReturned job bool
| WriterDone

text \<open>
  \<open>cancel_calls\<close> and \<open>delete_calls\<close> are the jobs for which the bundle was asked, the last first, \<open>removed\<close> counts the calls
  of its delete function that succeeded, and \<open>gone_sent\<close> says that the server was told that the job has been deleted.
\<close>

record row_sys =
  job_row :: job
  writers :: "writer_pc list"
  cancel_calls :: "job list"
  delete_calls :: "job list"
  removed :: nat
  gone_sent :: bool

definition refuses_cancel :: "job \<Rightarrow> bool" where
  "refuses_cancel j \<longleftrightarrow> j_id j = 0 \<or> \<not> j_running j \<or> j_submitting j"

text \<open>What is to be done with the job that a delete message names, as it was found.\<close>

datatype delete_decision = AlreadyGone | DeleteRefused | DeleteNow job

definition decide_delete :: "job \<Rightarrow> delete_decision" where
  "decide_delete j =
     (if j_id j = 0 \<or> j_running j \<or> j_submitting j \<or> j_deleted j
      then (if j_id j = 0 \<or> j_deleted j then AlreadyGone else DeleteRefused)
      else if j_deleting j then DeleteRefused
      else DeleteNow (j\<lparr>j_deleting := True\<rparr>))"

text \<open>The row after a save of \<open>j\<close> that is not acknowledged, or that is not made at all.\<close>

definition may_write :: "job \<Rightarrow> job \<Rightarrow> job \<Rightarrow> bool" where
  "may_write j r r' \<longleftrightarrow> r' = r \<or> r' = j"

definition stopped :: "job \<Rightarrow> job" where
  "stopped j = j\<lparr>j_running := False\<rparr>"

definition step_writer :: "nat \<Rightarrow> writer_pc \<Rightarrow> row_sys \<Rightarrow> row_sys" where
  "step_writer i pc s = s\<lparr>writers := (writers s)[i := pc]\<rparr>"

definition writer_at :: "row_sys \<Rightarrow> nat \<Rightarrow> writer_pc \<Rightarrow> bool" where
  "writer_at s i pc \<longleftrightarrow> i < length (writers s) \<and> writers s ! i = pc"

text \<open>Points at which a request to read the row can fail, or a task is left out because the client is disconnected.\<close>

fun reads_row :: "writer_pc \<Rightarrow> bool" where
  "reads_row pc \<longleftrightarrow> pc \<in> {ListsRunning, Resubmits, WantsCancel, CancelReloads, CancelReloadsAgain, WantsDelete}"

inductive row_step :: "i64 \<Rightarrow> row_sys \<Rightarrow> row_sys \<Rightarrow> bool" for job_id where
  read_fails: "writer_at s i pc \<Longrightarrow> reads_row pc \<Longrightarrow> row_step job_id s (step_writer i WriterDone s)"
| not_listed: "writer_at s i ListsRunning \<Longrightarrow> \<not> j_running (job_row s) \<Longrightarrow>
    row_step job_id s (step_writer i WriterDone s)"
| listed: "writer_at s i ListsRunning \<Longrightarrow> j_running (job_row s) \<Longrightarrow>
    row_step job_id s (step_writer i (Checks (job_row s)) s)"
| resubmitted: "writer_at s i Resubmits \<Longrightarrow> decide_submit job_id (job_row s) = AlreadySubmitted j \<Longrightarrow>
    row_step job_id s (step_writer i (Checks j) s)"
| check_open: "writer_at s i (Checks j) \<Longrightarrow> row_step job_id s (step_writer i WriterDone s)"
| check_closes: "writer_at s i (Checks j) \<Longrightarrow> may_write (stopped j) (job_row s) r \<Longrightarrow>
    row_step job_id s (step_writer i WriterDone s\<lparr>job_row := r\<rparr>)"
| cancel_refused: "writer_at s i WantsCancel \<Longrightarrow> refuses_cancel (job_row s) \<Longrightarrow>
    row_step job_id s (step_writer i WriterDone s)"
| cancel_found: "writer_at s i WantsCancel \<Longrightarrow> \<not> refuses_cancel (job_row s) \<Longrightarrow>
    row_step job_id s (step_writer i (CancelChecks (job_row s)) s)"
| cancel_known: "writer_at s i (CancelChecks j) \<Longrightarrow> row_step job_id s (step_writer i WriterDone s)"
| cancel_checked: "writer_at s i (CancelChecks j) \<Longrightarrow> may_write (stopped j) (job_row s) r \<Longrightarrow>
    row_step job_id s (step_writer i CancelReloads s\<lparr>job_row := r\<rparr>)"
| cancel_stopped: "writer_at s i CancelReloads \<Longrightarrow> \<not> j_running (job_row s) \<Longrightarrow>
    row_step job_id s (step_writer i WriterDone s)"
| cancel_runs: "writer_at s i CancelReloads \<Longrightarrow> j_running (job_row s) \<Longrightarrow>
    row_step job_id s (step_writer i (AsksCancel (job_row s)) s)"
| cancel_called: "writer_at s i (AsksCancel j) \<Longrightarrow>
    row_step job_id s (step_writer i (if ok then CancelReloadsAgain else WriterDone) s\<lparr>cancel_calls := j # cancel_calls s\<rparr>)"
| cancel_reloaded: "writer_at s i CancelReloadsAgain \<Longrightarrow>
    row_step job_id s (step_writer i (CancelRechecks (job_row s)) s)"
| cancel_rechecked: "writer_at s i (CancelRechecks j) \<Longrightarrow> may_write (stopped j) (job_row s) r \<Longrightarrow>
    row_step job_id s (step_writer i (CancelCloses j) s\<lparr>job_row := r\<rparr>)"
| cancel_reported: "writer_at s i (CancelCloses j) \<Longrightarrow> row_step job_id s (step_writer i WriterDone s)"
| cancel_closes: "writer_at s i (CancelCloses j) \<Longrightarrow> may_write (stopped j) (job_row s) r \<Longrightarrow>
    row_step job_id s (step_writer i WriterDone s\<lparr>job_row := r\<rparr>)"
| delete_gone: "writer_at s i WantsDelete \<Longrightarrow> decide_delete (job_row s) = AlreadyGone \<Longrightarrow>
    row_step job_id s (step_writer i WriterDone s\<lparr>gone_sent := True\<rparr>)"
| delete_refused: "writer_at s i WantsDelete \<Longrightarrow> decide_delete (job_row s) = DeleteRefused \<Longrightarrow>
    row_step job_id s (step_writer i WriterDone s)"
| delete_found: "writer_at s i WantsDelete \<Longrightarrow> decide_delete (job_row s) = DeleteNow j \<Longrightarrow>
    row_step job_id s (step_writer i (DeleteFound j) s)"
| delete_unmarked: "writer_at s i (DeleteFound j) \<Longrightarrow> may_write j (job_row s) r \<Longrightarrow>
    row_step job_id s (step_writer i WriterDone s\<lparr>job_row := r\<rparr>)"
| delete_marked: "writer_at s i (DeleteFound j) \<Longrightarrow>
    row_step job_id s (step_writer i (AsksDelete j) s\<lparr>job_row := j\<rparr>)"
| delete_called: "writer_at s i (AsksDelete j) \<Longrightarrow>
    row_step job_id s (step_writer i (DeleteReturned j ok) s
      \<lparr>delete_calls := j # delete_calls s, removed := (if ok then Suc (removed s) else removed s)\<rparr>)"
| delete_failed: "writer_at s i (DeleteReturned j False) \<Longrightarrow> may_write (j\<lparr>j_deleting := False\<rparr>) (job_row s) r \<Longrightarrow>
    row_step job_id s (step_writer i WriterDone s\<lparr>job_row := r\<rparr>)"
| delete_done: "writer_at s i (DeleteReturned j True) \<Longrightarrow>
    may_write (j\<lparr>j_deleting := False, j_deleted := True\<rparr>) (job_row s) r \<Longrightarrow>
    row_step job_id s (step_writer i WriterDone s\<lparr>job_row := r, gone_sent := True\<rparr>)"

text \<open>Tasks about to start, over a row.\<close>

definition writers_start :: "job \<Rightarrow> writer_pc list \<Rightarrow> row_sys" where
  "writers_start r ws =
     \<lparr>job_row = r, writers = ws, cancel_calls = [], delete_calls = [], removed = 0, gone_sent = False\<rparr>"

definition starting :: "writer_pc \<Rightarrow> bool" where
  "starting pc \<longleftrightarrow> pc \<in> {ListsRunning, Resubmits, WantsCancel, WantsDelete}"

subsection \<open>The decision is that of the handler\<close>

lemma delete_task_decides:
  assumes "get_or_create_by_job_id env job_id tr = (Inr j, tr1)"
  shows "delete_task env job_id tr =
    (case decide_delete j of
       AlreadyGone \<Rightarrow> tr1 @ [update_event job_id JOB_COMPLETION_SOURCE DELETED ''Job has been deleted'']
     | DeleteRefused \<Rightarrow> tr1
     | DeleteNow j1 \<Rightarrow>
         (case save_job_or_abort env j1 tr1 of
            (None, tr2) \<Rightarrow> tr2
          | (Some j2, tr2) \<Rightarrow>
              (case run_bundle_bool_for_job env ''delete'' (j_bundle_hash j2) (get_job_details env j2) tr2 of
                 (ok, tr3) \<Rightarrow>
                   if \<not> ok then tr3 @ [save_event (j2\<lparr>j_deleting := False\<rparr>)]
                   else tr3 @ [save_event (j2\<lparr>j_deleting := False, j_deleted := True\<rparr>),
                               update_event job_id JOB_COMPLETION_SOURCE DELETED ''Job has been deleted''])))"
  using assms
  by (simp add: delete_task_def get_or_create_job_or_abort_def decide_delete_def split: prod.split option.split)

subsection \<open>The invariant\<close>

text \<open>The job without the marks that these tasks set.\<close>

definition unmarked :: "job \<Rightarrow> job" where
  "unmarked j = j\<lparr>j_running := False, j_deleting := False, j_deleted := False\<rparr>"

fun writer_copy :: "writer_pc \<Rightarrow> job option" where
  "writer_copy (Checks j) = Some j"
| "writer_copy (CancelChecks j) = Some j"
| "writer_copy (AsksCancel j) = Some j"
| "writer_copy (CancelRechecks j) = Some j"
| "writer_copy (CancelCloses j) = Some j"
| "writer_copy (DeleteFound j) = Some j"
| "writer_copy (AsksDelete j) = Some j"
| "writer_copy (DeleteReturned j ok) = Some j"
| "writer_copy _ = None"

fun deletes :: "writer_pc \<Rightarrow> bool" where
  "deletes (DeleteFound j) \<longleftrightarrow> True"
| "deletes (AsksDelete j) \<longleftrightarrow> True"
| "deletes (DeleteReturned j ok) \<longleftrightarrow> True"
| "deletes _ \<longleftrightarrow> False"

text \<open>A copy of the job is marked as deleted only if the bundle has deleted it.\<close>

definition copy_inv :: "job \<Rightarrow> nat \<Rightarrow> job \<Rightarrow> bool" where
  "copy_inv r n j \<longleftrightarrow> unmarked j = unmarked r \<and> (j_deleted j \<longrightarrow> 0 < n)"

text \<open>
  A task that deletes, with a job that does not run, exists only beside a row that does not run; a call of the bundle's
  cancel function is made with a running job, and a successful call of its delete function precedes the report of it.
\<close>

fun writer_inv :: "job \<Rightarrow> job \<Rightarrow> nat \<Rightarrow> writer_pc \<Rightarrow> bool" where
  "writer_inv r now n pc \<longleftrightarrow>
     (\<forall>j. writer_copy pc = Some j \<longrightarrow> copy_inv r n j \<and> (deletes pc \<longrightarrow> \<not> j_running j \<and> \<not> j_running now))
     \<and> (\<forall>j. pc = AsksCancel j \<longrightarrow> j_running j) \<and> (\<forall>j. pc = DeleteReturned j True \<longrightarrow> 0 < n)"

definition writers_inv :: "job \<Rightarrow> row_sys \<Rightarrow> bool" where
  "writers_inv r s \<longleftrightarrow> copy_inv r (removed s) (job_row s) \<and> (gone_sent s \<longrightarrow> 0 < removed s)
     \<and> (j_running (job_row s) \<longrightarrow> job_row s = r \<and> delete_calls s = [])
     \<and> list_all j_running (cancel_calls s) \<and> list_all (\<lambda>j. \<not> j_running j) (delete_calls s)
     \<and> list_all (writer_inv r (job_row s) (removed s)) (writers s)"

lemma step_writer_simps [simp]:
  "job_row (step_writer i pc s) = job_row s" "writers (step_writer i pc s) = (writers s)[i := pc]"
  "cancel_calls (step_writer i pc s) = cancel_calls s" "delete_calls (step_writer i pc s) = delete_calls s"
  "removed (step_writer i pc s) = removed s" "gone_sent (step_writer i pc s) = gone_sent s"
  by (simp_all add: step_writer_def)

text \<open>Copies keep their facts as the bundle deletes more and the row stops running.\<close>

lemma copy_inv_mono: "copy_inv r n j \<Longrightarrow> n \<le> n' \<Longrightarrow> copy_inv r n' j"
  by (auto simp: copy_inv_def)

lemma writer_inv_mono:
  assumes "writer_inv r now n pc" "n \<le> n'" "j_running now' \<Longrightarrow> j_running now"
  shows "writer_inv r now' n' pc"
  using assms(1,3) copy_inv_mono [OF _ assms(2), of r] assms(2) by (simp, blast intro: less_le_trans)

text \<open>One task moves on: its new point and the new row satisfy the invariant, and the rest is kept.\<close>

lemma writers_inv_update:
  assumes inv: "writers_inv r s" and w: "writers s' = (writers s)[i := pc]" and n: "removed s \<le> removed s'"
    and row: "job_row s' = job_row s \<or> copy_inv r (removed s') (job_row s') \<and> \<not> j_running (job_row s')"
    and pc: "writer_inv r (job_row s') (removed s') pc"
    and calls: "list_all j_running (cancel_calls s')" "list_all (\<lambda>j. \<not> j_running j) (delete_calls s')"
      "j_running (job_row s') \<Longrightarrow> delete_calls s' = delete_calls s"
    and sent: "gone_sent s' \<Longrightarrow> gone_sent s \<or> 0 < removed s'"
  shows "writers_inv r s'"
proof -
  have "writer_inv r (job_row s') (removed s') q" if "q \<in> set (writers s)" for q
    using inv that row
    by (intro writer_inv_mono [OF _ n, of r "job_row s"]) (auto simp: writers_inv_def list_all_iff simp del: writer_inv.simps)
  then have "list_all (writer_inv r (job_row s') (removed s')) (writers s')"
    using pc w set_update_subset_insert [of "writers s" i pc] by (auto simp: list_all_iff simp del: writer_inv.simps)
  then show ?thesis
    using inv row calls sent n copy_inv_mono [of r "removed s" "job_row s" "removed s'"]
    by (auto simp: writers_inv_def simp del: writer_inv.simps)
qed

lemma writers_inv_move:
  assumes "writers_inv r s" "writer_inv r (job_row s) (removed s) pc"
  shows "writers_inv r (step_writer i pc s)"
  using assms by (intro writers_inv_update [OF assms(1)]) (simp_all add: writers_inv_def del: writer_inv.simps)

lemma decide_delete_now:
  assumes "decide_delete j = DeleteNow j'"
  shows "j' = j\<lparr>j_deleting := True\<rparr> \<and> \<not> j_running j \<and> \<not> j_deleted j"
  using assms by (simp add: decide_delete_def split: if_splits)

lemma decide_delete_gone: "decide_delete j = AlreadyGone \<Longrightarrow> j_id j \<noteq> 0 \<Longrightarrow> j_deleted j"
  by (simp add: decide_delete_def split: if_splits)

lemma decide_submit_again: "decide_submit job_id j = AlreadySubmitted j' \<Longrightarrow> \<not> j_submitting j \<Longrightarrow> j' = j"
  by (simp add: decide_submit_def Let_def split: if_splits)

lemma unmarked_keeps:
  assumes "unmarked j = unmarked r"
  shows "j_id j = j_id r" "j_submitting j = j_submitting r"
  using arg_cong [OF assms, of j_id] arg_cong [OF assms, of j_submitting] by (simp_all add: unmarked_def)

lemma copy_inv_saves:
  "copy_inv r n (stopped j) \<longleftrightarrow> copy_inv r n j" "copy_inv r n (j\<lparr>j_deleting := b\<rparr>) \<longleftrightarrow> copy_inv r n j"
  "0 < n \<Longrightarrow> copy_inv r n (j\<lparr>j_deleting := False, j_deleted := True\<rparr>) \<longleftrightarrow> copy_inv r n j"
  by (simp_all add: copy_inv_def unmarked_def stopped_def)

lemma stopped_stops [simp]: "\<not> j_running (stopped j)"
  by (simp add: stopped_def)

lemma writer_at_inv:
  "writers_inv r s \<Longrightarrow> writer_at s i pc \<Longrightarrow> writer_inv r (job_row s) (removed s) pc"
  by (auto simp: writers_inv_def writer_at_def list_all_iff simp del: writer_inv.simps)

text \<open>A task that saves its copy as that of a stopped job, or fails to, and goes on.\<close>

lemma writers_inv_save:
  assumes inv: "writers_inv r s" and j: "writer_at s i pc0" "writer_copy pc0 = Some j"
    and q: "may_write j' (job_row s) q" "copy_inv r (removed s) j \<Longrightarrow> copy_inv r (removed s) j'" "\<not> j_running j'"
    and pc: "pc \<in> {WriterDone, CancelReloads, CancelCloses j}"
  shows "writers_inv r (step_writer i pc s\<lparr>job_row := q\<rparr>)"
proof -
  have "copy_inv r (removed s) j" using writer_at_inv [OF inv j(1)] j(2) by simp
  then have "copy_inv r (removed s) j'" "writer_inv r q (removed s) pc" using q(2) pc by auto
  then show ?thesis
    using inv q(1,3) by (intro writers_inv_update [OF inv]) (auto simp: may_write_def writers_inv_def simp del: writer_inv.simps)
qed

text \<open>The steps of a deletion, with the calls of the bundle.\<close>

lemma writers_inv_delete:
  assumes inv: "writers_inv r s" and at: "writer_at s i pc"
  shows "pc = AsksCancel j \<Longrightarrow> pc' \<in> {CancelReloadsAgain, WriterDone} \<Longrightarrow>
      writers_inv r (step_writer i pc' s\<lparr>cancel_calls := j # cancel_calls s\<rparr>)"
    and "pc = DeleteFound j \<Longrightarrow> writers_inv r (step_writer i (AsksDelete j) s\<lparr>job_row := j\<rparr>)"
    and "pc = AsksDelete j \<Longrightarrow> writers_inv r (step_writer i (DeleteReturned j ok) s
      \<lparr>delete_calls := j # delete_calls s, removed := (if ok then Suc (removed s) else removed s)\<rparr>)"
    and "pc = DeleteReturned j True \<Longrightarrow> may_write (j\<lparr>j_deleting := False, j_deleted := True\<rparr>) (job_row s) q \<Longrightarrow>
      writers_inv r (step_writer i WriterDone s\<lparr>job_row := q, gone_sent := True\<rparr>)"
proof -
  have calls: "list_all j_running (cancel_calls s)" "list_all (\<lambda>j. \<not> j_running j) (delete_calls s)"
    using inv by (simp_all add: writers_inv_def)
  have p: "writer_inv r (job_row s) (removed s) pc" using writer_at_inv [OF inv at] .
  note upd = writers_inv_update [OF inv]
  show "writers_inv r (step_writer i pc' s\<lparr>cancel_calls := j # cancel_calls s\<rparr>)"
    if "pc = AsksCancel j" "pc' \<in> {CancelReloadsAgain, WriterDone}"
    using that p calls by (intro upd) auto
  show "writers_inv r (step_writer i (AsksDelete j) s\<lparr>job_row := j\<rparr>)" if "pc = DeleteFound j"
    using that p calls by (intro upd) auto
  show "writers_inv r (step_writer i (DeleteReturned j ok) s
      \<lparr>delete_calls := j # delete_calls s, removed := (if ok then Suc (removed s) else removed s)\<rparr>)" if "pc = AsksDelete j"
    using that p calls copy_inv_mono [of r "removed s" j "Suc (removed s)"] by (intro upd) auto
  show "writers_inv r (step_writer i WriterDone s\<lparr>job_row := q, gone_sent := True\<rparr>)"
    if "pc = DeleteReturned j True" "may_write (j\<lparr>j_deleting := False, j_deleted := True\<rparr>) (job_row s) q"
    using that p calls by (intro upd) (auto simp: may_write_def copy_inv_saves)
qed

lemma writers_inv_step:
  assumes step: "row_step job_id s s'" and inv: "writers_inv r s" and r: "j_id r \<noteq> 0" "\<not> j_submitting r"
  shows "writers_inv r s'"
proof -
  have row: "copy_inv r (removed s) (job_row s)" using inv by (simp add: writers_inv_def)
  then have keeps: "j_id (job_row s) \<noteq> 0" "\<not> j_submitting (job_row s)"
    using unmarked_keeps [of "job_row s" r] r by (simp_all add: copy_inv_def)
  note move = writers_inv_move [OF inv] and save = writers_inv_save [OF inv] and delete = writers_inv_delete [OF inv]
  show ?thesis
    using step
  proof cases
    case (resubmitted i j)
    then show ?thesis using move [of "Checks j"] decide_submit_again [of job_id "job_row s" j] row keeps by simp
  next
    case (delete_gone i)
    then have "0 < removed s" using decide_delete_gone keeps row by (simp add: copy_inv_def)
    then show ?thesis using delete_gone inv by (intro writers_inv_update [OF inv]) (auto simp: writers_inv_def)
  next
    case (delete_found i j)
    then show ?thesis using move [of "DeleteFound j"] decide_delete_now [of "job_row s" j] row by (simp add: copy_inv_saves)
  next
    case (delete_unmarked i j q)
    then show ?thesis using save writer_at_inv [OF inv, of i "DeleteFound j"] by simp
  next
    case (delete_failed i j q)
    then show ?thesis using save writer_at_inv [OF inv, of i "DeleteReturned j False"] by (simp add: copy_inv_saves)
  next
    case (cancel_called i j ok)
    then show ?thesis using delete(1) by simp
  qed (use move save delete(2-) row in \<open>auto simp: copy_inv_saves\<close>)
qed

subsection \<open>Properties\<close>

lemma writers_inv_start:
  assumes "list_all starting ws" "\<not> j_deleted r"
  shows "writers_inv r (writers_start r ws)"
  using assms by (auto simp: writers_inv_def writers_start_def copy_inv_def list_all_iff starting_def)

interpretation row_writers: invariant_system "writers_start r ws" "row_step job_id"
    "\<lambda>s. list_all starting ws \<and> j_id r \<noteq> 0 \<and> \<not> j_submitting r \<and> \<not> j_deleted r \<longrightarrow> writers_inv r s"
  by unfold_locales (auto intro: writers_inv_start writers_inv_step)

text \<open>Once the row says that the job does not run, no check, cancellation or deletion makes it run again.\<close>

lemma stopped_for_good:
  assumes "(row_step job_id)\<^sup>*\<^sup>* (writers_start r ws) s" "(row_step job_id)\<^sup>*\<^sup>* s s'"
    and "list_all starting ws" "j_id r \<noteq> 0" "\<not> j_submitting r" "\<not> j_deleted r" and "\<not> j_running (job_row s)"
  shows "\<not> j_running (job_row s')"
proof (rule row_writers.stable_ever_after [where Q = "\<lambda>u. \<not> j_running (job_row u)" and ws = ws and r = r, OF assms(2)])
  fix u u'
  assume u: "row_step job_id u u'" "\<not> j_running (job_row u)"
    and "list_all starting ws \<and> j_id r \<noteq> 0 \<and> \<not> j_submitting r \<and> \<not> j_deleted r \<longrightarrow> writers_inv r u"
  then have inv: "writers_inv r u" using assms(3-6) by blast
  show "\<not> j_running (job_row u')"
    using u(1)
  proof cases
    case (delete_marked i j)
    then show ?thesis using writer_at_inv [OF inv, of i "DeleteFound j"] by simp
  next
    case (delete_unmarked i j q)
    then show ?thesis using writer_at_inv [OF inv, of i "DeleteFound j"] u(2) by (auto simp: may_write_def)
  next
    case (delete_failed i j q)
    then show ?thesis using writer_at_inv [OF inv, of i "DeleteReturned j False"] u(2) by (auto simp: may_write_def)
  next
    case (delete_done i j q)
    then show ?thesis using writer_at_inv [OF inv, of i "DeleteReturned j True"] u(2) by (auto simp: may_write_def)
  qed (use u(2) in \<open>auto simp: may_write_def\<close>)
qed (use assms row_writers.inv_always [OF assms(1)] in auto)

text \<open>
  C15. However many status checks, cancellations and deletions of one submitted job run at the same time, and
  however their database requests fail: of the row only the marks running, deleting and deleted are ever changed. The
  row is marked as deleted, or the server told so, only after the bundle's delete function has succeeded. The bundle
  is asked to cancel only with a job that was read as running and to delete only with one that was not, and as
  long as the row says that the job runs, the row is as it was at first and the bundle has not been asked to delete it.
\<close>

theorem row_writers_are_truthful:
  assumes "(row_step job_id)\<^sup>*\<^sup>* (writers_start r ws) s" "list_all starting ws"
    and "j_id r \<noteq> 0" "\<not> j_submitting r" "\<not> j_deleted r"
  shows "unmarked (job_row s) = unmarked r \<and> (j_deleted (job_row s) \<or> gone_sent s \<longrightarrow> 0 < removed s)
    \<and> list_all j_running (cancel_calls s) \<and> list_all (\<lambda>j. \<not> j_running j) (delete_calls s)
    \<and> (j_running (job_row s) \<longrightarrow> job_row s = r \<and> delete_calls s = [])"
  using row_writers.inv_always [OF assms(1)] assms(2-5) by (auto simp: writers_inv_def copy_inv_def)

text \<open>A job that has finished, and what a submit message and a delete message for it can leave behind.\<close>

definition finished_job :: "i64 \<Rightarrow> job \<Rightarrow> bool" where
  "finished_job job_id r \<longleftrightarrow> j_id r \<noteq> 0 \<and> job_id \<noteq> 0 \<and> j_job_id r = Some job_id
     \<and> \<not> j_running r \<and> \<not> j_submitting r \<and> \<not> j_deleting r \<and> \<not> j_deleted r"

lemma stale_check_after_delete:
  assumes "finished_job job_id r"
  defines "m \<equiv> r\<lparr>j_deleting := True\<rparr>"
  shows "(row_step job_id)\<^sup>*\<^sup>* (writers_start r [Resubmits, WantsDelete])
    \<lparr>job_row = m, writers = [WriterDone, WriterDone], cancel_calls = [], delete_calls = [m], removed = 1, gone_sent = True\<rparr>"
proof -
  let ?s = "\<lambda>q a b ds n g. \<lparr>job_row = q, writers = [a, b], cancel_calls = [], delete_calls = ds, removed = n, gone_sent = g\<rparr>"
  let ?gone = "m\<lparr>j_deleting := False, j_deleted := True\<rparr>"
  note defs = step_writer_def writer_at_def may_write_def
  have d: "decide_delete r = DeleteNow m" "decide_submit job_id m = AlreadySubmitted m" "stopped m = m"
    using assms by (simp_all add: finished_job_def decide_delete_def decide_submit_def stopped_def m_def)
  have "row_step job_id (?s r Resubmits WantsDelete [] 0 False) (?s r Resubmits (DeleteFound m) [] 0 False)"
    using row_step.delete_found [of "?s r Resubmits WantsDelete [] 0 False" 1 m] d by (simp add: defs)
  moreover have "row_step job_id (?s r Resubmits (DeleteFound m) [] 0 False) (?s m Resubmits (AsksDelete m) [] 0 False)"
    using row_step.delete_marked [of "?s r Resubmits (DeleteFound m) [] 0 False" 1 m] by (simp add: defs)
  moreover have "row_step job_id (?s m Resubmits (AsksDelete m) [] 0 False) (?s m (Checks m) (AsksDelete m) [] 0 False)"
    using row_step.resubmitted [of "?s m Resubmits (AsksDelete m) [] 0 False" 0 job_id m] d by (simp add: defs)
  moreover have "row_step job_id (?s m (Checks m) (AsksDelete m) [] 0 False) (?s m (Checks m) (DeleteReturned m True) [m] 1 False)"
    using row_step.delete_called [of "?s m (Checks m) (AsksDelete m) [] 0 False" 1 m job_id True] by (simp add: defs)
  moreover have "row_step job_id (?s m (Checks m) (DeleteReturned m True) [m] 1 False) (?s ?gone (Checks m) WriterDone [m] 1 True)"
    using row_step.delete_done [of "?s m (Checks m) (DeleteReturned m True) [m] 1 False" 1 m ?gone] by (simp add: defs)
  moreover have "row_step job_id (?s ?gone (Checks m) WriterDone [m] 1 True) (?s m WriterDone WriterDone [m] 1 True)"
    using row_step.check_closes [of "?s ?gone (Checks m) WriterDone [m] 1 True" 0 m m] d by (simp add: defs)
  ultimately show ?thesis
    unfolding writers_start_def by (meson converse_rtranclp_into_rtranclp rtranclp.rtrancl_refl)
qed

definition sample_finished :: job where
  "sample_finished = default_job\<lparr>j_id := 1, j_job_id := Some 7\<rparr>"

lemma sample_is_finished: "finished_job 7 sample_finished"
  by (simp add: finished_job_def sample_finished_def default_job_def)

theorem row_writers_are_truthful_witness:
  "let m = sample_finished\<lparr>j_deleting := True\<rparr> in unmarked m = unmarked sample_finished \<and> list_all (\<lambda>j. \<not> j_running j) [m]"
  using row_writers_are_truthful [OF stale_check_after_delete [OF sample_is_finished]] sample_is_finished
  by (simp add: starting_def finished_job_def Let_def)

text \<open>
  The marks do not keep overlapping tasks apart, for any finished job. A status check that a submit message starts while the
  job is being deleted can save its copy after the deletion: the job is gone, the server has been told, no task is
  left, and the row says that it is still being deleted, so that a later delete message is ignored. And
  two delete messages that both read the row before either has marked it both have the bundle delete the job.
\<close>

theorem deletion_is_forgotten:
  assumes "finished_job job_id r"
  shows "\<exists>s. (row_step job_id)\<^sup>*\<^sup>* (writers_start r [Resubmits, WantsDelete]) s \<and> writers s = [WriterDone, WriterDone]
    \<and> removed s = 1 \<and> gone_sent s \<and> \<not> j_deleted (job_row s) \<and> decide_delete (job_row s) = DeleteRefused"
  using assms by (intro exI conjI, rule stale_check_after_delete) (auto simp: decide_delete_def finished_job_def)

theorem job_is_deleted_twice:
  assumes "finished_job job_id r"
  shows "\<exists>s. (row_step job_id)\<^sup>*\<^sup>* (writers_start r [WantsDelete, WantsDelete]) s \<and> removed s = 2"
proof -
  define m where "m = r\<lparr>j_deleting := True\<rparr>"
  let ?s = "\<lambda>q a b ds n. \<lparr>job_row = q, writers = [a, b], cancel_calls = [], delete_calls = ds, removed = n, gone_sent = False\<rparr>"
  note defs = step_writer_def writer_at_def
  have d: "decide_delete r = DeleteNow m" using assms by (simp add: finished_job_def decide_delete_def m_def)
  have "row_step job_id (?s r WantsDelete WantsDelete [] 0) (?s r (DeleteFound m) WantsDelete [] 0)"
    using row_step.delete_found [of "?s r WantsDelete WantsDelete [] 0" 0 m] d by (simp add: defs)
  moreover have "row_step job_id (?s r (DeleteFound m) WantsDelete [] 0) (?s r (DeleteFound m) (DeleteFound m) [] 0)"
    using row_step.delete_found [of "?s r (DeleteFound m) WantsDelete [] 0" 1 m] d by (simp add: defs)
  moreover have "row_step job_id (?s r (DeleteFound m) (DeleteFound m) [] 0) (?s m (AsksDelete m) (DeleteFound m) [] 0)"
    using row_step.delete_marked [of "?s r (DeleteFound m) (DeleteFound m) [] 0" 0 m] by (simp add: defs)
  moreover have "row_step job_id (?s m (AsksDelete m) (DeleteFound m) [] 0) (?s m (AsksDelete m) (AsksDelete m) [] 0)"
    using row_step.delete_marked [of "?s m (AsksDelete m) (DeleteFound m) [] 0" 1 m] by (simp add: defs)
  moreover have "row_step job_id (?s m (AsksDelete m) (AsksDelete m) [] 0) (?s m (DeleteReturned m True) (AsksDelete m) [m] 1)"
    using row_step.delete_called [of "?s m (AsksDelete m) (AsksDelete m) [] 0" 0 m job_id True] by (simp add: defs)
  moreover have "row_step job_id (?s m (DeleteReturned m True) (AsksDelete m) [m] 1)
      (?s m (DeleteReturned m True) (DeleteReturned m True) [m, m] 2)"
    using row_step.delete_called [of "?s m (DeleteReturned m True) (AsksDelete m) [m] 1" 1 m job_id True]
    by (simp add: defs numeral_2_eq_2)
  ultimately have "(row_step job_id)\<^sup>*\<^sup>* (writers_start r [WantsDelete, WantsDelete])
      (?s m (DeleteReturned m True) (DeleteReturned m True) [m, m] 2)"
    unfolding writers_start_def by (meson converse_rtranclp_into_rtranclp rtranclp.rtrancl_refl)
  then show ?thesis by (intro exI [of _ "?s m (DeleteReturned m True) (DeleteReturned m True) [m, m] 2"]) simp
qed

end
