(* ===== verification/Files.thy ===== *)
theory Files
  imports Database "HOL-Library.Multiset"
begin

text \<open>
  The parts of \<^verbatim>\<open>src/src/src/files/mod.rs\<close> that all file requests share, and the file listing: finding
  the working directory of a job, the check that a path lies inside it, reading directories (one level
  or recursively) and the reply. File system operations are events answered by the outside; the
  theorems about paths and listings assume that these answers come from one state of the file system,
  which is the hypothesis \<open>fs_answers\<close> or \<open>serves_tree\<close>.
\<close>

subsection \<open>The working directory of a job\<close>

datatype job_lookup_error = NotSubmitted | NotFound | DatabaseError string

fun client_message :: "job_lookup_error \<Rightarrow> string" where
  "client_message NotSubmitted = ''Job is not submitted''"
| "client_message NotFound = ''Job does not exist''"
| "client_message (DatabaseError e) = ''Database error: '' @ e"

definition lookup_job_working_directory :: "outside \<Rightarrow> i64 \<Rightarrow> (job_lookup_error + string) io" where
  "lookup_job_working_directory env job_id tr =
     (case get_job_by_job_id env job_id tr of
        (Inr (Some j), tr') \<Rightarrow>
          (if j_submitting j then (Inl NotSubmitted, tr') else (Inr (j_working_directory j), tr'))
      | (Inr None, tr') \<Rightarrow> (Inl NotFound, tr')
      | (Inl e, tr') \<Rightarrow> (Inl (DatabaseError e), tr'))"

definition resolve_working_directory_for_job ::
  "outside \<Rightarrow> i64 \<Rightarrow> string \<Rightarrow> json \<Rightarrow> string \<Rightarrow> (job_lookup_error + string) io" where
  "resolve_working_directory_for_job env job_id hash details job_data tr =
     (if job_id \<noteq> 0 then lookup_job_working_directory env job_id tr
      else case resolve_working_directory env hash details job_data tr of (wd, tr') \<Rightarrow> (Inr wd, tr'))"

subsection \<open>Staying inside a directory\<close>

text \<open>The longest prefix of a path that exists, found by popping components.\<close>

function find_existing :: "outside \<Rightarrow> path \<Rightarrow> path option io" where
  "find_existing env current tr =
     (case ask_exists env current tr of (ex, tr') \<Rightarrow>
        if ex then (Some current, tr')
        else case path_parent current of
               None \<Rightarrow> (None, tr')
             | Some up \<Rightarrow> find_existing env up tr')"
  by pat_completeness auto
termination
  by (relation "measure (\<lambda>(env, p, tr). length p)") (auto dest: path_parent_length)

declare find_existing.simps [simp del]

definition validate_path_is_within :: "outside \<Rightarrow> path \<Rightarrow> path \<Rightarrow> bool io" where
  "validate_path_is_within env target working tr =
     (case ask_canonicalize env working tr of
        (None, tr1) \<Rightarrow> (False, tr1)
      | (Some canonical_working, tr1) \<Rightarrow>
          (case ask_canonicalize env target tr1 of
             (Some canonical_target, tr2) \<Rightarrow> (starts_with canonical_target canonical_working, tr2)
           | (None, tr2) \<Rightarrow>
               (case find_existing env target tr2 of
                  (None, tr3) \<Rightarrow> (False, tr3)
                | (Some current, tr3) \<Rightarrow>
                    (case ask_canonicalize env current tr3 of
                       (None, tr4) \<Rightarrow> (False, tr4)
                     | (Some canonical_prefix, tr4) \<Rightarrow>
                         (starts_with canonical_prefix canonical_working
                          \<and> ParentDir \<notin> set (strip_prefix_or current target), tr4)))))"

subsection \<open>Reading directories\<close>

type_synonym listing = "(string \<times> bool \<times> u64) list"

definition cap_file_count :: "nat \<Rightarrow> u32" where
  "cap_file_count len = usize_to_u32_max len"

definition validate_list_target_is_directory :: "outside \<Rightarrow> path \<Rightarrow> bool io" where
  "validate_list_target_is_directory env p tr =
     (case ask_metadata env p tr of (Inl e, tr') \<Rightarrow> (False, tr') | (Inr md, tr') \<Rightarrow> (m_is_dir md, tr'))"

definition collect_dir_entry :: "path \<Rightarrow> dir_entry \<Rightarrow> (string \<times> bool \<times> u64) option" where
  "collect_dir_entry working entry =
     (case entry of (p, md) \<Rightarrow>
        (case md of
           Inl e \<Rightarrow> None
         | Inr mt \<Rightarrow>
             if m_is_symlink mt then None
             else Some (path_to_string (strip_prefix_or working p), m_is_dir mt, m_len mt)))"

text \<open>Iteration over a directory stream stops at its first error.\<close>

fun readable_entries :: "dir_entry result list \<Rightarrow> dir_entry list" where
  "readable_entries [] = []"
| "readable_entries (Inl e # es) = []"
| "readable_entries (Inr x # es) = x # readable_entries es"

definition read_dir_into :: "outside \<Rightarrow> path \<Rightarrow> dir_entry list io" where
  "read_dir_into env dir tr =
     (case ask_read_dir env dir tr of
        (None, tr') \<Rightarrow> ([], tr')
      | (Some es, tr') \<Rightarrow> (readable_entries es, tr'))"

definition list_handler :: "path \<Rightarrow> dir_entry list \<Rightarrow> listing" where
  "list_handler working es = List.map_filter (collect_dir_entry working) es"

definition recursive_handler :: "path \<Rightarrow> dir_entry list \<Rightarrow> listing \<times> path list" where
  "recursive_handler working es =
     (list_handler working es,
      map fst (filter (\<lambda>e. case collect_dir_entry working e of None \<Rightarrow> False | Some (p, d, n) \<Rightarrow> d) es))"

text \<open>
  The loop of a recursive listing. The vector used as a stack is a list with its top first. \<open>None\<close> would
  mean that the loop does not end.
\<close>

partial_function (option) walk_dirs ::
  "outside \<Rightarrow> path \<Rightarrow> path list \<Rightarrow> listing \<Rightarrow> trace \<Rightarrow> (listing \<times> trace) option" where
  "walk_dirs env working stack acc tr =
     (case stack of
        [] \<Rightarrow> Some (acc, tr)
      | dir # rest \<Rightarrow>
          (case read_dir_into env dir tr of (es, tr') \<Rightarrow>
             (case recursive_handler working es of (found, dirs) \<Rightarrow>
                walk_dirs env working (rev dirs @ rest) (acc @ found) tr')))"

subsection \<open>The listing request\<close>

definition file_list_error_message :: "string \<Rightarrow> string \<Rightarrow> message" where
  "file_list_error_message uuid text =
     push_string (push_string (message_new FILE_LIST_ERROR Highest uuid) uuid) text"

definition send_file_list_error :: "string \<Rightarrow> string \<Rightarrow> trace \<Rightarrow> trace" where
  "send_file_list_error uuid text tr =
     emit_message uuid (get_data (file_list_error_message uuid text)) Highest tr"

fun push_file_entry :: "message \<Rightarrow> string \<times> bool \<times> u64 \<Rightarrow> message" where
  "push_file_entry m (p, d, n) = push_ulong (push_bool (push_string m p) d) n"

definition file_list_message :: "string \<Rightarrow> listing \<Rightarrow> message" where
  "file_list_message uuid files =
     (let count = cap_file_count (length files)
      in foldl push_file_entry (push_uint (push_string (message_new FILE_LIST Highest uuid) uuid) count)
           (take (unat count) files))"

definition list_files :: "outside \<Rightarrow> bool \<Rightarrow> path \<Rightarrow> path \<Rightarrow> trace \<Rightarrow> (listing \<times> trace) option" where
  "list_files env recursive working abs_path tr =
     (if recursive then walk_dirs env working [abs_path] [] tr
      else case read_dir_into env abs_path tr of (es, tr') \<Rightarrow> Some (list_handler working es, tr'))"

text \<open>The stages of \<^verbatim>\<open>handle_file_list\<close>: the checks on the resolved path, and before them its resolution.\<close>

definition list_checked_path ::
  "outside \<Rightarrow> string \<Rightarrow> bool \<Rightarrow> path \<Rightarrow> path \<Rightarrow> trace \<Rightarrow> trace option" where
  "list_checked_path env uuid is_recursive working abs_path tr =
     (case validate_path_is_within env abs_path working tr of (within, tr1) \<Rightarrow>
        if \<not> within
        then Some (send_file_list_error uuid ''Path to list files is outside the working directory'' tr1)
        else
          case validate_list_target_is_directory env abs_path tr1 of (is_dir, tr2) \<Rightarrow>
            if \<not> is_dir then Some (send_file_list_error uuid ''Path to list files is not a directory'' tr2)
            else
              case list_files env is_recursive working abs_path tr2 of
                None \<Rightarrow> None
              | Some (files, tr3) \<Rightarrow>
                  Some (emit_message uuid (get_data (file_list_message uuid files)) Highest tr3))"

definition list_in_directory ::
  "outside \<Rightarrow> string \<Rightarrow> bool \<Rightarrow> string \<Rightarrow> string \<Rightarrow> trace \<Rightarrow> trace option" where
  "list_in_directory env uuid is_recursive dir_path wd tr =
     (case ask_canonicalize env (parse_path wd) tr of
        (None, tr1) \<Rightarrow> Some (send_file_list_error uuid ''Path to list files does not exist'' tr1)
      | (Some wd_path, tr1) \<Rightarrow>
          let working = parse_path (path_to_string wd_path);
              full_path = path_join working (parse_path (trim_start_slashes dir_path))
          in case ask_canonicalize env full_path tr1 of
               (None, tr2) \<Rightarrow> Some (send_file_list_error uuid ''Path to list files does not exist'' tr2)
             | (Some abs_path, tr2) \<Rightarrow> list_checked_path env uuid is_recursive working abs_path tr2)"

definition list_task :: "outside \<Rightarrow> i64 \<Rightarrow> string \<Rightarrow> string \<Rightarrow> string \<Rightarrow> bool \<Rightarrow> trace \<Rightarrow> trace option" where
  "list_task env job_id uuid hash dir_path is_recursive tr =
     (case resolve_working_directory_for_job env job_id hash (JString dir_path) ''file_list'' tr of
        (Inl err, tr1) \<Rightarrow> Some (send_file_list_error uuid (client_message err) tr1)
      | (Inr wd, tr1) \<Rightarrow> list_in_directory env uuid is_recursive dir_path wd tr1)"

definition handle_file_list :: "outside \<Rightarrow> bool \<Rightarrow> message \<Rightarrow> trace \<Rightarrow> trace option" where
  "handle_file_list env permit msg tr =
     (if \<not> permit then Some tr
      else
        case pop_uint msg of (wire_id, m1) \<Rightarrow>
        case pop_string m1 of (uuid, m2) \<Rightarrow>
        case pop_string m2 of (hash, m3) \<Rightarrow>
        case pop_string m3 of (dir_path, m4) \<Rightarrow>
        case pop_bool m4 of (is_recursive, m5) \<Rightarrow>
          list_task env (ucast wire_id) uuid hash dir_path is_recursive tr)"

subsection \<open>Lemmas: paths\<close>

definition fs_answers :: "outside \<Rightarrow> (path \<Rightarrow> path option) \<Rightarrow> (path \<Rightarrow> bool) \<Rightarrow> bool" where
  "fs_answers env canon ex \<longleftrightarrow>
     (\<forall>tr p. o_canonicalize env (tr @ [Canonicalize p]) = canon p)
     \<and> (\<forall>tr p. o_exists env (tr @ [PathExists p]) = ex p)"

text \<open>The longest existing ancestor of a path, the path itself included.\<close>

definition longest_existing :: "(path \<Rightarrow> bool) \<Rightarrow> path \<Rightarrow> path \<Rightarrow> bool" where
  "longest_existing ex p q \<longleftrightarrow>
     prefix q p \<and> ex q \<and> (\<forall>r. prefix r p \<and> length q < length r \<longrightarrow> \<not> ex r)"

lemma find_existing_fst:
  assumes "fs_answers env canon ex"
  shows "fst (find_existing env p tr) =
    (if ex p then Some p
     else case path_parent p of None \<Rightarrow> None | Some up \<Rightarrow> fst (find_existing env up (tr @ [PathExists p])))"
  using assms
  by (simp add: find_existing.simps [of env p tr] ask_defs fs_answers_def split: option.split)

lemma prefix_parent:
  assumes "path_parent p = Some up" "prefix r p" "r \<noteq> p"
  shows "prefix r up"
proof -
  obtain c where "p = up @ [c]"
    using assms(1) by (metis append_butlast_last_id option.distinct(1) option.inject path_parent_def)
  with assms(2,3) show ?thesis by simp
qed

lemma find_existing_Some:
  assumes fs: "fs_answers env canon ex"
  shows "fst (find_existing env p tr) = Some q \<Longrightarrow> longest_existing ex p q"
proof (induction "length p" arbitrary: p tr rule: less_induct)
  case less
  show ?case
  proof (cases "ex p")
    case True
    with less.prems have "q = p" using find_existing_fst [OF fs, of p tr] by simp
    with True show ?thesis by (auto simp: longest_existing_def dest: prefix_length_le)
  next
    case False
    with less.prems obtain up where up: "path_parent p = Some up"
      "fst (find_existing env up (tr @ [PathExists p])) = Some q"
      using find_existing_fst [OF fs, of p tr] by (auto split: option.splits)
    have IH: "longest_existing ex up q" using less.hyps [OF path_parent_length [OF up(1)] up(2)] .
    have "prefix up p" using up(1) by (rule path_parent_prefix)
    moreover have "\<not> ex r" if "prefix r p" "length q < length r" for r
      using that IH False prefix_parent [OF up(1) that(1)] by (cases "r = p") (auto simp: longest_existing_def)
    ultimately show ?thesis using IH by (auto simp: longest_existing_def intro: prefix_order.trans)
  qed
qed

text \<open>
  The place a path denotes is inside a directory: its canonical form is when it exists, and otherwise
  that of its longest existing ancestor followed by the components still to be created.
\<close>

definition inside :: "(path \<Rightarrow> path option) \<Rightarrow> (path \<Rightarrow> bool) \<Rightarrow> path \<Rightarrow> path \<Rightarrow> bool" where
  "inside canon ex working target \<longleftrightarrow> (\<exists>w. canon working = Some w \<and>
     (case canon target of
        Some t \<Rightarrow> prefix w t
      | None \<Rightarrow> (\<exists>cur rest c. target = cur @ rest \<and> longest_existing ex target cur \<and> canon cur = Some c
                   \<and> ParentDir \<notin> set rest \<and> prefix w (c @ rest))))"

lemma validate_inside:
  assumes fs: "fs_answers env canon ex" and ok: "fst (validate_path_is_within env target working tr)"
  shows "inside canon ex working target"
proof -
  have canon: "ask_canonicalize env p tr = (canon p, tr @ [Canonicalize p])" for p tr
    using fs by (simp add: ask_defs fs_answers_def)
  obtain w where w: "canon working = Some w"
    using ok by (auto simp: validate_path_is_within_def canon split: option.splits)
  show ?thesis
  proof (cases "canon target")
    case (Some t)
    then show ?thesis using ok w by (simp add: validate_path_is_within_def canon starts_with_def inside_def)
  next
    case None
    let ?tr = "tr @ [Canonicalize working, Canonicalize target]"
    obtain r tr3 where r: "find_existing env target ?tr = (r, tr3)" by (metis prod.collapse)
    obtain cur c where cur: "r = Some cur" "canon cur = Some c" "prefix w c"
      "ParentDir \<notin> set (strip_prefix_or cur target)"
      using ok w None r by (auto simp: validate_path_is_within_def canon starts_with_def split: option.splits)
    have long: "longest_existing ex target cur"
      using find_existing_Some [OF fs, of target ?tr cur] r cur(1) by simp
    then have "target = cur @ strip_prefix_or cur target"
      by (auto simp: longest_existing_def strip_prefix_or_def prefix_def)
    then show ?thesis using w None long cur by (fastforce simp: inside_def)
  qed
qed

subsection \<open>Lemmas: directory trees\<close>

text \<open>
  A state of the part of the file system below a directory: files, symbolic links, entries whose
  metadata cannot be read, and directories with their size, whether they can be read, and their
  entries in the order the directory stream returns them.
\<close>

datatype fs_tree = TFile u64 | TLink | TBroken | TDir u64 bool "(string \<times> fs_tree) list"

fun tree_metadata :: "fs_tree \<Rightarrow> metadata result" where
  "tree_metadata (TFile n) = Inr \<lparr>m_is_dir = False, m_is_file = True, m_is_symlink = False, m_len = n\<rparr>"
| "tree_metadata TLink = Inr \<lparr>m_is_dir = False, m_is_file = False, m_is_symlink = True, m_len = 0\<rparr>"
| "tree_metadata TBroken = Inl ''metadata''"
| "tree_metadata (TDir n r cs) = Inr \<lparr>m_is_dir = True, m_is_file = False, m_is_symlink = False, m_len = n\<rparr>"

definition tree_entry :: "path \<Rightarrow> string \<times> fs_tree \<Rightarrow> dir_entry" where
  "tree_entry p c = (p @ [Normal (fst c)], tree_metadata (snd c))"

definition serves_dir :: "outside \<Rightarrow> path \<Rightarrow> bool \<Rightarrow> (string \<times> fs_tree) list \<Rightarrow> bool" where
  "serves_dir env p readable cs \<longleftrightarrow>
     (\<forall>tr. o_read_dir env (tr @ [ReadDir p]) =
        (if readable then Some (map (\<lambda>c. Inr (tree_entry p c)) cs) else None))"

fun serves_tree :: "outside \<Rightarrow> path \<Rightarrow> fs_tree \<Rightarrow> bool" where
  "serves_tree env p (TDir n r cs) \<longleftrightarrow>
     serves_dir env p r cs \<and> (\<forall>c\<in>set cs. serves_tree env (p @ [Normal (fst c)]) (snd c))"
| "serves_tree env p _ \<longleftrightarrow> True"

text \<open>What a recursive listing is to contain: every entry below that is not a link and has metadata.\<close>

fun own_entry :: "path \<Rightarrow> path \<Rightarrow> fs_tree \<Rightarrow> listing" where
  "own_entry working p (TFile n) = [(path_to_string (strip_prefix_or working p), False, n)]"
| "own_entry working p (TDir n r cs) = [(path_to_string (strip_prefix_or working p), True, n)]"
| "own_entry working p _ = []"

fun entries_below :: "path \<Rightarrow> path \<Rightarrow> fs_tree \<Rightarrow> (string \<times> bool \<times> u64) multiset" where
  "entries_below working p (TDir n r cs) =
     (if r then sum_list (map (\<lambda>c. mset (own_entry working (p @ [Normal (fst c)]) (snd c))
                                   + entries_below working (p @ [Normal (fst c)]) (snd c)) cs)
      else {#})"
| "entries_below working p _ = {#}"

fun dir_count :: "fs_tree \<Rightarrow> nat" where
  "dir_count (TDir n r cs) = Suc (sum_list (map (dir_count \<circ> snd) cs))"
| "dir_count _ = 0"

definition is_dir_tree :: "fs_tree \<Rightarrow> bool" where
  "is_dir_tree t \<longleftrightarrow> (case t of TDir _ _ _ \<Rightarrow> True | _ \<Rightarrow> False)"

lemma fst_tree_entry: "fst (tree_entry p c) = p @ [Normal (fst c)]"
  by (simp add: tree_entry_def)

lemma collect_tree_entry:
  "collect_dir_entry working (tree_entry p c) =
     (case own_entry working (p @ [Normal (fst c)]) (snd c) of [] \<Rightarrow> None | e # _ \<Rightarrow> Some e)"
  by (cases "snd c") (simp_all add: collect_dir_entry_def tree_entry_def)

lemma readable_map_Inr [simp]: "readable_entries (map (\<lambda>c. Inr (f c)) cs) = map f cs"
  by (induction cs) simp_all

lemma list_handler_tree:
  "list_handler working (map (tree_entry p) cs) =
     concat (map (\<lambda>c. own_entry working (p @ [Normal (fst c)]) (snd c)) cs)"
proof (induction cs)
  case Nil
  then show ?case by (simp add: list_handler_def map_filter_simps)
next
  case (Cons c cs)
  then show ?case
    by (cases "snd c") (simp_all add: list_handler_def map_filter_simps collect_tree_entry)
qed

definition child_dirs :: "path \<Rightarrow> (string \<times> fs_tree) list \<Rightarrow> (path \<times> fs_tree) list" where
  "child_dirs p cs = map (\<lambda>c. (p @ [Normal (fst c)], snd c)) (filter (is_dir_tree \<circ> snd) cs)"

lemma recursive_handler_tree:
  "recursive_handler working (map (tree_entry p) cs) =
     (concat (map (\<lambda>c. own_entry working (p @ [Normal (fst c)]) (snd c)) cs), map fst (child_dirs p cs))"
proof -
  have "(case collect_dir_entry working (tree_entry p c) of None \<Rightarrow> False | Some (q, d, n) \<Rightarrow> d) \<longleftrightarrow> is_dir_tree (snd c)" for c
    by (cases "snd c") (simp_all add: collect_tree_entry is_dir_tree_def)
  then show ?thesis
    by (simp add: recursive_handler_def list_handler_tree child_dirs_def filter_map o_def fst_tree_entry)
qed

lemma entries_child_dirs:
  "sum_list (map (\<lambda>c. entries_below working (p @ [Normal (fst c)]) (snd c)) cs) =
   sum_list (map (\<lambda>(q, t). entries_below working q t) (child_dirs p cs))"
proof (induction cs)
  case Nil
  then show ?case by (simp add: child_dirs_def)
next
  case (Cons c cs)
  then show ?case by (cases "snd c") (simp_all add: child_dirs_def is_dir_tree_def)
qed

lemma count_child_dirs:
  "sum_list (map (dir_count \<circ> snd) cs) = sum_list (map (dir_count \<circ> snd) (child_dirs p cs))"
proof (induction cs)
  case Nil
  then show ?case by (simp add: child_dirs_def)
next
  case (Cons c cs)
  then show ?case by (cases "snd c") (simp_all add: child_dirs_def is_dir_tree_def)
qed


lemma mset_concat_own:
  "mset (concat (map f cs)) + sum_list (map g cs) = sum_list (map (\<lambda>c. mset (f c) + g c) cs)"
  by (induction cs) (simp_all add: ac_simps)

abbreviation only_reads :: "path \<Rightarrow> trace \<Rightarrow> trace \<Rightarrow> bool" where
  "only_reads p \<equiv> emits_only (\<lambda>e. \<exists>q. e = ReadDir q \<and> prefix p q)"

lemma walk_dirs_tree:
  assumes "\<forall>(p, t)\<in>set stack. is_dir_tree t \<and> serves_tree env p t \<and> prefix root p"
  shows "\<exists>l tr'. walk_dirs env working (map fst stack) acc tr = Some (acc @ l, tr')
    \<and> mset l = sum_list (map (\<lambda>(p, t). entries_below working p t) stack) \<and> only_reads root tr tr'"
  using assms
proof (induction "sum_list (map (dir_count \<circ> snd) stack)" arbitrary: stack acc tr rule: less_induct)
  case less
  show ?case
  proof (cases stack)
    case Nil
    then show ?thesis by (simp add: walk_dirs.simps)
  next
    case (Cons top rest)
    obtain p t where top: "top = (p, t)" by (cases top)
    with less.prems Cons obtain n r cs where t: "t = TDir n r cs" by (auto simp: is_dir_tree_def split: fs_tree.splits)
    have root: "prefix root p" and serves: "serves_dir env p r cs"
      and sub: "\<forall>c\<in>set cs. serves_tree env (p @ [Normal (fst c)]) (snd c)"
      using less.prems Cons top t by auto
    let ?es = "if r then map (tree_entry p) cs else []"
    let ?own = "if r then concat (map (\<lambda>c. own_entry working (p @ [Normal (fst c)]) (snd c)) cs) else []"
    let ?kids = "if r then child_dirs p cs else []"
    have read: "read_dir_into env p tr = (?es, tr @ [ReadDir p])"
      using serves by (simp add: read_dir_into_def ask_defs serves_dir_def)
    have handled: "recursive_handler working ?es = (?own, map fst ?kids)"
      using recursive_handler_tree [of working p cs]
      by (simp add: recursive_handler_def list_handler_def map_filter_simps)
    have step: "walk_dirs env working (map fst stack) acc tr =
        walk_dirs env working (map fst (rev ?kids @ rest)) (acc @ ?own) (tr @ [ReadDir p])"
      by (simp add: Cons top walk_dirs.simps [of env working "p # map fst rest"] read handled rev_map)
    have kids: "\<forall>(q, u)\<in>set (rev ?kids @ rest). is_dir_tree u \<and> serves_tree env q u \<and> prefix root q"
      using sub root less.prems Cons by (auto simp: child_dirs_def intro: prefix_order.trans)
    have "sum_list (map (dir_count \<circ> snd) ?kids) \<le> sum_list (map (dir_count \<circ> snd) cs)"
      using count_child_dirs [of cs p] by simp
    then have smaller: "sum_list (map (dir_count \<circ> snd) (rev ?kids @ rest)) < sum_list (map (dir_count \<circ> snd) stack)"
      by (simp add: Cons top t rev_map [symmetric])
    obtain l tr' where IH: "walk_dirs env working (map fst (rev ?kids @ rest)) (acc @ ?own) (tr @ [ReadDir p])
          = Some ((acc @ ?own) @ l, tr')"
      "mset l = sum_list (map (\<lambda>(p, t). entries_below working p t) (rev ?kids @ rest))"
      "only_reads root (tr @ [ReadDir p]) tr'"
      using less.hyps [OF smaller kids] by blast
    have "mset ?own + sum_list (map (\<lambda>(q, t). entries_below working q t) ?kids) = entries_below working p t"
      by (simp add: t entries_child_dirs [symmetric] mset_concat_own)
    then have "mset (?own @ l) = sum_list (map (\<lambda>(p, t). entries_below working p t) stack)"
      using IH(2) by (simp add: Cons top rev_map [symmetric] ac_simps)
    moreover have "only_reads root tr tr'" using emits_trans [OF _ IH(3), of tr] root by simp
    ultimately show ?thesis using step IH(1) by (intro exI [of _ "?own @ l"] exI [of _ tr']) simp
  qed
qed


subsection \<open>Lemmas: the reply\<close>

definition enc_entry :: "string \<times> bool \<times> u64 \<Rightarrow> wire_value list" where
  "enc_entry e = (case e of (p, d, n) \<Rightarrow> [VString p, VBool d, VUlong n])"

lemma push_file_entry_values: "push_file_entry m e = push_values m (enc_entry e)"
  by (cases e) (simp add: enc_entry_def push_values_def)

lemma push_values_append: "push_values (push_values m xs) ys = push_values m (xs @ ys)"
  by (simp add: push_values_def)

lemma foldl_push_entries: "foldl push_file_entry m es = push_values m (concat (map enc_entry es))"
  by (induction es arbitrary: m) (simp_all add: push_file_entry_values push_values_append, simp add: push_values_def)

lemma file_list_message_values:
  "length files < 2 ^ 32 \<Longrightarrow>
   file_list_message uuid files =
     push_values (message_new FILE_LIST Highest uuid)
       (VString uuid # VUint (of_nat (length files)) # concat (map enc_entry files))"
proof -
  assume len: "length files < 2 ^ 32"
  then have "cap_file_count (length files) = of_nat (length files)"
    by (simp add: cap_file_count_def usize_to_u32_max_def)
  moreover have "unat (of_nat (length files) :: u32) = length files" using len by (simp add: unat_of_nat)
  moreover have "push_uint (push_string (message_new FILE_LIST Highest uuid) uuid) c =
      push_values (message_new FILE_LIST Highest uuid) [VString uuid, VUint c]" for c
    by (simp add: push_values_def)
  ultimately show ?thesis by (simp add: file_list_message_def Let_def foldl_push_entries push_values_append)
qed

text \<open>Which events a listing may cause, and that it ends with its one reply.\<close>

fun is_reply :: "event \<Rightarrow> bool" where
  "is_reply (QueueMessage src d p) \<longleftrightarrow> True"
| "is_reply _ \<longleftrightarrow> False"

abbreviation no_reply :: "trace \<Rightarrow> trace \<Rightarrow> bool" where
  "no_reply \<equiv> emits_only (\<lambda>e. \<not> is_reply e)"

lemma no_reply_ask:
  "no_reply tr (snd (ask_canonicalize env p tr))" "no_reply tr (snd (ask_exists env p tr))"
  "no_reply tr (snd (ask_metadata env p tr))" "no_reply tr (snd (ask_read_dir env p tr))"
  "no_reply tr (snd (ask_db env m tr))" "no_reply tr (snd (ask_string env f h d q tr))"
  by (simp_all add: ask_defs)

text \<open>The events that only ask: connecting, receiving, the database and bundle requests, and looking at paths.\<close>

fun session_event :: "event \<Rightarrow> bool" where
  "session_event (ConnectFile url auth) \<longleftrightarrow> True"
| "session_event ReceiveFile \<longleftrightarrow> True"
| "session_event (DbRequest m) \<longleftrightarrow> True"
| "session_event (RunBundle f h d p) \<longleftrightarrow> True"
| "session_event (Canonicalize p) \<longleftrightarrow> True"
| "session_event (PathExists p) \<longleftrightarrow> True"
| "session_event (StatPath p) \<longleftrightarrow> True"
| "session_event _ \<longleftrightarrow> False"

abbreviation session_only :: "trace \<Rightarrow> trace \<Rightarrow> bool" where
  "session_only \<equiv> emits_only session_event"

lemma session_asks:
  "session_only tr (snd (ask_connect env url auth tr))" "session_only tr (snd (ask_receive env tr))"
  "session_only tr (snd (ask_db env m tr))" "session_only tr (snd (ask_string env f h d q tr))"
  "session_only tr (snd (ask_canonicalize env p tr))" "session_only tr (snd (ask_exists env p tr))"
  "session_only tr (snd (ask_metadata env p tr))"
  by (simp_all add: ask_defs)

lemma session_resolve: "session_only tr (snd (resolve_working_directory_for_job env i hash details d tr))"
  by (simp add: resolve_working_directory_for_job_def lookup_job_working_directory_def
      resolve_working_directory_def get_job_by_job_id_def get_job_by_message_def
      send_db_request_timed_def ask_defs split: sum.split prod.split option.split)

lemma session_find: "session_only tr (snd (find_existing env p tr))"
proof (induction "length p" arbitrary: p tr rule: less_induct)
  case less
  obtain b tr' where a: "ask_exists env p tr = (b, tr')" by (cases "ask_exists env p tr")
  then have tr': "session_only tr tr'" using session_asks(6) [of tr env p] by simp
  have "session_only tr' (snd (find_existing env up tr'))" if "path_parent p = Some up" for up
    using less path_parent_length [OF that] by blast
  then show ?case using tr' emits_trans
    by (auto simp: find_existing.simps [of env p tr] a split: option.splits)
qed

lemma session_validate: "session_only tr (snd (validate_path_is_within env target working tr))"
  using session_asks(5) session_find emits_trans
  unfolding validate_path_is_within_def
  by (auto split: prod.splits option.splits) (metis emits_trans snd_conv)+

lemma no_reply_session: "session_only tr tr' \<Longrightarrow> no_reply tr tr'"
  by (erule emits_mono, erule session_event.elims) simp_all

lemmas no_reply_validate = no_reply_session [OF session_validate]
lemmas no_reply_resolve = no_reply_session [OF session_resolve]

lemma no_reply_read_dir: "no_reply tr (snd (read_dir_into env dir tr))"
  by (simp add: read_dir_into_def ask_defs split: option.split)

lemma no_reply_walk:
  assumes "walk_dirs env working stack acc tr = Some y"
  shows "no_reply tr (snd y)"
proof (rule walk_dirs.raw_induct [OF _ assms, where P = "\<lambda>env working stack acc tr y. no_reply tr (snd y)"])
  fix walk env working stack acc tr y
  assume IH: "\<And>env working stack acc tr y. walk env working stack acc tr = Some y \<Longrightarrow> no_reply tr (snd y)"
    and body: "(case stack of [] \<Rightarrow> Some (acc, tr)
      | dir # rest \<Rightarrow> (case read_dir_into env dir tr of (es, tr') \<Rightarrow>
          (case recursive_handler working es of (found, dirs) \<Rightarrow>
             walk env working (rev dirs @ rest) (acc @ found) tr'))) = Some y"
  show "no_reply tr (snd y)"
  proof (cases stack)
    case Nil
    with body show ?thesis by auto
  next
    case (Cons dir rest)
    obtain es tr' where r: "read_dir_into env dir tr = (es, tr')" by (cases "read_dir_into env dir tr")
    with body Cons have "no_reply tr' (snd y)" using IH by (auto split: prod.splits)
    moreover have "no_reply tr tr'" using no_reply_read_dir [of tr env dir] r by simp
    ultimately show ?thesis using emits_trans by blast
  qed
qed

lemma no_reply_list_files: "list_files env recursive working p tr = Some (files, tr') \<Longrightarrow> no_reply tr tr'"
  using no_reply_walk [of env working "[p]" "[]" tr] no_reply_read_dir [of tr env p]
  by (auto simp: list_files_def split: if_splits prod.splits)

definition replies_once :: "string \<Rightarrow> trace \<Rightarrow> trace \<Rightarrow> bool" where
  "replies_once uuid tr tr' \<longleftrightarrow>
     (\<exists>es d. tr' = tr @ es @ [QueueMessage uuid d Highest] \<and> list_all (\<lambda>e. \<not> is_reply e) es
        \<and> ((\<exists>files. d = get_data (file_list_message uuid files))
           \<or> (\<exists>text. d = get_data (file_list_error_message uuid text))))"

lemma replies_onceI:
  assumes "no_reply tr tr1"
  shows "replies_once uuid tr (send_file_list_error uuid text tr1)"
    and "replies_once uuid tr (emit_message uuid (get_data (file_list_message uuid files)) Highest tr1)"
  using assms by (auto simp: replies_once_def send_file_list_error_def emit_message_def emits_only_def)

lemma replies_once_trans:
  assumes "no_reply tr tr1" "replies_once uuid tr1 tr'"
  shows "replies_once uuid tr tr'"
proof -
  obtain es1 where 1: "tr1 = tr @ es1" "list_all (\<lambda>e. \<not> is_reply e) es1"
    using assms(1) by (auto simp: emits_only_def)
  obtain es2 d where 2: "tr' = tr1 @ es2 @ [QueueMessage uuid d Highest]" "list_all (\<lambda>e. \<not> is_reply e) es2"
    "(\<exists>files. d = get_data (file_list_message uuid files)) \<or> (\<exists>text. d = get_data (file_list_error_message uuid text))"
    using assms(2) unfolding replies_once_def by blast
  show ?thesis
    unfolding replies_once_def using 1 2 by (intro exI [of _ "es1 @ es2"] exI [of _ d]) simp
qed

lemma list_checked_replies:
  assumes "list_checked_path env uuid is_recursive working abs_path tr = Some tr'"
  shows "replies_once uuid tr tr'"
proof -
  obtain within tr1 where s1: "validate_path_is_within env abs_path working tr = (within, tr1)" by (metis prod.collapse)
  have n1: "no_reply tr tr1" using no_reply_validate [of tr env abs_path working] s1 by simp
  obtain is_dir tr2 where s2: "validate_list_target_is_directory env abs_path tr1 = (is_dir, tr2)" by (metis prod.collapse)
  have "no_reply tr1 tr2" using s2 by (auto simp: validate_list_target_is_directory_def ask_defs split: sum.splits)
  then have n2: "no_reply tr tr2" using emits_trans [OF n1] by blast
  consider "tr' = send_file_list_error uuid ''Path to list files is outside the working directory'' tr1"
    | "tr' = send_file_list_error uuid ''Path to list files is not a directory'' tr2"
    | files tr3 where "list_files env is_recursive working abs_path tr2 = Some (files, tr3)"
        "tr' = emit_message uuid (get_data (file_list_message uuid files)) Highest tr3"
    using assms s1 s2 by (auto simp: list_checked_path_def split: if_splits option.splits)
  then show ?thesis
  proof cases
    case 3
    then show ?thesis using replies_onceI(2) emits_trans [OF n2 no_reply_list_files [OF 3(1)]] by blast
  qed (auto intro: replies_onceI(1) [OF n1] replies_onceI(1) [OF n2])
qed

lemma list_in_directory_replies:
  assumes "list_in_directory env uuid is_recursive dir_path wd tr = Some tr'"
  shows "replies_once uuid tr tr'"
proof -
  obtain c1 tr1 where s1: "ask_canonicalize env (parse_path wd) tr = (c1, tr1)" by (metis prod.collapse)
  have n1: "no_reply tr tr1" using no_reply_ask(1) [of tr env "parse_path wd"] s1 by simp
  show ?thesis
  proof (cases c1)
    case None
    then show ?thesis using assms s1 replies_onceI(1) [OF n1] by (auto simp: list_in_directory_def)
  next
    case (Some wd_path)
    let ?full = "path_join (parse_path (path_to_string wd_path)) (parse_path (trim_start_slashes dir_path))"
    obtain c2 tr2 where s2: "ask_canonicalize env ?full tr1 = (c2, tr2)" by (metis prod.collapse)
    have n2: "no_reply tr tr2" using no_reply_ask(1) [of tr1 env ?full] s2 emits_trans [OF n1] by simp
    show ?thesis
      using assms s1 Some s2 replies_onceI(1) [OF n2] replies_once_trans [OF n2 list_checked_replies]
      by (cases c2) (auto simp: list_in_directory_def Let_def)
  qed
qed

lemma handle_file_list_replies:
  assumes msg: "pop_uint msg = (wire_id, m1)" "pop_string m1 = (uuid, m2)"
    and "handle_file_list env True msg tr = Some tr'"
  shows "replies_once uuid tr tr'"
proof -
  obtain hash m3 dir_path m4 is_recursive m5 where rest: "pop_string m2 = (hash, m3)"
    "pop_string m3 = (dir_path, m4)" "pop_bool m4 = (is_recursive, m5)" by (metis prod.collapse)
  obtain r1 tr1 where s1: "resolve_working_directory_for_job env (ucast wire_id) hash (JString dir_path) ''file_list'' tr = (r1, tr1)"
    by (metis prod.collapse)
  have n1: "no_reply tr tr1"
    using no_reply_resolve [of tr env "ucast wire_id" hash "JString dir_path" "''file_list''"] s1 by simp
  show ?thesis
    using assms rest s1 replies_onceI(1) [OF n1] replies_once_trans [OF n1 list_in_directory_replies]
    by (cases r1) (auto simp: handle_file_list_def list_task_def)
qed

subsection \<open>Properties\<close>

text \<open>
  C20. A path that passes the check lies inside the working directory. If the check accepts a path then,
  in the state of the file system it was made in, the canonical form of the working directory is a
  prefix of the place the path denotes: of its canonical form when it exists, and otherwise of the
  canonical form of its longest existing ancestor followed by the components that are still to be
  created, none of which is a parent reference.
\<close>

theorem validated_path_is_inside:
  assumes fs: "fs_answers env canon ex" and ok: "fst (validate_path_is_within env target working tr)"
  shows "\<exists>w. canon working = Some w \<and>
    (case canon target of
       Some t \<Rightarrow> prefix w t
     | None \<Rightarrow> (\<exists>cur rest c. target = cur @ rest \<and> longest_existing ex target cur \<and> canon cur = Some c
                  \<and> ParentDir \<notin> set rest \<and> prefix w (c @ rest)))"
  using validate_inside [OF assms] by (simp add: inside_def)

definition sample_fs :: outside where
  "sample_fs = quiet_outside\<lparr>o_canonicalize := (\<lambda>tr. case last tr of
       Canonicalize p \<Rightarrow> if p = [RootDir, Normal ''w''] then Some p else None | _ \<Rightarrow> None),
     o_exists := (\<lambda>tr. last tr = PathExists [RootDir, Normal ''w''])\<rparr>"

theorem validated_path_is_inside_witness:
  "fst (validate_path_is_within sample_fs [RootDir, Normal ''w'', Normal ''d'', Normal ''f''] [RootDir, Normal ''w''] [])
   \<and> longest_existing (\<lambda>p. p = [RootDir, Normal ''w'']) [RootDir, Normal ''w'', Normal ''d'', Normal ''f''] [RootDir, Normal ''w'']"
proof -
  let ?w = "[RootDir, Normal ''w'']" and ?t = "[RootDir, Normal ''w'', Normal ''d'', Normal ''f'']"
  have fs: "fs_answers sample_fs (\<lambda>p. if p = ?w then Some p else None) (\<lambda>p. p = ?w)"
    by (simp add: fs_answers_def sample_fs_def)
  have find: "fst (find_existing sample_fs ?t tr) = Some ?w" for tr
    by (simp add: find_existing_fst [OF fs] path_parent_def)
  have ok: "fst (validate_path_is_within sample_fs ?t ?w [])"
  proof -
    obtain tr3 where "find_existing sample_fs ?t [Canonicalize ?w, Canonicalize ?t] = (Some ?w, tr3)"
      using find [of "[Canonicalize ?w, Canonicalize ?t]"] by (metis prod.collapse)
    then show ?thesis
      by (simp add: validate_path_is_within_def ask_defs sample_fs_def starts_with_def strip_prefix_or_def)
  qed
  from validated_path_is_inside [OF fs ok] ok show ?thesis
    by (auto simp: longest_existing_def)
qed

text \<open>
  C21. A recursive listing ends and is complete. Over any finite directory tree the traversal returns,
  and it returns exactly one entry, with its path relative to the working directory, its kind and its
  size, for every file and directory below the listed one that can be reached through readable
  directories; symbolic links and entries without metadata are left out and links are never
  followed. Only directories below the listed one are read.
\<close>

theorem recursive_listing_is_complete:
  assumes "serves_tree env root (TDir n readable cs)"
  shows "\<exists>files tr'. list_files env True working root tr = Some (files, tr')
    \<and> mset files = entries_below working root (TDir n readable cs)
    \<and> (\<forall>e\<in>set (new_events tr tr'). \<exists>q. e = ReadDir q \<and> prefix root q)"
proof -
  obtain l tr' where l: "walk_dirs env working [root] [] tr = Some (l, tr')"
    "mset l = entries_below working root (TDir n readable cs)" "only_reads root tr tr'"
    using walk_dirs_tree [of "[(root, TDir n readable cs)]" env root working "[]" tr] assms
    by (auto simp: is_dir_tree_def)
  then have "\<forall>e\<in>set (new_events tr tr'). \<exists>q. e = ReadDir q \<and> prefix root q"
    using emits_new [OF l(3)] by (simp add: list_all_iff)
  with l show ?thesis by (simp add: list_files_def)
qed

definition sample_tree :: "(string \<times> fs_tree) list" where
  "sample_tree = [(''a'', TFile 3), (''l'', TLink), (''d'', TDir 4096 True [(''b'', TFile 5)])]"

definition tree_outside :: outside where
  "tree_outside = quiet_outside\<lparr>o_read_dir := (\<lambda>tr. case last tr of
      ReadDir p \<Rightarrow>
        (if p = [RootDir] then Some (map (\<lambda>c. Inr (tree_entry p c)) sample_tree)
         else if p = [RootDir, Normal ''d''] then Some [Inr (tree_entry p (''b'', TFile 5))] else None)
    | _ \<Rightarrow> None)\<rparr>"

theorem recursive_listing_is_complete_witness:
  "\<exists>files tr'. list_files tree_outside True [RootDir] [RootDir] [] = Some (files, tr')
     \<and> mset files = {#(''a'', False, 3), (''d'', True, 4096), (''d/b'', False, 5)#}"
proof -
  have "serves_tree tree_outside [RootDir] (TDir 4096 True sample_tree)"
    by (simp add: serves_dir_def tree_outside_def sample_tree_def)
  from recursive_listing_is_complete [OF this, of "[RootDir]" "[]"] show ?thesis
    by (auto simp: sample_tree_def strip_prefix_or_def path_to_string_def)
qed

text \<open>
  A listing request is answered exactly once. Whatever the database, the bundle and the file system
  answer, a request that obtains its permit and whose traversal ends queues exactly one message, the
  last thing it does, on the request's own source: a listing or an error.
\<close>

theorem listing_answers_once:
  assumes "pop_uint msg = (wire_id, m1)" "pop_string m1 = (uuid, m2)" "length uuid < 2 ^ 64"
    and "handle_file_list env True msg tr = Some tr'"
  shows "\<exists>es d. tr' = tr @ es @ [QueueMessage uuid d Highest] \<and> (\<forall>e\<in>set es. \<not> is_reply e)
    \<and> msg_source (from_data d) = uuid \<and> msg_id (from_data d) \<in> {FILE_LIST, FILE_LIST_ERROR}"
proof -
  obtain es d where d: "tr' = tr @ es @ [QueueMessage uuid d Highest]" "list_all (\<lambda>e. \<not> is_reply e) es"
    "(\<exists>files. d = get_data (file_list_message uuid files)) \<or> (\<exists>text. d = get_data (file_list_error_message uuid text))"
    using handle_file_list_replies [OF assms(1,2,4)] unfolding replies_once_def by blast
  have "wf_str uuid" using wf_pop_string [of m1] assms(2) by simp
  then have head: "msg_source (from_data (header i uuid @ rest)) = uuid \<and> msg_id (from_data (header i uuid @ rest)) = i" for i rest
    using from_data_header [OF _ assms(3)] by simp
  from d(3) have "\<exists>i rest. i \<in> {FILE_LIST, FILE_LIST_ERROR} \<and> d = header i uuid @ rest"
    by (auto simp: file_list_message_def file_list_error_message_def Let_def foldl_push_entries push_values_enc
        push_encs message_new_data get_data_def simp del: le_encode.simps)
  with d head show ?thesis by (auto simp: list_all_iff)
qed

definition list_message :: "u32 \<Rightarrow> message" where
  "list_message i = from_data (get_data (push_values (message_new FILE_LIST Highest SYSTEM_SOURCE)
     [VUint i, VString ''u'', VString [], VString ''/'', VBool True]))"

theorem listing_answers_once_witness:
  "\<exists>es d. handle_file_list quiet_outside True (list_message 7) [] = Some (es @ [QueueMessage ''u'' d Highest])
     \<and> msg_id (from_data d) \<in> {FILE_LIST, FILE_LIST_ERROR}"
proof -
  let ?vs = "[VUint 7, VString ''u'', VString [], VString ''/'', VBool True]"
  have "wf_str ''u''" "wf_str ''/''" "wf_str ''system''" by (rule wf_str_ascii; auto)+
  then have vs: "fst (pop_values (map tag_of ?vs) (list_message 7)) = ?vs"
    unfolding list_message_def by (intro received_fields) simp_all
  obtain a m1 b m2 c m3 d m4 e m5 where p: "pop_uint (list_message 7) = (a, m1)" "pop_string m1 = (b, m2)"
    "pop_string m2 = (c, m3)" "pop_string m3 = (d, m4)" "pop_bool m4 = (e, m5)" by (metis prod.collapse)
  with vs have f: "a = 7" "b = ''u''" by simp_all
  have "\<exists>tr'. handle_file_list quiet_outside True (list_message 7) [] = Some tr'"
    using p f by (simp add: handle_file_list_def list_task_def resolve_working_directory_for_job_def
        lookup_job_working_directory_def get_job_by_job_id_def get_job_by_message_def send_db_request_timed_def
        ask_defs quiet_outside_def)
  then obtain tr' where "handle_file_list quiet_outside True (list_message 7) [] = Some tr'" by blast
  with listing_answers_once [OF p(1,2), of quiet_outside "[]" tr'] f show ?thesis by auto
qed

text \<open>
  The listing that is sent is the listing that was made. The reply carries the identifier of the
  request, the number of entries and then, for every entry in order, its path, kind and size; reading
  it back gives exactly these values.
\<close>

theorem file_list_roundtrip:
  assumes "wf_string uuid" "length files < 2 ^ 32" "\<forall>(p, d, n)\<in>set files. wf_string p"
  shows "let vs = VString uuid # VUint (of_nat (length files)) # concat (map enc_entry files)
    in fst (pop_values (map tag_of vs) (from_data (get_data (file_list_message uuid files)))) = vs
       \<and> unat (of_nat (length files) :: u32) = length files"
proof -
  let ?vs = "VString uuid # VUint (of_nat (length files)) # concat (map enc_entry files)"
  have "\<forall>v\<in>set ?vs. wf_value v" using assms by (auto simp: wf_string_def enc_entry_def)
  then have "fst (pop_values (map tag_of ?vs) (from_data (get_data (file_list_message uuid files)))) = ?vs"
    unfolding file_list_message_values [OF assms(2)]
    using assms(1) by (intro received_fields) (simp_all add: wf_string_def)
  then show ?thesis using assms(2) by (simp add: unat_of_nat Let_def)
qed

theorem file_list_roundtrip_witness:
  "fst (pop_values [TString, TUint, TString, TBool, TUlong]
      (from_data (get_data (file_list_message ''u'' [(''a'', False, 3)])))) =
   [VString ''u'', VUint 1, VString ''a'', VBool False, VUlong 3]"
proof -
  have "wf_string ''u''" "wf_string ''a''" by (auto simp: wf_string_def intro!: wf_str_ascii)
  then show ?thesis using file_list_roundtrip [of "''u''" "[(''a'', False, 3)]"]
    by (simp add: enc_entry_def Let_def)
qed

end
