(* ===== verification/File_List_Limit.thy ===== *)
theory File_List_Limit
  imports Files
begin

text \<open>
  The limit on file listings of \<^verbatim>\<open>src/src/src/files/mod.rs\<close>. Each list request spawns a task that first acquires a permit of
  \<^verbatim>\<open>FILE_LIST_SEMAPHORE\<close> and drops it when the task ends, on whatever branch. The semaphore of the runtime is fair, as
  documented: a permit that becomes free goes to the task that has waited longest. The semaphore is never closed
  outside the tests.
\<close>

definition FILE_LIST_CONCURRENCY_LIMIT :: nat where
  "FILE_LIST_CONCURRENCY_LIMIT = 4"

subsection \<open>The semaphore\<close>

text \<open>
  Tasks are numbered in the order of their requests. \<open>started\<close> has the tasks that were given a permit, in order, and
  \<open>replies\<close> what the tasks that ended have left in their traces.
\<close>

record list_sys =
  permits :: nat
  waiting :: "nat list"
  listing :: "nat list"
  started :: "nat list"
  requested :: nat
  replies :: "trace list"

definition list_idle :: list_sys where
  "list_idle = \<lparr>permits = FILE_LIST_CONCURRENCY_LIMIT, waiting = [], listing = [], started = [], requested = 0, replies = []\<rparr>"

definition grant :: "nat \<Rightarrow> list_sys \<Rightarrow> list_sys" where
  "grant t s = s\<lparr>listing := t # listing s, started := started s @ [t]\<rparr>"

definition acquire_owned :: "list_sys \<Rightarrow> list_sys" where
  "acquire_owned s =
     (let t = requested s; s1 = s\<lparr>requested := Suc t\<rparr>
      in case permits s of
           0 \<Rightarrow> s1\<lparr>waiting := waiting s @ [t]\<rparr>
         | Suc n \<Rightarrow> grant t (s1\<lparr>permits := n\<rparr>))"

definition drop_permit :: "list_sys \<Rightarrow> list_sys" where
  "drop_permit s =
     (case waiting s of
        [] \<Rightarrow> s\<lparr>permits := Suc (permits s)\<rparr>
      | t # ts \<Rightarrow> grant t (s\<lparr>waiting := ts\<rparr>))"

text \<open>A request arrives, or a task that holds a permit runs to its end and drops it.\<close>

inductive list_step :: "(nat \<Rightarrow> outside) \<Rightarrow> (nat \<Rightarrow> message) \<Rightarrow> list_sys \<Rightarrow> list_sys \<Rightarrow> bool" for envs msgs where
  request: "list_step envs msgs s (acquire_owned s)"
| finish: "t \<in> set (listing s) \<Longrightarrow> handle_file_list (envs t) True (msgs t) [] = Some tr \<Longrightarrow>
    list_step envs msgs s (drop_permit (s\<lparr>listing := remove1 t (listing s), replies := tr # replies s\<rparr>))"

subsection \<open>The invariant\<close>

definition list_inv :: "list_sys \<Rightarrow> bool" where
  "list_inv s \<longleftrightarrow> permits s + length (listing s) = FILE_LIST_CONCURRENCY_LIMIT \<and> (waiting s \<noteq> [] \<longrightarrow> permits s = 0)
     \<and> started s @ waiting s = [0..<requested s] \<and> length (started s) = length (replies s) + length (listing s)"

lemma list_inv_idle: "list_inv list_idle"
  by (simp add: list_inv_def list_idle_def)

lemma list_inv_acquire: "list_inv s \<Longrightarrow> list_inv (acquire_owned s)"
  by (cases "permits s") (auto simp: list_inv_def acquire_owned_def grant_def Let_def append_assoc [symmetric] simp del: append_assoc)

lemma list_inv_drop:
  assumes inv: "list_inv s" and t: "t \<in> set (listing s)"
  shows "list_inv (drop_permit (s\<lparr>listing := remove1 t (listing s), replies := tr # replies s\<rparr>))"
proof -
  obtain n where "length (listing s) = Suc n" using t by (cases "listing s") auto
  then show ?thesis
    using inv t by (cases "waiting s") (auto simp: list_inv_def drop_permit_def grant_def length_remove1)
qed

interpretation file_listings: invariant_system list_idle "list_step envs msgs" list_inv
  by unfold_locales (auto elim!: list_step.cases intro: list_inv_idle list_inv_acquire list_inv_drop)

text \<open>
  At most four listings run at a time, a request waits only while four of them run, requests are served in the order of
  their arrival, and so the request with number \<open>k\<close> has its permit as soon as \<open>k - 3\<close> listings have ended: none starves.
\<close>

theorem listings_are_limited_and_fair:
  assumes "(list_step envs msgs)\<^sup>*\<^sup>* list_idle s"
  shows "length (listing s) \<le> 4 \<and> (waiting s \<noteq> [] \<longrightarrow> length (listing s) = 4)
    \<and> (\<exists>n \<le> requested s. started s = [0..<n] \<and> waiting s = [n..<requested s])
    \<and> (\<forall>k < requested s. k < length (replies s) + 4 \<longrightarrow> k \<in> set (started s))"
proof -
  have inv: "list_inv s" using file_listings.inv_always [OF assms] .
  let ?n = "length (started s)"
  have split: "started s @ waiting s = [0..<requested s]" using inv by (simp add: list_inv_def)
  then have n: "?n \<le> requested s" by (metis diff_zero length_append le_add1 length_upt)
  have st: "started s = [0..<?n]" using arg_cong [OF split, of "take ?n"] n by simp
  have wt: "waiting s = [?n..<requested s]" using arg_cong [OF split, of "drop ?n"] n by simp
  have started: "k \<in> set (started s)" if "k < requested s" "k < length (replies s) + 4" for k
  proof (cases "waiting s")
    case Nil
    then show ?thesis using split that(1) by simp
  next
    case Cons
    then have "?n = length (replies s) + 4" using inv by (simp add: list_inv_def FILE_LIST_CONCURRENCY_LIMIT_def)
    then show ?thesis using that(2) st by (metis atLeastLessThan_iff le0 set_upt)
  qed
  show ?thesis
    using inv started st wt n by (auto simp: list_inv_def FILE_LIST_CONCURRENCY_LIMIT_def)
qed

text \<open>Whoever holds a permit can end whenever its traversal does, so a waiting task is not blocked by the semaphore itself.\<close>

lemma permits_are_returned:
  assumes "(list_step envs msgs)\<^sup>*\<^sup>* list_idle s" "waiting s = t # ts"
    and "\<And>u. \<exists>tr. handle_file_list (envs u) True (msgs u) [] = Some tr"
  shows "\<exists>s'. list_step envs msgs s s' \<and> t \<in> set (started s') \<and> waiting s' = ts"
proof -
  have "listing s \<noteq> []"
    using file_listings.inv_always [OF assms(1)] assms(2) by (auto simp: list_inv_def FILE_LIST_CONCURRENCY_LIMIT_def)
  then obtain u where u: "u \<in> set (listing s)" by (cases "listing s") auto
  obtain tr where tr: "handle_file_list (envs u) True (msgs u) [] = Some tr" using assms(3) by blast
  let ?s' = "drop_permit (s\<lparr>listing := remove1 u (listing s), replies := tr # replies s\<rparr>)"
  have "list_step envs msgs s ?s'" using u tr by (rule list_step.finish)
  then show ?thesis using assms(2) by (intro exI [of _ ?s']) (simp add: drop_permit_def grant_def)
qed

end
