(* ===== verification/File_Transfer.thy ===== *)
theory File_Transfer
  imports Environment
begin

text \<open>
  The transfer loop of a file download, \<^verbatim>\<open>run_transfer_loop\<close> of \<^verbatim>\<open>src/src/src/files/mod.rs\<close>: file
  reads, chunk sends, pause and resume, and the selection of the authoritative result. Each phase is
  a function of what its \<^verbatim>\<open>await\<close> points see, given as a \<open>phase_input\<close>: the messages that are already
  buffered, the message (if any) that is ready when the phase polls the socket, the result of the file
  read, the last poll at the end of the file, and how the send went. The select statements are biased,
  so these inputs determine the branch.

  Two library facts matter and are part of the model: \<^verbatim>\<open>Notify::notify_one\<close> stores one permit when
  nobody waits, and the next \<^verbatim>\<open>notified\<close> consumes it at once; and dropping the future of a sink's \<^verbatim>\<open>send\<close>
  does not take back a frame the sink has already accepted, which is the flag of \<open>Interrupted\<close>.
\<close>

abbreviation DOWNLOAD_CHUNK_SIZE :: nat where "DOWNLOAD_CHUNK_SIZE \<equiv> 65536"

subsection \<open>Results\<close>

datatype authoritative_result = Pending | PrimaryError string | PeerTerminal string | CleanEof

datatype transfer_outcome = OutcomePrimary string | OutcomePeer string | OutcomeClean

fun into_outcome :: "authoritative_result \<Rightarrow> transfer_outcome" where
  "into_outcome Pending = OutcomePeer ''exited without result''"
| "into_outcome (PrimaryError msg) = OutcomePrimary msg"
| "into_outcome (PeerTerminal msg) = OutcomePeer msg"
| "into_outcome CleanEof = OutcomeClean"

fun is_primary :: "authoritative_result \<Rightarrow> bool" where
  "is_primary (PrimaryError _) \<longleftrightarrow> True"
| "is_primary _ \<longleftrightarrow> False"

datatype chunk_state = Reading | Sending

datatype incoming_event = EvPause | EvResume | EvClose | EvEof | EvError string | EvIgnored

text \<open>\<open>Panicked\<close> stands for the \<^verbatim>\<open>expect\<close> on the pending chunk.\<close>

datatype loop_step = Continue | SetState chunk_state | Finish authoritative_result | Panicked

record transfer_state =
  authoritative :: authoritative_result
  transmitted_bytes :: u64
  expected_size :: u64
  pending_chunk_bytes :: "bytes option"
  pending_chunk_len :: nat

definition transfer_new :: "u64 \<Rightarrow> transfer_state" where
  "transfer_new file_size =
     \<lparr>authoritative = Pending, transmitted_bytes = 0, expected_size = file_size, pending_chunk_bytes = None,
      pending_chunk_len = 0\<rparr>"

definition set_authoritative :: "authoritative_result \<Rightarrow> transfer_state \<Rightarrow> transfer_state" where
  "set_authoritative r s =
     (if is_primary (authoritative s) \<and> \<not> is_primary r then s else s\<lparr>authoritative := r\<rparr>)"

definition primary :: "string \<Rightarrow> transfer_state \<Rightarrow> authoritative_result \<times> transfer_state" where
  "primary msg s = (PrimaryError msg, set_authoritative (PrimaryError msg) s)"

definition peer_terminal :: "string \<Rightarrow> transfer_state \<Rightarrow> authoritative_result \<times> transfer_state" where
  "peer_terminal msg s =
     (if is_primary (authoritative s) then (authoritative s, s)
      else (PeerTerminal msg, s\<lparr>authoritative := PeerTerminal msg\<rparr>))"

text \<open>
  The transfer with its pause flag, the permit of \<^verbatim>\<open>resume_notify\<close>, the frames handed to the socket and
  the bytes the file has delivered so far.
\<close>

record transfer =
  ts :: transfer_state
  is_paused :: bool
  resume_permit :: bool
  wire :: "ws_frame list"
  bytes_read :: bytes

datatype send_outcome = Sent "unit result" | Interrupted bool incoming

record phase_input =
  in_drained :: "incoming list"
  in_ready :: "incoming option"
  in_read :: "bytes result"
  in_eof_poll :: "incoming option"
  in_send :: send_outcome

subsection \<open>Incoming messages\<close>

definition classify_incoming :: "incoming \<Rightarrow> incoming_event" where
  "classify_incoming i =
     (case i of
        None \<Rightarrow> EvEof
      | Some (Inr Close) \<Rightarrow> EvClose
      | Some (Inr (Binary d)) \<Rightarrow>
          (let m = from_data d
           in if msg_id m = PAUSE_FILE_CHUNK_STREAM then EvPause
              else if msg_id m = RESUME_FILE_CHUNK_STREAM then EvResume
              else EvIgnored)
      | Some (Inr _) \<Rightarrow> EvIgnored
      | Some (Inl e) \<Rightarrow> EvError e)"

definition finish_peer :: "string \<Rightarrow> transfer \<Rightarrow> loop_step \<times> transfer" where
  "finish_peer msg t = (case peer_terminal msg (ts t) of (r, s) \<Rightarrow> (Finish r, t\<lparr>ts := s\<rparr>))"

definition handle_incoming_event :: "incoming \<Rightarrow> transfer \<Rightarrow> loop_step \<times> transfer" where
  "handle_incoming_event i t =
     (case classify_incoming i of
        EvPause \<Rightarrow> (Continue, t\<lparr>is_paused := True\<rparr>)
      | EvResume \<Rightarrow> (Continue, t\<lparr>is_paused := False, resume_permit := True\<rparr>)
      | EvClose \<Rightarrow> finish_peer ''peer Close'' t
      | EvEof \<Rightarrow> finish_peer ''peer EOF'' t
      | EvError msg \<Rightarrow> finish_peer (''peer receive error: '' @ msg) t
      | EvIgnored \<Rightarrow> (Continue, t))"

fun drain_pending_incoming :: "incoming list \<Rightarrow> transfer \<Rightarrow> loop_step option \<times> transfer" where
  "drain_pending_incoming [] t = (None, t)"
| "drain_pending_incoming (i # is) t =
     (case handle_incoming_event i t of (step, t') \<Rightarrow>
        if step \<noteq> Continue then (Some step, t') else drain_pending_incoming is t')"

text \<open>
  Waiting while paused: a ready message is handled first, else a stored permit ends the pause; with
  neither the phase keeps waiting.
\<close>

definition wait_for_terminal_or_resume :: "incoming option \<Rightarrow> transfer \<Rightarrow> loop_step \<times> transfer" where
  "wait_for_terminal_or_resume ready t =
     (case ready of
        Some i \<Rightarrow> handle_incoming_event i t
      | None \<Rightarrow>
          if is_paused t \<and> resume_permit t then (Continue, t\<lparr>is_paused := False, resume_permit := False\<rparr>)
          else (Continue, t))"

subsection \<open>The phases\<close>

definition file_error_frame :: "u32 \<Rightarrow> string \<Rightarrow> string \<Rightarrow> ws_frame" where
  "file_error_frame msg_id_val uuid text =
     Binary (get_data (push_string (message_new msg_id_val Highest uuid) text))"

definition chunk_data :: "string \<Rightarrow> bytes \<Rightarrow> bytes" where
  "chunk_data uuid d = get_data (push_bytes (message_new FILE_CHUNK Highest uuid) d)"

definition at_end_of_file :: "string \<Rightarrow> incoming option \<Rightarrow> transfer \<Rightarrow> loop_step \<times> transfer" where
  "at_end_of_file uuid poll t =
     (let expected = expected_size (ts t); transmitted = transmitted_bytes (ts t)
      in if transmitted = expected \<and> \<not> is_primary (authoritative (ts t)) then
           (case poll of
              Some (Some (Inr Close)) \<Rightarrow> finish_peer ''peer Close'' t
            | Some (Some (Inl e)) \<Rightarrow> finish_peer ''peer EOF'' t
            | Some None \<Rightarrow> finish_peer ''peer EOF'' t
            | Some (Some (Inr _)) \<Rightarrow> (Finish CleanEof, t)
            | None \<Rightarrow> (Finish CleanEof, t))
         else
           (Finish (PrimaryError (''unexpected EOF: transmitted '' @ show_nat (unat transmitted) @ '' of ''
                      @ show_nat (unat expected) @ '' bytes'')),
            t\<lparr>wire := wire t @ [file_error_frame FILE_DOWNLOAD_ERROR uuid
                (''File size mismatch: expected '' @ show_nat (unat expected) @ '', got ''
                 @ show_nat (unat transmitted))]\<rparr>))"

definition run_reading_phase :: "string \<Rightarrow> phase_input \<Rightarrow> transfer \<Rightarrow> loop_step \<times> transfer" where
  "run_reading_phase uuid inp t =
     (case drain_pending_incoming (in_drained inp) t of
        (Some step, t1) \<Rightarrow> (step, t1)
      | (None, t1) \<Rightarrow>
          if is_paused t1 then wait_for_terminal_or_resume (in_ready inp) t1
          else case in_ready inp of
            Some i \<Rightarrow> handle_incoming_event i t1
          | None \<Rightarrow>
              (case in_read inp of
                 Inr [] \<Rightarrow> at_end_of_file uuid (in_eof_poll inp) t1
               | Inr (b # bs) \<Rightarrow>
                   (SetState Sending,
                    t1\<lparr>ts := (ts t1)\<lparr>pending_chunk_bytes := Some (chunk_data uuid (b # bs)),
                                    pending_chunk_len := length (b # bs)\<rparr>,
                       bytes_read := bytes_read t1 @ b # bs\<rparr>)
               | Inl e \<Rightarrow>
                   (case primary ''file read failed'' (ts t1) of (r, s) \<Rightarrow>
                      (Finish r,
                       t1\<lparr>ts := s,
                          wire := wire t1 @ [file_error_frame FILE_DOWNLOAD_ERROR uuid ''Exception reading file'']\<rparr>))))"

definition run_sending_phase :: "phase_input \<Rightarrow> transfer \<Rightarrow> loop_step \<times> transfer" where
  "run_sending_phase inp t =
     (case drain_pending_incoming (in_drained inp) t of
        (Some step, t1) \<Rightarrow> (step, t1)
      | (None, t1) \<Rightarrow>
          if is_paused t1 then wait_for_terminal_or_resume (in_ready inp) t1
          else case pending_chunk_bytes (ts t1) of
            None \<Rightarrow> (Panicked, t1)
          | Some pending \<Rightarrow>
              (case in_send inp of
                 Sent (Inr _) \<Rightarrow>
                   (SetState Reading,
                    t1\<lparr>ts := (ts t1)\<lparr>pending_chunk_bytes := None, pending_chunk_len := 0,
                                    transmitted_bytes := transmitted_bytes (ts t1) + of_nat (pending_chunk_len (ts t1))\<rparr>,
                       wire := wire t1 @ [Binary pending]\<rparr>)
               | Sent (Inl e) \<Rightarrow>
                   (case primary ''chunk send failed''
                           ((ts t1)\<lparr>pending_chunk_bytes := None, pending_chunk_len := 0\<rparr>) of (r, s) \<Rightarrow>
                      (Finish r, t1\<lparr>ts := s\<rparr>))
               | Interrupted accepted i \<Rightarrow>
                   handle_incoming_event i
                     (t1\<lparr>wire := wire t1 @ (if accepted then [Binary pending] else [])\<rparr>)))"

datatype transfer_end = Running chunk_state | Ended | Crashed

fun run_transfer_loop ::
  "string \<Rightarrow> chunk_state \<Rightarrow> phase_input list \<Rightarrow> transfer \<Rightarrow> transfer_end \<times> transfer" where
  "run_transfer_loop uuid cs [] t = (Running cs, t)"
| "run_transfer_loop uuid cs (inp # inps) t =
     (case (case cs of Reading \<Rightarrow> run_reading_phase uuid inp t | Sending \<Rightarrow> run_sending_phase inp t) of
        (Continue, t') \<Rightarrow> run_transfer_loop uuid cs inps t'
      | (SetState cs', t') \<Rightarrow> run_transfer_loop uuid cs' inps t'
      | (Finish r, t') \<Rightarrow> (Ended, t'\<lparr>ts := set_authoritative r (ts t')\<rparr>)
      | (Panicked, t') \<Rightarrow> (Crashed, t'))"

definition transfer_start :: "u64 \<Rightarrow> transfer" where
  "transfer_start file_size =
     \<lparr>ts = transfer_new file_size, is_paused = False, resume_permit = False, wire = [], bytes_read = []\<rparr>"

subsection \<open>Lemmas: what the receiver gets\<close>

text \<open>The file data a receiver takes from the frames, and the inputs the loop is analysed under.\<close>

definition frame_payload :: "ws_frame \<Rightarrow> bytes" where
  "frame_payload f =
     (case f of
        Binary d \<Rightarrow> (let m = from_data d in if msg_id m = FILE_CHUNK then fst (pop_bytes m) else [])
      | _ \<Rightarrow> [])"

definition received_bytes :: "ws_frame list \<Rightarrow> bytes" where
  "received_bytes fs = concat (map frame_payload fs)"

definition bounded_read :: "phase_input \<Rightarrow> bool" where
  "bounded_read inp \<longleftrightarrow> (case in_read inp of Inr d \<Rightarrow> length d \<le> DOWNLOAD_CHUNK_SIZE | Inl e \<Rightarrow> True)"

text \<open>The send future is never dropped after the sink has taken its frame.\<close>

definition unambiguous_send :: "phase_input \<Rightarrow> bool" where
  "unambiguous_send inp \<longleftrightarrow> (case in_send inp of Interrupted accepted i \<Rightarrow> \<not> accepted | Sent r \<Rightarrow> True)"

lemma received_bytes_simps [simp]:
  "received_bytes [] = []"
  "received_bytes (fs @ gs) = received_bytes fs @ received_bytes gs"
  "received_bytes [f] = frame_payload f"
  by (simp_all add: received_bytes_def)

lemma frame_payload_chunk:
  assumes "wf_str uuid" "length uuid < 2 ^ 64" "length d < 2 ^ 64"
  shows "frame_payload (Binary (chunk_data uuid d)) = d"
proof -
  have data: "chunk_data uuid d = header FILE_CHUNK uuid @ enc_bytes d"
    by (simp add: chunk_data_def bytes.push_enc message_new_data get_data_def)
  have "unread (from_data (header FILE_CHUNK uuid @ enc_bytes d)) = enc_bytes d @ []"
    using assms by (simp add: unread_from_data_header)
  from bytes.pop_enc [OF assms(3) this] data show ?thesis
    using assms by (simp add: frame_payload_def from_data_header)
qed

lemma error_frame_header:
  "file_error_frame i uuid text = Binary (header i uuid @ enc_string text)"
  by (simp add: file_error_frame_def str.push_enc message_new_data get_data_def)

lemma frame_payload_error:
  assumes "wf_str uuid" "length uuid < 2 ^ 64"
  shows "frame_payload (file_error_frame FILE_DOWNLOAD_ERROR uuid text) = []"
  using assms by (simp add: error_frame_header frame_payload_def from_data_header)

subsection \<open>Lemmas: one phase\<close>

text \<open>What an incoming message can do while no result is selected: nothing but pausing, or end the transfer.\<close>

definition peer_step :: "transfer \<Rightarrow> loop_step \<Rightarrow> transfer \<Rightarrow> bool" where
  "peer_step t step t' \<longleftrightarrow> wire t' = wire t \<and> bytes_read t' = bytes_read t \<and>
     (step = Continue \<and> ts t' = ts t
      \<or> (\<exists>msg. step = Finish (PeerTerminal msg) \<and> ts t' = (ts t)\<lparr>authoritative := PeerTerminal msg\<rparr>))"

lemma finish_peer_step:
  "authoritative (ts t) = Pending \<Longrightarrow> finish_peer msg t = (step, t') \<Longrightarrow> peer_step t step t'"
  by (auto simp: finish_peer_def peer_terminal_def peer_step_def)

lemma handle_incoming_step:
  assumes "authoritative (ts t) = Pending" "handle_incoming_event i t = (step, t')"
  shows "peer_step t step t'"
  using assms finish_peer_step [OF assms(1)]
  by (auto simp: handle_incoming_event_def peer_step_def split: incoming_event.splits)

lemma peer_step_trans:
  "peer_step t Continue t1 \<Longrightarrow> peer_step t1 step t2 \<Longrightarrow> peer_step t step t2"
  by (auto simp: peer_step_def)

lemma drain_step:
  assumes "authoritative (ts t) = Pending" "drain_pending_incoming is t = (r, t')"
  shows "peer_step t (case r of None \<Rightarrow> Continue | Some step \<Rightarrow> step) t'"
  using assms
proof (induction "is" t rule: drain_pending_incoming.induct)
  case (1 t)
  then show ?case by (simp add: peer_step_def)
next
  case (2 i "is" t)
  obtain step t1 where h: "handle_incoming_event i t = (step, t1)" by (metis prod.collapse)
  have p: "peer_step t step t1" using handle_incoming_step [OF 2(2) h] .
  show ?case
  proof (cases "step = Continue")
    case True
    with p 2(2) have "authoritative (ts t1) = Pending" by (simp add: peer_step_def)
    with 2(1) [OF h [symmetric]] 2(3) h True have "peer_step t1 (case r of None \<Rightarrow> Continue | Some step \<Rightarrow> step) t'" by simp
    with p True show ?thesis by (auto intro: peer_step_trans)
  next
    case False
    with 2(3) h p show ?thesis by auto
  qed
qed

lemma wait_step:
  assumes "authoritative (ts t) = Pending" "wait_for_terminal_or_resume ready t = (step, t')"
  shows "peer_step t step t'"
  using assms handle_incoming_step [OF assms(1)]
  by (auto simp: wait_for_terminal_or_resume_def peer_step_def split: option.splits if_splits)

subsection \<open>Lemmas: the accounting invariant\<close>

text \<open>
  While the loop runs, the receiver has what was read except for the pending chunk, and the counter
  is the length of what it has; \<open>settled\<close> is what holds of an ended transfer.
\<close>

definition in_flight :: "string \<Rightarrow> chunk_state \<Rightarrow> transfer \<Rightarrow> bytes \<Rightarrow> bool" where
  "in_flight uuid cs t d \<longleftrightarrow>
     (case cs of
        Reading \<Rightarrow> d = [] \<and> pending_chunk_bytes (ts t) = None
      | Sending \<Rightarrow> length d \<le> DOWNLOAD_CHUNK_SIZE \<and> pending_chunk_bytes (ts t) = Some (chunk_data uuid d)
                   \<and> pending_chunk_len (ts t) = length d)"

definition accounted :: "string \<Rightarrow> u64 \<Rightarrow> chunk_state \<Rightarrow> transfer \<Rightarrow> bool" where
  "accounted uuid n cs t \<longleftrightarrow>
     authoritative (ts t) = Pending \<and> expected_size (ts t) = n
     \<and> transmitted_bytes (ts t) = of_nat (length (received_bytes (wire t)))
     \<and> (\<exists>d. in_flight uuid cs t d \<and> bytes_read t = received_bytes (wire t) @ d)"

definition settled :: "string \<Rightarrow> u64 \<Rightarrow> transfer \<Rightarrow> bool" where
  "settled uuid n t \<longleftrightarrow>
     (\<exists>d. bytes_read t = received_bytes (wire t) @ d \<and> length d \<le> DOWNLOAD_CHUNK_SIZE)
     \<and> transmitted_bytes (ts t) = of_nat (length (received_bytes (wire t)))
     \<and> (case authoritative (ts t) of
          Pending \<Rightarrow> False
        | PeerTerminal msg \<Rightarrow> True
        | CleanEof \<Rightarrow> received_bytes (wire t) = bytes_read t \<and> of_nat (length (bytes_read t)) = n
        | PrimaryError msg \<Rightarrow>
            msg = ''chunk send failed''
            \<or> (\<exists>text. wire t \<noteq> [] \<and> last (wire t) = file_error_frame FILE_DOWNLOAD_ERROR uuid text))"

definition step_ok :: "string \<Rightarrow> u64 \<Rightarrow> chunk_state \<Rightarrow> loop_step \<Rightarrow> transfer \<Rightarrow> bool" where
  "step_ok uuid n cs step t \<longleftrightarrow>
     (case step of
        Continue \<Rightarrow> accounted uuid n cs t
      | SetState cs' \<Rightarrow> accounted uuid n cs' t
      | Finish r \<Rightarrow> settled uuid n (t\<lparr>ts := set_authoritative r (ts t)\<rparr>)
      | Panicked \<Rightarrow> False)"

lemma peer_step_ok:
  assumes "accounted uuid n cs t" "peer_step t step t'"
  shows "step_ok uuid n cs step t'"
  using assms
  by (cases cs) (auto simp: peer_step_def step_ok_def accounted_def in_flight_def settled_def set_authoritative_def)

lemma accounted_peer: "accounted uuid n cs t \<Longrightarrow> peer_step t Continue t' \<Longrightarrow> accounted uuid n cs t'"
  by (auto simp: peer_step_def accounted_def in_flight_def split: chunk_state.splits)

lemma accounted_pending: "accounted uuid n cs t \<Longrightarrow> authoritative (ts t) = Pending"
  by (simp add: accounted_def)

lemma incoming_ok:
  assumes "accounted uuid n cs t"
  shows "handle_incoming_event i t = (step, t') \<Longrightarrow> step_ok uuid n cs step t'"
    and "wait_for_terminal_or_resume ready t = (step, t') \<Longrightarrow> step_ok uuid n cs step t'"
    and "finish_peer msg t = (step, t') \<Longrightarrow> step_ok uuid n cs step t'"
  using peer_step_ok [OF assms] accounted_pending [OF assms]
  by (blast intro: handle_incoming_step wait_step finish_peer_step)+

lemma drain_ok:
  assumes "accounted uuid n cs t" "drain_pending_incoming is t = (r, t')"
  shows "case r of None \<Rightarrow> accounted uuid n cs t' | Some step \<Rightarrow> step_ok uuid n cs step t'"
  using drain_step [OF accounted_pending [OF assms(1)] assms(2)] peer_step_ok [OF assms(1)] accounted_peer [OF assms(1)]
  by (auto split: option.splits)

lemma end_of_file_ok:
  assumes wf: "wf_str uuid" "length uuid < 2 ^ 64"
    and acc: "accounted uuid n Reading t" and step: "at_end_of_file uuid poll t = (step, t')"
  shows "step_ok uuid n Reading step t'"
proof (cases "transmitted_bytes (ts t) = expected_size (ts t)")
  case True
  have clean: "step_ok uuid n Reading (Finish CleanEof) t"
    using acc True by (auto simp: step_ok_def settled_def accounted_def in_flight_def set_authoritative_def)
  show ?thesis using step True acc clean incoming_ok [OF acc]
    by (auto simp: at_end_of_file_def accounted_pending split: option.splits sum.splits ws_frame.splits)
next
  case False
  then show ?thesis using step acc frame_payload_error [OF wf]
    by (auto simp: at_end_of_file_def Let_def step_ok_def settled_def accounted_def in_flight_def set_authoritative_def)
qed

lemma reading_phase_ok:
  assumes wf: "wf_str uuid" "length uuid < 2 ^ 64" and "bounded_read inp"
    and acc: "accounted uuid n Reading t" and step: "run_reading_phase uuid inp t = (step, t')"
  shows "step_ok uuid n Reading step t'"
proof -
  obtain r t1 where d: "drain_pending_incoming (in_drained inp) t = (r, t1)" by (metis prod.collapse)
  note ok = drain_ok [OF acc d]
  show ?thesis
  proof (cases r)
    case (Some s)
    with ok step d show ?thesis by (simp add: run_reading_phase_def)
  next
    case None
    with ok have acc1: "accounted uuid n Reading t1" by simp
    note s = step [unfolded run_reading_phase_def d None, simplified]
    show ?thesis
    proof (cases "is_paused t1 \<or> in_ready inp \<noteq> None")
      case True
      then show ?thesis using s incoming_ok [OF acc1] by (auto split: if_splits)
    next
      case False
      then have ready: "\<not> is_paused t1" "in_ready inp = None" by simp_all
      show ?thesis
      proof (cases "in_read inp")
        case (Inl e)
        then show ?thesis using s ready acc1 frame_payload_error [OF wf]
          by (auto simp: primary_def step_ok_def settled_def accounted_def in_flight_def set_authoritative_def)
      next
        case (Inr bs)
        then show ?thesis using s ready acc1 end_of_file_ok [OF wf acc1] assms(3)
          by (cases bs) (auto simp: step_ok_def accounted_def in_flight_def bounded_read_def)
      qed
    qed
  qed
qed

lemma sending_phase_ok:
  assumes wf: "wf_str uuid" "length uuid < 2 ^ 64" and "unambiguous_send inp"
    and acc: "accounted uuid n Sending t" and step: "run_sending_phase inp t = (step, t')"
  shows "step_ok uuid n Sending step t'"
proof -
  obtain r t1 where d: "drain_pending_incoming (in_drained inp) t = (r, t1)" by (metis prod.collapse)
  note ok = drain_ok [OF acc d]
  show ?thesis
  proof (cases r)
    case (Some s)
    with ok step d show ?thesis by (simp add: run_sending_phase_def)
  next
    case None
    with ok have acc1: "accounted uuid n Sending t1" by simp
    note s = step [unfolded run_sending_phase_def d None, simplified]
    obtain c where c: "pending_chunk_bytes (ts t1) = Some (chunk_data uuid c)" "length c \<le> DOWNLOAD_CHUNK_SIZE"
      "pending_chunk_len (ts t1) = length c" "bytes_read t1 = received_bytes (wire t1) @ c"
      using acc1 by (auto simp: accounted_def in_flight_def)
    have payload: "frame_payload (Binary (chunk_data uuid c)) = c"
      using frame_payload_chunk [OF wf, of c] c(2) by simp
    show ?thesis
    proof (cases "is_paused t1")
      case True
      then show ?thesis using s incoming_ok [OF acc1] by simp
    next
      case False
      show ?thesis
      proof (cases "in_send inp")
        case (Sent r)
        then show ?thesis using s False c payload acc1
          by (cases r) (auto simp: primary_def step_ok_def settled_def accounted_def in_flight_def set_authoritative_def)
      next
        case (Interrupted accepted i)
        then show ?thesis using s False c assms(3) incoming_ok [OF acc1]
          by (auto simp: unambiguous_send_def)
      qed
    qed
  qed
qed

lemma transfer_loop_ok:
  assumes wf: "wf_str uuid" "length uuid < 2 ^ 64"
  shows "(\<forall>inp\<in>set inps. bounded_read inp \<and> unambiguous_send inp) \<Longrightarrow> accounted uuid n cs t \<Longrightarrow>
    run_transfer_loop uuid cs inps t = (e, t') \<Longrightarrow>
    (case e of Running cs' \<Rightarrow> accounted uuid n cs' t' | Ended \<Rightarrow> settled uuid n t' | Crashed \<Rightarrow> False)"
proof (induction inps arbitrary: cs t)
  case Nil
  then show ?case by auto
next
  case (Cons inp inps)
  let ?p = "case cs of Reading \<Rightarrow> run_reading_phase uuid inp t | Sending \<Rightarrow> run_sending_phase inp t"
  obtain step t1 where p: "?p = (step, t1)" by (metis prod.collapse)
  have "step_ok uuid n cs step t1"
    using p reading_phase_ok [OF wf, of inp n t] sending_phase_ok [OF wf, of inp n t] Cons.prems
    by (cases cs) auto
  then show ?case using Cons.IH Cons.prems p by (cases step) (auto simp: step_ok_def)
qed

lemma transfer_end_cases:
  "(e = Running Reading \<Longrightarrow> P) \<Longrightarrow> (e = Running Sending \<Longrightarrow> P) \<Longrightarrow> (e = Ended \<Longrightarrow> P) \<Longrightarrow> (e = Crashed \<Longrightarrow> P) \<Longrightarrow> P"
  by (cases e) (auto intro: chunk_state.exhaust)

lemma accounted_start: "accounted uuid n Reading (transfer_start n)"
  by (simp add: accounted_def transfer_start_def transfer_new_def in_flight_def)

subsection \<open>Lemmas: pausing\<close>

definition no_resume :: "phase_input \<Rightarrow> bool" where
  "no_resume inp \<longleftrightarrow> (\<forall>i\<in>set (in_drained inp) \<union> set_option (in_ready inp). classify_incoming i \<noteq> EvResume)"

definition held :: "transfer \<Rightarrow> bool" where
  "held t \<longleftrightarrow> is_paused t \<and> \<not> resume_permit t"

text \<open>A held transfer stays held, with nothing read and nothing sent.\<close>

definition still_held :: "transfer \<Rightarrow> transfer \<Rightarrow> bool" where
  "still_held t t' \<longleftrightarrow> held t' \<and> wire t' = wire t \<and> bytes_read t' = bytes_read t"

lemma still_held_refl [simp]: "still_held t t \<longleftrightarrow> held t"
  by (simp add: still_held_def)

lemma still_held_trans: "still_held t t1 \<Longrightarrow> still_held t1 t2 \<Longrightarrow> still_held t t2"
  by (simp add: still_held_def)

lemma incoming_held:
  assumes "held t" "classify_incoming i \<noteq> EvResume" "handle_incoming_event i t = (step, t')"
  shows "still_held t t' \<and> (\<forall>cs. step \<noteq> SetState cs)"
  using assms
  by (auto simp: handle_incoming_event_def finish_peer_def still_held_def held_def
      split: incoming_event.splits prod.splits)

lemma drain_held:
  assumes "held t" "\<forall>i\<in>set is. classify_incoming i \<noteq> EvResume" "drain_pending_incoming is t = (r, t')"
  shows "still_held t t' \<and> (\<forall>cs. r \<noteq> Some (SetState cs))"
  using assms
proof (induction "is" t rule: drain_pending_incoming.induct)
  case (1 t)
  then show ?case by simp
next
  case (2 i "is" t)
  obtain step t1 where h: "handle_incoming_event i t = (step, t1)" by (metis prod.collapse)
  have p: "still_held t t1" "\<forall>cs. step \<noteq> SetState cs" using incoming_held [OF 2(2) _ h] 2(3) by auto
  then have "held t1" by (simp add: still_held_def)
  then show ?case using 2(1) [OF h [symmetric]] 2(3,4) h p by (cases "step = Continue") (auto intro: still_held_trans)
qed

lemma wait_held:
  assumes "held t" "no_resume inp" "wait_for_terminal_or_resume (in_ready inp) t = (step, t')"
  shows "still_held t t' \<and> (\<forall>cs. step \<noteq> SetState cs)"
  using assms incoming_held [OF assms(1)]
  by (cases "in_ready inp") (auto simp: wait_for_terminal_or_resume_def no_resume_def held_def still_held_def)

lemma phase_held:
  assumes "held t" "no_resume inp"
    and "(case cs of Reading \<Rightarrow> run_reading_phase uuid inp t | Sending \<Rightarrow> run_sending_phase inp t) = (step, t')"
  shows "still_held t t' \<and> (\<forall>cs'. step \<noteq> SetState cs')"
proof -
  obtain r t1 where d: "drain_pending_incoming (in_drained inp) t = (r, t1)" by (metis prod.collapse)
  have h: "still_held t t1" "\<forall>cs. r \<noteq> Some (SetState cs)"
    using drain_held [OF assms(1) _ d] assms(2) by (auto simp: no_resume_def)
  then have "held t1" by (simp add: still_held_def)
  moreover have "(case r of Some s \<Rightarrow> (s, t1) | None \<Rightarrow> wait_for_terminal_or_resume (in_ready inp) t1) = (step, t')"
    using assms(3) d \<open>held t1\<close>
    by (cases cs) (auto simp: run_reading_phase_def run_sending_phase_def held_def split: option.splits)
  ultimately show ?thesis using h wait_held [OF _ assms(2), of t1] still_held_trans by (cases r) auto
qed

lemma loop_held:
  "held t \<Longrightarrow> \<forall>inp\<in>set inps. no_resume inp \<Longrightarrow> run_transfer_loop uuid cs inps t = (e, t') \<Longrightarrow>
   wire t' = wire t \<and> bytes_read t' = bytes_read t"
proof (induction inps arbitrary: t)
  case Nil
  then show ?case by simp
next
  case (Cons inp inps)
  obtain step t1 where p: "(case cs of Reading \<Rightarrow> run_reading_phase uuid inp t | Sending \<Rightarrow> run_sending_phase inp t) = (step, t1)"
    by (metis prod.collapse)
  have h: "still_held t t1" "\<forall>cs'. step \<noteq> SetState cs'"
    using phase_held [OF Cons.prems(1) _ p] Cons.prems(2) by auto
  then show ?case using Cons p by (cases step) (auto simp: still_held_def)
qed

subsection \<open>Lemmas: an undisturbed transfer\<close>

definition quiet_input :: "bytes \<Rightarrow> phase_input" where
  "quiet_input d = \<lparr>in_drained = [], in_ready = None, in_read = Inr d, in_eof_poll = None, in_send = Sent (Inr ())\<rparr>"

definition undisturbed :: "bytes list \<Rightarrow> phase_input list" where
  "undisturbed chunks = concat (map (\<lambda>c. [quiet_input c, quiet_input c]) chunks) @ [quiet_input []]"

definition chunk_sent :: "string \<Rightarrow> bytes \<Rightarrow> transfer \<Rightarrow> transfer" where
  "chunk_sent uuid c t =
     t\<lparr>bytes_read := bytes_read t @ c,
       ts := (ts t)\<lparr>pending_chunk_bytes := None, pending_chunk_len := 0,
                    transmitted_bytes := transmitted_bytes (ts t) + of_nat (length c)\<rparr>,
       wire := wire t @ [Binary (chunk_data uuid c)]\<rparr>"

lemma undisturbed_chunk:
  assumes "c \<noteq> []" "\<not> is_paused t"
  shows "run_transfer_loop uuid Reading (quiet_input c # quiet_input c # inps) t
    = run_transfer_loop uuid Reading inps (chunk_sent uuid c t)"
  using assms by (cases c) (simp_all add: run_reading_phase_def run_sending_phase_def quiet_input_def chunk_sent_def)

lemma undisturbed_run:
  assumes "\<forall>c\<in>set chunks. c \<noteq> []" "\<not> is_paused t" "authoritative (ts t) = Pending"
    "expected_size (ts t) = transmitted_bytes (ts t) + of_nat (length (concat chunks))"
  shows "\<exists>t'. run_transfer_loop uuid Reading (undisturbed chunks) t = (Ended, t')
    \<and> authoritative (ts t') = CleanEof \<and> bytes_read t' = bytes_read t @ concat chunks"
  using assms
proof (induction chunks arbitrary: t)
  case Nil
  then show ?case
    by (simp add: undisturbed_def quiet_input_def run_reading_phase_def at_end_of_file_def set_authoritative_def)
next
  case (Cons c chunks)
  have "run_transfer_loop uuid Reading (undisturbed (c # chunks)) t
    = run_transfer_loop uuid Reading (undisturbed chunks) (chunk_sent uuid c t)"
    using undisturbed_chunk [of c t uuid "undisturbed chunks"] Cons.prems by (simp add: undisturbed_def)
  then show ?case using Cons.IH [of "chunk_sent uuid c t"] Cons.prems by (simp add: chunk_sent_def add.assoc)
qed

subsection \<open>Findings\<close>

definition control_frame :: "u32 \<Rightarrow> incoming" where
  "control_frame i = Some (Inr (Binary (get_data (message_new i Highest SYSTEM_SOURCE))))"

lemma classify_control:
  "classify_incoming (control_frame PAUSE_FILE_CHUNK_STREAM) = EvPause"
  "classify_incoming (control_frame RESUME_FILE_CHUNK_STREAM) = EvResume"
proof -
  have "wf_str SYSTEM_SOURCE" by (rule wf_str_ascii) auto
  then have "msg_id (from_data (header i SYSTEM_SOURCE)) = i" for i
    using from_data_header [of SYSTEM_SOURCE i "[]"] by simp
  then show "classify_incoming (control_frame PAUSE_FILE_CHUNK_STREAM) = EvPause"
    "classify_incoming (control_frame RESUME_FILE_CHUNK_STREAM) = EvResume"
    by (simp_all add: classify_incoming_def control_frame_def get_data_def message_new_data)
qed

text \<open>
  The resume notification is given by the task that would wait for it, while nothing waits, so its
  permit is always stored; the next pause consumes it and ends at once. After one pause and resume, a
  second pause with no resume after it does not stop the transfer: the next chunk is sent.
\<close>

lemma second_pause_is_lost:
  fixes c :: bytes
  assumes "c \<noteq> []"
  shows "\<exists>t. run_transfer_loop uuid Reading
      [(quiet_input [])\<lparr>in_drained := [control_frame PAUSE_FILE_CHUNK_STREAM], in_ready := Some (control_frame RESUME_FILE_CHUNK_STREAM)\<rparr>,
       (quiet_input [])\<lparr>in_drained := [control_frame PAUSE_FILE_CHUNK_STREAM]\<rparr>, quiet_input c, quiet_input c]
      (transfer_start n) = (Running Reading, t) \<and> wire t = [Binary (chunk_data uuid c)]"
  using assms
  by (cases c) (simp_all add: run_reading_phase_def run_sending_phase_def quiet_input_def transfer_start_def
      handle_incoming_event_def classify_control wait_for_terminal_or_resume_def)

text \<open>
  A chunk whose send is abandoned for an incoming message after the socket has taken it is sent again:
  the receiver gets it twice, while the counter and the result say that all went well.
\<close>

lemma interrupted_send_duplicates:
  assumes "wf_str uuid" "length uuid < 2 ^ 64"
  shows "\<exists>t. run_transfer_loop uuid Reading
      [quiet_input [7], (quiet_input [])\<lparr>in_send := Interrupted True (Some (Inr Ping))\<rparr>, quiet_input [], quiet_input []]
      (transfer_start 1) = (Ended, t)
    \<and> authoritative (ts t) = CleanEof \<and> transmitted_bytes (ts t) = 1 \<and> received_bytes (wire t) = [7, 7]"
  using frame_payload_chunk [OF assms, of "[7]"]
  by (simp add: received_bytes_def run_reading_phase_def run_sending_phase_def quiet_input_def transfer_start_def transfer_new_def
      handle_incoming_event_def classify_incoming_def at_end_of_file_def set_authoritative_def)

subsection \<open>Properties\<close>

text \<open>
  C22. A download delivers what it reads and accounts for it. Whatever the peer sends, however reads and
  sends fail and whenever the transfer is paused, the chunks on the wire are, in order and without loss
  or repetition, the bytes read from the file except for at most the chunk that is still pending, and the
  counter is their number; the pending chunk the sending phase expects is always there. A transfer that
  ends has a result; the clean result means that everything read was delivered and has the announced
  size, and a failure of the file or a wrong size is followed by an error frame as the last frame. The
  hypothesis is that no send is abandoned after the socket has taken the frame.
\<close>

theorem download_is_accounted:
  assumes "wf_str uuid" "length uuid < 2 ^ 64"
    and "\<forall>inp\<in>set inps. bounded_read inp \<and> unambiguous_send inp"
    and "run_transfer_loop uuid Reading inps (transfer_start file_size) = (e, t)"
  shows "e \<noteq> Crashed
    \<and> (\<exists>d. bytes_read t = received_bytes (wire t) @ d \<and> length d \<le> DOWNLOAD_CHUNK_SIZE
           \<and> (e = Running Reading \<longrightarrow> d = []))
    \<and> transmitted_bytes (ts t) = of_nat (length (received_bytes (wire t)))
    \<and> (e = Ended \<longrightarrow>
        (case authoritative (ts t) of
           Pending \<Rightarrow> False
         | PeerTerminal msg \<Rightarrow> True
         | CleanEof \<Rightarrow> received_bytes (wire t) = bytes_read t \<and> of_nat (length (bytes_read t)) = file_size
         | PrimaryError msg \<Rightarrow> msg = ''chunk send failed''
             \<or> (\<exists>text. wire t \<noteq> [] \<and> last (wire t) = file_error_frame FILE_DOWNLOAD_ERROR uuid text)))"
  using transfer_loop_ok [OF assms(1-3) accounted_start assms(4)]
  by (cases e rule: transfer_end_cases) (auto simp: accounted_def settled_def in_flight_def)

definition sample_run :: "phase_input list" where
  "sample_run = undisturbed [[1, 2], [3]]"

theorem download_is_accounted_witness:
  "\<exists>t. run_transfer_loop ''u'' Reading sample_run (transfer_start 3) = (Ended, t)
     \<and> authoritative (ts t) = CleanEof \<and> received_bytes (wire t) = [1, 2, 3]"
proof -
  have wf: "wf_str ''u''" by (rule wf_str_ascii) auto
  obtain t where t: "run_transfer_loop ''u'' Reading sample_run (transfer_start 3) = (Ended, t)"
    "authoritative (ts t) = CleanEof" "bytes_read t = [1, 2, 3]"
    using undisturbed_run [of "[[1, 2], [3]]" "transfer_start 3" "''u''"]
    by (auto simp: sample_run_def transfer_start_def transfer_new_def)
  have "\<forall>inp\<in>set sample_run. bounded_read inp \<and> unambiguous_send inp"
    by (simp add: sample_run_def undisturbed_def quiet_input_def bounded_read_def unambiguous_send_def)
  from download_is_accounted [OF wf _ this t(1)] t show ?thesis by auto
qed

text \<open>
  A pause is honoured. While a transfer is paused with no resume outstanding and the peer sends no
  resume, nothing is read from the file and nothing is sent, whatever else arrives and for however long.
\<close>

theorem pause_is_honoured:
  assumes "is_paused t" "\<not> resume_permit t" "\<forall>inp\<in>set inps. no_resume inp"
    and "run_transfer_loop uuid cs inps t = (e, t')"
  shows "wire t' = wire t \<and> bytes_read t' = bytes_read t"
  using loop_held [OF _ assms(3,4)] assms(1,2) by (simp add: held_def)

theorem pause_is_honoured_witness:
  "wire (snd (run_transfer_loop ''u'' Reading [quiet_input [1], quiet_input [1]] ((transfer_start 1)\<lparr>is_paused := True\<rparr>))) = []"
proof -
  let ?t = "(transfer_start 1)\<lparr>is_paused := True\<rparr>"
  obtain e t' where r: "run_transfer_loop ''u'' Reading [quiet_input [1], quiet_input [1]] ?t = (e, t')"
    by (metis prod.collapse)
  have "is_paused ?t" "\<not> resume_permit ?t" "\<forall>inp\<in>set [quiet_input [1], quiet_input [1]]. no_resume inp"
    by (simp_all add: transfer_start_def no_resume_def quiet_input_def)
  from pause_is_honoured [OF this r] r show ?thesis by (simp add: transfer_start_def)
qed

text \<open>
  C23. An undisturbed download completes. When the file is read in any sequence of nonempty chunks that
  add up to the announced size, the peer stays silent and every send succeeds, the loop ends with the
  clean result and the receiver has exactly the contents of the file.
\<close>

theorem undisturbed_download_completes:
  assumes "wf_str uuid" "length uuid < 2 ^ 64"
    and "\<forall>c\<in>set chunks. c \<noteq> [] \<and> length c \<le> DOWNLOAD_CHUNK_SIZE"
  shows "\<exists>t. run_transfer_loop uuid Reading (undisturbed chunks) (transfer_start (of_nat (length (concat chunks)))) = (Ended, t)
    \<and> authoritative (ts t) = CleanEof \<and> received_bytes (wire t) = concat chunks"
proof -
  let ?n = "of_nat (length (concat chunks)) :: u64"
  obtain t where t: "run_transfer_loop uuid Reading (undisturbed chunks) (transfer_start ?n) = (Ended, t)"
    "authoritative (ts t) = CleanEof" "bytes_read t = concat chunks"
    using undisturbed_run [of chunks "transfer_start ?n" uuid] assms(3)
    by (auto simp: transfer_start_def transfer_new_def)
  have "\<forall>inp\<in>set (undisturbed chunks). bounded_read inp \<and> unambiguous_send inp"
    using assms(3) by (auto simp: undisturbed_def quiet_input_def bounded_read_def unambiguous_send_def)
  from transfer_loop_ok [OF assms(1,2) this accounted_start t(1)] t show ?thesis by (simp add: settled_def)
qed

theorem undisturbed_download_completes_witness:
  "\<exists>t. run_transfer_loop ''u'' Reading (undisturbed [[1], [2, 3]]) (transfer_start 3) = (Ended, t)
     \<and> received_bytes (wire t) = [1, 2, 3]"
proof -
  have "wf_str ''u''" by (rule wf_str_ascii) auto
  with undisturbed_download_completes [of "''u''" "[[1], [2, 3]]"] show ?thesis by auto
qed

end
