(* ===== verification/File_Socket.thy ===== *)
theory File_Socket
  imports Files File_Transfer
begin

text \<open>
  The separate websocket of a file transfer, as \<^verbatim>\<open>src/src/src/files/mod.rs\<close> uses it for downloads and
  uploads: building the authenticated request, connecting, waiting for the server to be ready, and the
  error reports (on the file connection, or on the main connection when there is none). Whether a URL and
  a header value are well formed, and how connecting, sending and receiving go, is answered by the
  outside.
\<close>

definition build_file_ws_request :: "outside \<Rightarrow> string \<Rightarrow> string \<Rightarrow> (string \<times> string) result" where
  "build_file_ws_request env ws_endpoint token =
     (if \<not> o_valid_url env ws_endpoint then Inl ''invalid websocket endpoint''
      else if \<not> o_valid_header env (''Bearer '' @ token) then Inl ''invalid authorization header''
      else Inr (ws_endpoint, ''Bearer '' @ token))"

text \<open>A refused and a timed-out connection look the same to the caller.\<close>

definition connect_file_ws_raw :: "outside \<Rightarrow> string \<Rightarrow> string \<Rightarrow> bool io" where
  "connect_file_ws_raw env ws_endpoint uuid tr =
     (case build_file_ws_request env ws_endpoint uuid of
        Inl e \<Rightarrow> (False, tr)
      | Inr (url, auth) \<Rightarrow> ask_connect env url auth tr)"

definition validate_server_ready :: "outside \<Rightarrow> message result io" where
  "validate_server_ready env tr =
     (case ask_receive env tr of (handshake, tr') \<Rightarrow>
        (if o_timeout env tr' then Inl ''timeout waiting for SERVER_READY after 10s''
         else case handshake of
           Some (Inr (Binary d)) \<Rightarrow>
             (let m = from_data d
              in if msg_id m = SERVER_READY then Inr m
                 else Inl (''expected SERVER_READY, got '' @ show_nat (unat (msg_id m))))
         | Some (Inr _) \<Rightarrow> Inl ''expected binary SERVER_READY, got unexpected frame''
         | Some (Inl e) \<Rightarrow> Inl (''handshake error: '' @ e)
         | None \<Rightarrow> Inl ''server closed connection before sending SERVER_READY'',
         tr'))"

definition wait_for_server_ready :: "outside \<Rightarrow> message option io" where
  "wait_for_server_ready env tr =
     (case validate_server_ready env tr of
        (Inr m, tr') \<Rightarrow> (Some m, tr')
      | (Inl reason, tr') \<Rightarrow> (None, tr'))"

definition connect_file_ws :: "outside \<Rightarrow> string \<Rightarrow> string \<Rightarrow> bool io" where
  "connect_file_ws env ws_endpoint uuid tr =
     (case connect_file_ws_raw env ws_endpoint uuid tr of
        (False, tr1) \<Rightarrow> (False, tr1)
      | (True, tr1) \<Rightarrow>
          (case wait_for_server_ready env tr1 of (ready, tr2) \<Rightarrow> (ready \<noteq> None, tr2)))"

definition send_file_error :: "outside \<Rightarrow> string \<Rightarrow> string \<Rightarrow> u32 \<Rightarrow> trace \<Rightarrow> trace" where
  "send_file_error env uuid error_msg i tr = snd (ask_send env (file_error_frame i uuid error_msg) tr)"

definition queue_file_error_on_main_ws :: "string \<Rightarrow> string \<Rightarrow> u32 \<Rightarrow> trace \<Rightarrow> trace" where
  "queue_file_error_on_main_ws uuid error_msg i tr =
     emit_message uuid (get_data (push_string (message_new i Highest uuid) error_msg)) Highest tr"

subsection \<open>Lemmas\<close>

lemma session_connect_raw: "session_only tr (snd (connect_file_ws_raw env url uuid tr))"
  by (simp add: connect_file_ws_raw_def session_asks split: sum.split)

lemma session_ready: "session_only tr (snd (validate_server_ready env tr))"
  by (simp add: validate_server_ready_def ask_defs)

lemma session_wait: "session_only tr (snd (wait_for_server_ready env tr))"
  using session_ready [of tr env] by (auto simp: wait_for_server_ready_def split: prod.splits sum.splits)

lemma session_connect: "session_only tr (snd (connect_file_ws env url uuid tr))"
  using session_connect_raw [of tr env url uuid] session_wait [of _ env]
  by (auto simp: connect_file_ws_def split: prod.splits bool.splits) (metis snd_conv emits_trans)+

text \<open>A request is sent to the file server only with the bearer token of the transfer.\<close>

lemma connect_is_authenticated:
  "new_events tr (snd (connect_file_ws_raw env url uuid tr)) \<in> {[], [ConnectFile url (''Bearer '' @ uuid)]}"
  by (simp add: connect_file_ws_raw_def build_file_ws_request_def ask_defs new_events_def)

end
