(* ===== verification/Download.thy ===== *)
theory Download
  imports File_Socket
begin

text \<open>
  The download supervisor of \<^verbatim>\<open>src/src/src/files/mod.rs\<close>: connecting, the readiness check, finding and
  checking the file, announcing its size, opening it, the transfer loop of \<open>File_Transfer\<close>, and the closing
  handshake. The inputs of the transfer loop and the messages that arrive before the closing deadline
  are lists; the end of the latter is the deadline. The frames of the transfer appear in the trace in
  the order they were handed to the socket.
\<close>

type_synonym download_error = "string option \<times> string"

definition details_frame :: "string \<Rightarrow> u64 \<Rightarrow> ws_frame" where
  "details_frame uuid file_size =
     Binary (get_data (push_ulong (message_new FILE_DOWNLOAD_DETAILS Highest uuid) file_size))"

text \<open>
  The operations between the readiness check and the transfer. A failure carries the message for the
  peer, if one is sent, and the primary error.
\<close>

definition announce_file :: "outside \<Rightarrow> string \<Rightarrow> path \<Rightarrow> (download_error + u64) io" where
  "announce_file env uuid abs_path tr =
     (case ask_metadata env abs_path tr of
        (Inl e, tr1) \<Rightarrow> (Inl (Some (''Failed to get file metadata: '' @ e), ''metadata read failed''), tr1)
      | (Inr m, tr1) \<Rightarrow>
          if \<not> m_is_file m then (Inl (Some ''Path to file download is not a file'', ''path is not a file''), tr1)
          else
            (case ask_send env (details_frame uuid (m_len m)) tr1 of
               (Inl e, tr2) \<Rightarrow> (Inl (None, ''details send failed''), tr2)
             | (Inr _, tr2) \<Rightarrow>
                 (case ask_fs env (OpenFile abs_path) tr2 of
                    (Inl e, tr3) \<Rightarrow> (Inl (Some ''Failed to open file for download'', ''file open failed''), tr3)
                  | (Inr _, tr3) \<Rightarrow> (Inr (m_len m), tr3))))"

definition locate_file :: "outside \<Rightarrow> string \<Rightarrow> string \<Rightarrow> string \<Rightarrow> (download_error + u64) io" where
  "locate_file env uuid wd file_path tr =
     (case ask_canonicalize env (path_join (parse_path wd) (parse_path (trim_start_slashes file_path))) tr of
        (None, tr1) \<Rightarrow> (Inl (Some ''Path to file download does not exist'', ''canonicalize failed''), tr1)
      | (Some abs_path, tr1) \<Rightarrow>
          (case validate_path_is_within env abs_path (parse_path wd) tr1 of
             (False, tr2) \<Rightarrow>
               (Inl (Some ''Path to file download is outside the working directory'', ''path outside working directory''), tr2)
           | (True, tr2) \<Rightarrow> announce_file env uuid abs_path tr2))"

definition prepare_download ::
  "outside \<Rightarrow> i64 \<Rightarrow> string \<Rightarrow> string \<Rightarrow> string \<Rightarrow> (download_error + u64) io" where
  "prepare_download env job_id uuid hash file_path tr =
     (case validate_server_ready env tr of
        (Inl reason, tr1) \<Rightarrow>
          (Inl (Some (''SERVER_READY validation failed: '' @ reason), ''SERVER_READY validation failed: '' @ reason), tr1)
      | (Inr m, tr1) \<Rightarrow>
          (case resolve_working_directory_for_job env job_id hash (JString file_path) ''file_download'' tr1 of
             (Inl err, tr2) \<Rightarrow> (Inl (Some (client_message err), ''job lookup failed: '' @ client_message err), tr2)
           | (Inr wd, tr2) \<Rightarrow> locate_file env uuid wd file_path tr2))"

text \<open>The closing handshake; it returns the result it was given.\<close>

fun await_close :: "incoming list \<Rightarrow> trace \<Rightarrow> trace" where
  "await_close [] tr = tr"
| "await_close (i # is) tr =
     (case i of
        Some (Inr Close) \<Rightarrow> tr @ [ReceiveFile]
      | Some (Inr _) \<Rightarrow> await_close is (tr @ [ReceiveFile])
      | Some (Inl e) \<Rightarrow> tr @ [ReceiveFile]
      | None \<Rightarrow> tr @ [ReceiveFile])"

definition cleanup_download :: "outside \<Rightarrow> incoming list \<Rightarrow> authoritative_result \<Rightarrow> authoritative_result io" where
  "cleanup_download env acks result tr =
     (case ask_send env Close tr of
        (Inl e, tr1) \<Rightarrow> (result, tr1)
      | (Inr _, tr1) \<Rightarrow> (result, await_close acks tr1))"

definition fail_download ::
  "outside \<Rightarrow> incoming list \<Rightarrow> string \<Rightarrow> download_error \<Rightarrow> authoritative_result io" where
  "fail_download env acks uuid err tr =
     (case err of (error_msg, primary_msg) \<Rightarrow>
        cleanup_download env acks (PrimaryError primary_msg)
          (case error_msg of None \<Rightarrow> tr | Some msg \<Rightarrow> send_file_error env uuid msg FILE_DOWNLOAD_ERROR tr))"

datatype download_end = NotConnected | Downloading | Downloaded authoritative_result | DownloadPanicked

definition transfer_file ::
  "outside \<Rightarrow> phase_input list \<Rightarrow> incoming list \<Rightarrow> string \<Rightarrow> u64 \<Rightarrow> download_end io" where
  "transfer_file env inps acks uuid file_size tr =
     (case run_transfer_loop uuid Reading inps (transfer_start file_size) of
        (Running cs, t) \<Rightarrow> (Downloading, tr @ map SendFile (wire t))
      | (Crashed, t) \<Rightarrow> (DownloadPanicked, tr @ map SendFile (wire t))
      | (Ended, t) \<Rightarrow>
          (case cleanup_download env acks (authoritative (ts t)) (tr @ map SendFile (wire t)) of
             (r, tr') \<Rightarrow> (Downloaded r, tr')))"

definition run_download_supervisor ::
  "outside \<Rightarrow> phase_input list \<Rightarrow> incoming list \<Rightarrow> i64 \<Rightarrow> string \<Rightarrow> string \<Rightarrow> string \<Rightarrow> string \<Rightarrow> download_end io" where
  "run_download_supervisor env inps acks job_id uuid hash file_path ws_endpoint tr =
     (case connect_file_ws_raw env ws_endpoint uuid tr of
        (False, tr1) \<Rightarrow>
          (NotConnected, queue_file_error_on_main_ws uuid ''Failed to connect to file websocket'' FILE_DOWNLOAD_ERROR tr1)
      | (True, tr1) \<Rightarrow>
          (case prepare_download env job_id uuid hash file_path tr1 of
             (Inl err, tr2) \<Rightarrow> (case fail_download env acks uuid err tr2 of (r, tr3) \<Rightarrow> (Downloaded r, tr3))
           | (Inr file_size, tr2) \<Rightarrow> transfer_file env inps acks uuid file_size tr2))"

definition handle_file_download ::
  "outside \<Rightarrow> phase_input list \<Rightarrow> incoming list \<Rightarrow> message \<Rightarrow> string \<Rightarrow> download_end io" where
  "handle_file_download env inps acks msg ws_endpoint tr =
     (case pop_uint msg of (job_id, m1) \<Rightarrow>
      case pop_string m1 of (uuid, m2) \<Rightarrow>
      case pop_string m2 of (hash, m3) \<Rightarrow>
      case pop_string m3 of (file_path, m4) \<Rightarrow>
        run_download_supervisor env inps acks (ucast job_id) uuid hash file_path ws_endpoint tr)"

subsection \<open>Lemmas: the preparation\<close>

text \<open>
  What the preparation leaves in the trace: questions, then possibly the announcement, then possibly
  the opening of a file that has been checked.
\<close>

definition download_checked :: "outside \<Rightarrow> i64 \<Rightarrow> string \<Rightarrow> string \<Rightarrow> path \<Rightarrow> bool" where
  "download_checked env job_id hash file_path p \<longleftrightarrow>
     (\<exists>wd tr0 tr1 tr2 q. fst (resolve_working_directory_for_job env job_id hash (JString file_path) ''file_download'' tr0) = Inr wd
        \<and> o_canonicalize env (tr1 @ [Canonicalize q]) = Some p
        \<and> fst (validate_path_is_within env p (parse_path wd) tr2))"

definition prepared ::
  "outside \<Rightarrow> (path \<Rightarrow> bool) \<Rightarrow> string \<Rightarrow> trace \<Rightarrow> (download_error + u64) \<times> trace \<Rightarrow> bool" where
  "prepared env ok uuid tr result \<longleftrightarrow>
     (\<exists>es. list_all session_event es \<and>
        ((\<exists>msg m. result = (Inl (Some msg, m), tr @ es))
         \<or> (\<exists>p n. ok p \<and>
              (result = (Inl (None, ''details send failed''), tr @ es @ [SendFile (details_frame uuid n)])
               \<or> (\<exists>msg m. result = (Inl (Some msg, m), tr @ es @ [SendFile (details_frame uuid n), OpenFile p]))
               \<or> result = (Inr n, tr @ es @ [SendFile (details_frame uuid n), OpenFile p])
                 \<and> o_fs env (tr @ es @ [SendFile (details_frame uuid n), OpenFile p]) = Inr ()))))"

lemma prepared_trans:
  assumes "session_only tr tr1" "prepared env ok uuid tr1 res"
  shows "prepared env ok uuid tr res"
proof -
  obtain es1 where 1: "tr1 = tr @ es1" "list_all session_event es1" using assms(1) by (auto simp: emits_only_def)
  obtain es where "list_all session_event es" "(\<exists>msg m. res = (Inl (Some msg, m), tr1 @ es))
         \<or> (\<exists>p n. ok p \<and> (res = (Inl (None, ''details send failed''), tr1 @ es @ [SendFile (details_frame uuid n)])
               \<or> (\<exists>msg m. res = (Inl (Some msg, m), tr1 @ es @ [SendFile (details_frame uuid n), OpenFile p]))
               \<or> res = (Inr n, tr1 @ es @ [SendFile (details_frame uuid n), OpenFile p])
                 \<and> o_fs env (tr1 @ es @ [SendFile (details_frame uuid n), OpenFile p]) = Inr ()))"
    using assms(2) unfolding prepared_def by blast
  then show ?thesis unfolding prepared_def using 1 by (intro exI [of _ "es1 @ es"]) simp
qed

lemma prepared_early: "session_only tr tr1 \<Longrightarrow> prepared env ok uuid tr (Inl (Some msg, m), tr1)"
  by (auto simp: prepared_def emits_only_def)

lemma announce_prepared:
  assumes "ok p"
  shows "prepared env ok uuid tr (announce_file env uuid p tr)"
proof -
  have "session_only tr (tr @ [StatPath p])" by simp
  moreover have "prepared env ok uuid (tr @ [StatPath p]) (announce_file env uuid p tr)"
    using assms unfolding prepared_def
    by (intro exI [of _ "[]"]) (auto simp: announce_file_def ask_defs split: sum.split)
  ultimately show ?thesis by (rule prepared_trans)
qed

lemma locate_prepared:
  assumes "\<And>p q tr1 tr2. o_canonicalize env (tr1 @ [Canonicalize q]) = Some p \<Longrightarrow>
    fst (validate_path_is_within env p (parse_path wd) tr2) \<Longrightarrow> ok p"
  shows "prepared env ok uuid tr (locate_file env uuid wd file_path tr)"
proof -
  let ?q = "path_join (parse_path wd) (parse_path (trim_start_slashes file_path))"
  have s1: "session_only tr (tr @ [Canonicalize ?q])" by simp
  show ?thesis
  proof (cases "o_canonicalize env (tr @ [Canonicalize ?q])")
    case None
    then show ?thesis using prepared_early [OF s1] by (simp add: locate_file_def ask_defs)
  next
    case (Some p)
    obtain v tr2 where v: "validate_path_is_within env p (parse_path wd) (tr @ [Canonicalize ?q]) = (v, tr2)"
      by (metis prod.collapse)
    have s2: "session_only tr tr2"
      using emits_trans [OF s1] session_validate [of "tr @ [Canonicalize ?q]" env p "parse_path wd"] v by simp
    have "prepared env ok uuid tr (announce_file env uuid p tr2)" if v
      using prepared_trans [OF s2 announce_prepared] assms [OF Some, of "tr @ [Canonicalize ?q]"] v that by simp
    then show ?thesis using Some v prepared_early [OF s2]
      by (cases v) (simp_all add: locate_file_def ask_defs)
  qed
qed

lemma prepare_prepared:
  "prepared env (download_checked env job_id hash file_path) uuid tr (prepare_download env job_id uuid hash file_path tr)"
proof -
  obtain r tr1 where r: "validate_server_ready env tr = (r, tr1)" by (metis prod.collapse)
  have s1: "session_only tr tr1" using session_ready [of tr env] r by simp
  obtain w tr2 where w: "resolve_working_directory_for_job env job_id hash (JString file_path) ''file_download'' tr1 = (w, tr2)"
    by (metis prod.collapse)
  have s2: "session_only tr tr2"
    using emits_trans [OF s1] session_resolve [of tr1 env job_id hash "JString file_path" "''file_download''"] w by simp
  have "prepared env (download_checked env job_id hash file_path) uuid tr2 (locate_file env uuid wd file_path tr2)"
    if "w = Inr wd" for wd
  proof (rule locate_prepared)
    have "fst (resolve_working_directory_for_job env job_id hash (JString file_path) ''file_download'' tr1) = Inr wd"
      using w that by simp
    then show "download_checked env job_id hash file_path p"
      if "o_canonicalize env (t1 @ [Canonicalize q]) = Some p" "fst (validate_path_is_within env p (parse_path wd) t2)" for p q t1 t2
      unfolding download_checked_def using that by blast
  qed
  then show ?thesis
    using r w prepared_early [OF s1] prepared_early [OF s2] prepared_trans [OF s2]
    by (cases r; cases w) (simp_all add: prepare_download_def)
qed

subsection \<open>Lemmas: closing\<close>

lemma await_close_receives: "emits_only (\<lambda>e. e = ReceiveFile) tr (await_close acks tr)"
proof (induction acks tr rule: await_close.induct)
  case (2 i acks tr)
  have "emits_only (\<lambda>e. e = ReceiveFile) tr (await_close acks (tr @ [ReceiveFile]))" if "i = Some (Inr f)" "f \<noteq> Close" for f
    using emits_trans [of _ tr "tr @ [ReceiveFile]"] 2 that by (cases f) simp_all
  then show ?case by (auto split: option.split sum.split ws_frame.split)
qed simp

lemma cleanup_closes:
  "\<exists>post. cleanup_download env acks r tr = (r, tr @ SendFile Close # post) \<and> list_all (\<lambda>e. e = ReceiveFile) post"
  using await_close_receives [of "tr @ [SendFile Close]" acks]
  by (auto simp: cleanup_download_def ask_defs emits_only_def split: sum.split)

text \<open>The frames among the events of a file connection.\<close>

fun sent_frame :: "event \<Rightarrow> ws_frame list" where
  "sent_frame (SendFile f) = [f]"
| "sent_frame _ = []"

definition sent_frames :: "trace \<Rightarrow> ws_frame list" where
  "sent_frames es = concat (map sent_frame es)"

lemma sent_frames_simps [simp]:
  "sent_frames [] = []" "sent_frames (e # es) = sent_frame e @ sent_frames es"
  "sent_frames (es @ fs) = sent_frames es @ sent_frames fs" "sent_frames (map SendFile frames) = frames"
  by (simp_all add: sent_frames_def, induction frames, simp_all)

lemma session_sends_nothing: "list_all session_event es \<Longrightarrow> sent_frames es = []"
proof (induction es)
  case (Cons e es)
  then show ?case by (cases e) simp_all
qed simp

lemma receives_send_nothing: "list_all (\<lambda>e. e = ReceiveFile) es \<Longrightarrow> sent_frames es = []"
  by (induction es) simp_all

text \<open>How a connected download ends, by the frames it has sent.\<close>

lemma fail_download_frames:
  "\<exists>post. fail_download env acks uuid (err, m) tr = (PrimaryError m, tr @ post)
     \<and> sent_frames post = (case err of None \<Rightarrow> [] | Some msg \<Rightarrow> [file_error_frame FILE_DOWNLOAD_ERROR uuid msg]) @ [Close]
     \<and> (\<forall>p. OpenFile p \<notin> set post)"
proof (cases err)
  case None
  obtain post where "cleanup_download env acks (PrimaryError m) tr = (PrimaryError m, tr @ SendFile Close # post)"
    "list_all (\<lambda>e. e = ReceiveFile) post" using cleanup_closes by blast
  then show ?thesis using None receives_send_nothing [of post]
    by (auto simp: fail_download_def list_all_iff)
next
  case (Some msg)
  let ?tr = "tr @ [SendFile (file_error_frame FILE_DOWNLOAD_ERROR uuid msg)]"
  obtain post where "cleanup_download env acks (PrimaryError m) ?tr = (PrimaryError m, ?tr @ SendFile Close # post)"
    "list_all (\<lambda>e. e = ReceiveFile) post" using cleanup_closes by blast
  then show ?thesis using Some receives_send_nothing [of post]
    by (auto simp: fail_download_def send_file_error_def ask_defs list_all_iff)
qed

lemma transfer_file_ended:
  assumes "transfer_file env inps acks uuid n tr = (Downloaded r, tr')"
  shows "\<exists>t post. run_transfer_loop uuid Reading inps (transfer_start n) = (Ended, t) \<and> r = authoritative (ts t)
    \<and> tr' = tr @ map SendFile (wire t) @ SendFile Close # post \<and> sent_frames post = []"
proof -
  obtain e t where loop: "run_transfer_loop uuid Reading inps (transfer_start n) = (e, t)" by (metis prod.collapse)
  with assms have ended: "e = Ended"
    by (cases e) (auto simp: transfer_file_def split: prod.splits)
  obtain post where "cleanup_download env acks (authoritative (ts t)) (tr @ map SendFile (wire t))
      = (authoritative (ts t), (tr @ map SendFile (wire t)) @ SendFile Close # post)" "list_all (\<lambda>e. e = ReceiveFile) post"
    using cleanup_closes by blast
  then show ?thesis using assms loop ended receives_send_nothing by (auto simp: transfer_file_def)
qed

lemma transfer_file_opens_nothing:
  "\<exists>es. snd (transfer_file env inps acks uuid n tr) = tr @ es \<and> (\<forall>p. OpenFile p \<notin> set es)"
proof -
  obtain e t where loop: "run_transfer_loop uuid Reading inps (transfer_start n) = (e, t)" by (metis prod.collapse)
  obtain post where "cleanup_download env acks (authoritative (ts t)) (tr @ map SendFile (wire t))
      = (authoritative (ts t), (tr @ map SendFile (wire t)) @ SendFile Close # post)" "list_all (\<lambda>e. e = ReceiveFile) post"
    using cleanup_closes by blast
  then show ?thesis using loop by (cases e) (auto simp: transfer_file_def list_all_iff)
qed

lemma prepare_frames:
  assumes "prepare_download env job_id uuid hash file_path tr = (q, tr')"
  shows "\<exists>es. sent_frames es = [] \<and>
    ((\<exists>msg m. q = Inl (Some msg, m)) \<and> tr' = tr @ es
     \<or> (\<exists>n. q = Inl (None, ''details send failed'') \<and> tr' = tr @ es @ [SendFile (details_frame uuid n)])
     \<or> (\<exists>n p. ((\<exists>msg m. q = Inl (Some msg, m)) \<or> q = Inr n) \<and> tr' = tr @ es @ [SendFile (details_frame uuid n), OpenFile p]))"
proof -
  obtain es where es: "list_all session_event es"
    "(\<exists>msg m. q = Inl (Some msg, m)) \<and> tr' = tr @ es
     \<or> (\<exists>n. q = Inl (None, ''details send failed'') \<and> tr' = tr @ es @ [SendFile (details_frame uuid n)])
     \<or> (\<exists>n p. ((\<exists>msg m. q = Inl (Some msg, m)) \<or> q = Inr n) \<and> tr' = tr @ es @ [SendFile (details_frame uuid n), OpenFile p])"
    using prepare_prepared [of env job_id hash file_path uuid tr] unfolding assms prepared_def by blast
  then show ?thesis using session_sends_nothing by (intro exI [of _ es]) simp
qed

lemma prepare_opens:
  assumes "prepare_download env job_id uuid hash file_path tr = (q, tr')"
  shows "\<exists>es. tr' = tr @ es \<and> (\<forall>p. OpenFile p \<in> set es \<longrightarrow> download_checked env job_id hash file_path p)"
proof -
  have none: "OpenFile p \<notin> set es" if "list_all session_event es" for es p
    using that by (auto simp: list_all_iff)
  obtain es where "list_all session_event es"
    "tr' = tr @ es \<or> (\<exists>p n. download_checked env job_id hash file_path p \<and>
        (tr' = tr @ es @ [SendFile (details_frame uuid n)] \<or> tr' = tr @ es @ [SendFile (details_frame uuid n), OpenFile p]))"
    using prepare_prepared [of env job_id hash file_path uuid tr] unfolding assms prepared_def by blast
  then show ?thesis using none [of es] by auto
qed

subsection \<open>A sample session\<close>

definition download_outside :: outside where
  "download_outside = quiet_outside\<lparr>o_connect := (\<lambda>_. True), o_string := (\<lambda>_. ''/w''),
     o_receive := (\<lambda>_. Some (Inr (Binary (get_data (message_new SERVER_READY Highest SYSTEM_SOURCE))))),
     o_canonicalize := (\<lambda>tr. case last tr of Canonicalize p \<Rightarrow> Some p | _ \<Rightarrow> None),
     o_metadata := (\<lambda>_. Inr \<lparr>m_is_dir = False, m_is_file = True, m_is_symlink = False, m_len = 3\<rparr>)\<rparr>"

lemma download_outside_answers:
  "o_connect download_outside tr" "o_string download_outside tr = ''/w''" "o_valid_url download_outside url"
  "o_valid_header download_outside h" "\<not> o_timeout download_outside tr" "o_send download_outside tr = Inr ()"
  "o_fs download_outside tr = Inr ()" "o_canonicalize download_outside (tr @ [Canonicalize p]) = Some p"
  "o_metadata download_outside tr = Inr \<lparr>m_is_dir = False, m_is_file = True, m_is_symlink = False, m_len = 3\<rparr>"
  "o_receive download_outside tr = Some (Inr (Binary (header SERVER_READY SYSTEM_SOURCE)))"
  by (simp_all add: download_outside_def quiet_outside_def get_data_def message_new_data)

lemma download_outside_session:
  "\<exists>tr. run_download_supervisor download_outside inps acks 0 ''u'' [] ''/f'' ''ws'' [] = transfer_file download_outside inps acks ''u'' 3 tr
     \<and> OpenFile [RootDir, Normal ''w'', Normal ''f''] \<in> set tr"
proof -
  have "wf_str SYSTEM_SOURCE" by (rule wf_str_ascii) auto
  then have ready: "msg_id (from_data (header SERVER_READY SYSTEM_SOURCE)) = SERVER_READY"
    using from_data_header [of SYSTEM_SOURCE SERVER_READY "[]"] by simp
  have target: "path_join [RootDir, Normal ''w''] (parse_path (trim_start_slashes ''/f'')) = [RootDir, Normal ''w'', Normal ''f'']"
    "parse_path ''/w'' = [RootDir, Normal ''w'']"
    by (simp_all add: parse_path_def path_join_def trim_start_slashes_def component_of_def)
  show ?thesis
    using download_outside_answers(8) [of "[ConnectFile ''ws'' ''Bearer u'', ReceiveFile, RunBundle ''working_directory'' [] (JString ''/f'') ''file_download'']"]
      download_outside_answers(8) [of "[ConnectFile ''ws'' ''Bearer u'', ReceiveFile, RunBundle ''working_directory'' [] (JString ''/f'') ''file_download'',
          Canonicalize [RootDir, Normal ''w'', Normal ''f'']]" "[RootDir, Normal ''w'']"]
      download_outside_answers(8) [of "[ConnectFile ''ws'' ''Bearer u'', ReceiveFile, RunBundle ''working_directory'' [] (JString ''/f'') ''file_download'',
          Canonicalize [RootDir, Normal ''w'', Normal ''f''], Canonicalize [RootDir, Normal ''w'']]" "[RootDir, Normal ''w'', Normal ''f'']"]
    by (auto simp: run_download_supervisor_def connect_file_ws_raw_def build_file_ws_request_def prepare_download_def
        validate_server_ready_def resolve_working_directory_for_job_def resolve_working_directory_def locate_file_def
        announce_file_def validate_path_is_within_def ask_defs download_outside_answers ready target starts_with_def
        intro!: exI)
qed

subsection \<open>Properties\<close>

text \<open>A connected download that has ended failed in its preparation or went through the transfer loop.\<close>

lemma ended_download_cases:
  assumes run: "run_download_supervisor env inps acks job_id uuid hash file_path url tr = (Downloaded r, tr')"
  obtains (failed) es frames m where "tr' = tr @ es" "sent_frames es = frames @ [Close]" "r = PrimaryError m"
      "m = ''details send failed'' \<or> (\<exists>msg. frames \<noteq> [] \<and> last frames = file_error_frame FILE_DOWNLOAD_ERROR uuid msg)"
  | (transferred) es n t where "tr' = tr @ es" "sent_frames es = (details_frame uuid n # wire t) @ [Close]"
      "run_transfer_loop uuid Reading inps (transfer_start n) = (Ended, t)" "r = authoritative (ts t)"
proof -
  obtain c tr1 where c: "connect_file_ws_raw env url uuid tr = (c, tr1)" by (metis prod.collapse)
  then have c': "connect_file_ws_raw env url uuid tr = (True, tr1)" using run by (cases c) (auto simp: run_download_supervisor_def)
  obtain es1 where es1: "tr1 = tr @ es1" "sent_frames es1 = []"
    using session_connect_raw [of tr env url uuid] c session_sends_nothing by (auto simp: emits_only_def)
  obtain q tr2 where q: "prepare_download env job_id uuid hash file_path tr1 = (q, tr2)" by (metis prod.collapse)
  from prepare_frames [OF q] obtain es where es: "sent_frames es = []"
    "(\<exists>msg m. q = Inl (Some msg, m)) \<and> tr2 = tr1 @ es
     \<or> (\<exists>n. q = Inl (None, ''details send failed'') \<and> tr2 = tr1 @ es @ [SendFile (details_frame uuid n)])
     \<or> (\<exists>n p. ((\<exists>msg m. q = Inl (Some msg, m)) \<or> q = Inr n) \<and> tr2 = tr1 @ es @ [SendFile (details_frame uuid n), OpenFile p])"
    by blast
  show thesis
  proof (cases q)
    case (Inl err)
    obtain e m where err: "err = (e, m)" by (cases err)
    obtain post where post: "fail_download env acks uuid (e, m) tr2 = (PrimaryError m, tr2 @ post)"
      "sent_frames post = (case e of None \<Rightarrow> [] | Some msg \<Rightarrow> [file_error_frame FILE_DOWNLOAD_ERROR uuid msg]) @ [Close]"
      using fail_download_frames by blast
    have "r = PrimaryError m" "tr' = tr2 @ post" using run c' q Inl err post by (auto simp: run_download_supervisor_def)
    then show thesis using es es1 Inl err post
      by (intro failed [of "drop (length tr) tr'" "butlast (sent_frames (drop (length tr) tr'))" m]) (auto split: option.splits)
  next
    case (Inr n)
    have "transfer_file env inps acks uuid n tr2 = (Downloaded r, tr')" using run c' q Inr by (simp add: run_download_supervisor_def)
    from transfer_file_ended [OF this] obtain t post where t: "run_transfer_loop uuid Reading inps (transfer_start n) = (Ended, t)"
      "r = authoritative (ts t)" "tr' = tr2 @ map SendFile (wire t) @ SendFile Close # post" "sent_frames post = []" by blast
    from es(2) Inr obtain p where "tr2 = tr1 @ es @ [SendFile (details_frame uuid n), OpenFile p]" by auto
    with t es1 es(1) show thesis
      by (intro transferred [of "es1 @ es @ [SendFile (details_frame uuid n), OpenFile p] @ map SendFile (wire t) @ SendFile Close # post" n t])
        simp_all
  qed
qed



text \<open>
  C25. Only files inside the working directory are opened for download. Whatever path the request
  names, symbolic links included, a file that the supervisor opens lies, in the state of the file system
  the check was made in, below the canonical form of the working directory the request resolves to.
\<close>

theorem download_stays_inside:
  assumes "fs_answers env canon ex" "\<forall>p q. canon p = Some q \<longrightarrow> canon q = Some q"
  shows "\<exists>es. snd (run_download_supervisor env inps acks job_id uuid hash file_path url tr) = tr @ es \<and>
    (\<forall>p. OpenFile p \<in> set es \<longrightarrow>
       (\<exists>wd w tr0. fst (resolve_working_directory_for_job env job_id hash (JString file_path) ''file_download'' tr0) = Inr wd
          \<and> canon (parse_path wd) = Some w \<and> prefix w p))"
proof -
  have ok: "\<exists>wd w tr0. fst (resolve_working_directory_for_job env job_id hash (JString file_path) ''file_download'' tr0) = Inr wd
      \<and> canon (parse_path wd) = Some w \<and> prefix w p" if checked: "download_checked env job_id hash file_path p" for p
  proof -
    obtain wd tr0 tr1 tr2 q where w: "fst (resolve_working_directory_for_job env job_id hash (JString file_path) ''file_download'' tr0) = Inr wd"
      "o_canonicalize env (tr1 @ [Canonicalize q]) = Some p" "fst (validate_path_is_within env p (parse_path wd) tr2)"
      using checked unfolding download_checked_def by blast
    have "canon p = Some p" using w(2) assms by (auto simp: fs_answers_def)
    then show ?thesis using validate_inside [OF assms(1) w(3)] w(1) by (auto simp: inside_def)
  qed
  obtain c tr1 where c: "connect_file_ws_raw env url uuid tr = (c, tr1)" by (metis prod.collapse)
  obtain es1 where es1: "tr1 = tr @ es1" "\<forall>p. OpenFile p \<notin> set es1"
    using session_connect_raw [of tr env url uuid] c by (fastforce simp: emits_only_def list_all_iff)
  obtain q tr2 where q: "prepare_download env job_id uuid hash file_path tr1 = (q, tr2)" by (metis prod.collapse)
  obtain es2 where es2: "tr2 = tr1 @ es2" "\<forall>p. OpenFile p \<in> set es2 \<longrightarrow> download_checked env job_id hash file_path p"
    using prepare_opens [OF q] by blast
  have failed: "\<exists>es. snd (fail_download env acks uuid err tr2) = tr2 @ es \<and> (\<forall>p. OpenFile p \<notin> set es)" for err
    using fail_download_frames [of env acks uuid "fst err" "snd err" tr2] by auto
  have "\<exists>es3. snd (run_download_supervisor env inps acks job_id uuid hash file_path url tr) = (if c then tr2 else tr1) @ es3
      \<and> (\<forall>p. OpenFile p \<notin> set es3)"
  proof -
    have "snd (run_download_supervisor env inps acks job_id uuid hash file_path url tr) =
        (if c then (case q of Inl err \<Rightarrow> snd (fail_download env acks uuid err tr2) | Inr n \<Rightarrow> snd (transfer_file env inps acks uuid n tr2))
         else queue_file_error_on_main_ws uuid ''Failed to connect to file websocket'' FILE_DOWNLOAD_ERROR tr1)"
      using c q by (cases c; cases q) (simp_all add: run_download_supervisor_def split: prod.split)
    then show ?thesis using failed transfer_file_opens_nothing [of env inps acks uuid _ tr2]
      by (cases c; cases q) (simp_all add: queue_file_error_on_main_ws_def emit_message_def)
  qed
  then show ?thesis using es1 es2 ok by (cases c) fastforce+
qed

theorem download_stays_inside_witness:
  "OpenFile [RootDir, Normal ''w'', Normal ''f''] \<in> set (snd (run_download_supervisor download_outside [] [] 0 ''u'' [] ''/f'' ''ws'' []))
   \<and> (\<exists>w. prefix w [RootDir, Normal ''w'', Normal ''f''])"
proof -
  have fs: "fs_answers download_outside Some (\<lambda>_. False)"
    by (simp add: fs_answers_def download_outside_def quiet_outside_def)
  obtain tr where "run_download_supervisor download_outside [] [] 0 ''u'' [] ''/f'' ''ws'' [] = transfer_file download_outside [] [] ''u'' 3 tr"
    "OpenFile [RootDir, Normal ''w'', Normal ''f''] \<in> set tr"
    using download_outside_session by blast
  then have "OpenFile [RootDir, Normal ''w'', Normal ''f''] \<in> set (snd (run_download_supervisor download_outside [] [] 0 ''u'' [] ''/f'' ''ws'' []))"
    by (simp add: transfer_file_def)
  with download_stays_inside [OF fs, of "[]" "[]" 0 "''u''" "[]" "''/f''" "''ws''" "[]"] show ?thesis by auto
qed

end
