(* ===== verification/Upload.thy ===== *)
theory Upload
  imports File_Socket
begin

text \<open>
  File uploads, \<^verbatim>\<open>handle_file_upload\<close> of \<^verbatim>\<open>src/src/src/files/mod.rs\<close>: connecting, the ready
  acknowledgement, finding and checking the target path, creating the file, the receive loop with its
  size guard, finalization, and the removal of the partial file on every failure. The messages the
  receive loop gets are a list, so that a run over the list is what has happened after these messages;
  every write, flush, sync, send and removal is an event whose outcome the outside decides.
\<close>

record upload_fields =
  up_uuid :: string
  up_job_id :: i64
  up_bundle_hash :: string
  up_target_path :: string
  up_file_size :: u64

definition parse_upload_fields :: "message \<Rightarrow> upload_fields" where
  "parse_upload_fields msg =
     (case pop_uint msg of (job_id, m1) \<Rightarrow>
      case pop_string m1 of (hash, m2) \<Rightarrow>
      case pop_string m2 of (target, m3) \<Rightarrow>
      case pop_ulong m3 of (file_size, m4) \<Rightarrow>
        \<lparr>up_uuid = msg_source msg, up_job_id = ucast job_id, up_bundle_hash = hash, up_target_path = target,
         up_file_size = file_size\<rparr>)"

definition send_server_ready_ack :: "outside \<Rightarrow> string \<Rightarrow> bool io" where
  "send_server_ready_ack env uuid tr =
     (case ask_send env (Binary (get_data (message_new SERVER_READY Highest uuid))) tr of
        (Inr _, tr') \<Rightarrow> (True, tr')
      | (Inl e, tr') \<Rightarrow>
          (False, emit_message uuid (get_data (push_string (message_new FILE_UPLOAD_ERROR Highest uuid)
                    (''Failed to send SERVER_READY ack: '' @ e))) Highest tr'))"

definition remove_partial_file :: "outside \<Rightarrow> path \<Rightarrow> trace \<Rightarrow> trace" where
  "remove_partial_file env full_path tr = snd (ask_fs env (RemoveFile full_path) tr)"

definition fail_upload :: "outside \<Rightarrow> string \<Rightarrow> string \<Rightarrow> path option \<Rightarrow> trace \<Rightarrow> trace" where
  "fail_upload env uuid error_msg partial_path tr =
     send_file_error env uuid error_msg FILE_UPLOAD_ERROR
       (case partial_path of None \<Rightarrow> tr | Some full_path \<Rightarrow> remove_partial_file env full_path tr)"

definition finalize_upload_file :: "outside \<Rightarrow> path \<Rightarrow> string \<Rightarrow> bool io" where
  "finalize_upload_file env full_path uuid tr =
     (case ask_fs env FlushFile tr of
        (Inl e, tr1) \<Rightarrow> (False, fail_upload env uuid ''Failed to finalize uploaded file'' (Some full_path) tr1)
      | (Inr _, tr1) \<Rightarrow>
          (case ask_fs env SyncFile tr1 of
             (Inl e, tr2) \<Rightarrow> (False, fail_upload env uuid ''Failed to finalize uploaded file'' (Some full_path) tr2)
           | (Inr _, tr2) \<Rightarrow> (True, tr2)))"

definition upload_complete_frame :: "string \<Rightarrow> ws_frame" where
  "upload_complete_frame uuid = Binary (get_data (message_new FILE_UPLOAD_COMPLETE Highest uuid))"

definition send_upload_complete :: "outside \<Rightarrow> string \<Rightarrow> trace \<Rightarrow> trace" where
  "send_upload_complete env uuid tr = snd (ask_send env (upload_complete_frame uuid) tr)"

definition size_mismatch :: "u64 \<Rightarrow> u64 \<Rightarrow> string" where
  "size_mismatch file_size got =
     ''File size mismatch: expected '' @ show_nat (unat file_size) @ '', got '' @ show_nat (unat got)"

text \<open>The receive loop; \<open>UploadWaiting\<close> is a loop that waits for its next message.\<close>

datatype upload_end = UploadWaiting u64 | UploadComplete | UploadFailed

definition upload_chunk ::
  "outside \<Rightarrow> string \<Rightarrow> path \<Rightarrow> u64 \<Rightarrow> u64 \<Rightarrow> bytes \<Rightarrow> upload_end io" where
  "upload_chunk env uuid full_path file_size received_size chunk tr =
     (let chunk_len = of_nat (length chunk) :: u64
      in if u64_saturating_sub file_size received_size < chunk_len then
           (UploadFailed,
            fail_upload env uuid (size_mismatch file_size (u64_saturating_add received_size chunk_len))
              (Some full_path) tr)
         else case ask_fs env (WriteFile chunk) tr of
             (Inl e, tr1) \<Rightarrow> (UploadFailed, fail_upload env uuid ''Failed to write chunk to file'' (Some full_path) tr1)
           | (Inr _, tr1) \<Rightarrow> (UploadWaiting (received_size + chunk_len), tr1))"

definition upload_finish :: "outside \<Rightarrow> string \<Rightarrow> path \<Rightarrow> u64 \<Rightarrow> u64 \<Rightarrow> upload_end io" where
  "upload_finish env uuid full_path file_size received_size tr =
     (if received_size \<noteq> file_size then
        (UploadFailed, fail_upload env uuid (size_mismatch file_size received_size) (Some full_path) tr)
      else case finalize_upload_file env full_path uuid tr of
          (False, tr1) \<Rightarrow> (UploadFailed, tr1)
        | (True, tr1) \<Rightarrow> (UploadComplete, send_upload_complete env uuid tr1))"

definition upload_message ::
  "outside \<Rightarrow> string \<Rightarrow> path \<Rightarrow> u64 \<Rightarrow> u64 \<Rightarrow> incoming \<Rightarrow> upload_end io" where
  "upload_message env uuid full_path file_size received_size i tr =
     (case i of
        Some (Inr (Binary d)) \<Rightarrow>
          (let m = from_data d
           in if msg_id m = FILE_UPLOAD_CHUNK then
                upload_chunk env uuid full_path file_size received_size (fst (pop_bytes m)) tr
              else if msg_id m = FILE_UPLOAD_COMPLETE then upload_finish env uuid full_path file_size received_size tr
              else (UploadWaiting received_size, tr))
      | Some (Inr Close) \<Rightarrow> (UploadFailed, remove_partial_file env full_path tr)
      | Some (Inr _) \<Rightarrow> (UploadWaiting received_size, tr)
      | Some (Inl e) \<Rightarrow> (UploadFailed, remove_partial_file env full_path tr)
      | None \<Rightarrow> (UploadFailed, remove_partial_file env full_path tr))"

fun upload_loop ::
  "outside \<Rightarrow> string \<Rightarrow> path \<Rightarrow> u64 \<Rightarrow> u64 \<Rightarrow> incoming list \<Rightarrow> upload_end io" where
  "upload_loop env uuid full_path file_size received_size [] tr = (UploadWaiting received_size, tr)"
| "upload_loop env uuid full_path file_size received_size (i # is) tr =
     (case upload_message env uuid full_path file_size received_size i tr of
        (UploadWaiting n, tr') \<Rightarrow> upload_loop env uuid full_path file_size n is tr'
      | (ended, tr') \<Rightarrow> (ended, tr'))"

text \<open>The stages before the loop, from the last one to the first.\<close>

definition create_and_receive ::
  "outside \<Rightarrow> string \<Rightarrow> path \<Rightarrow> u64 \<Rightarrow> incoming list \<Rightarrow> upload_end io" where
  "create_and_receive env uuid full_path file_size is tr =
     (case (case path_parent full_path of
              None \<Rightarrow> (Inr (), tr)
            | Some parent \<Rightarrow> ask_fs env (CreateDirAll parent) tr) of
        (Inl e, tr1) \<Rightarrow> (UploadFailed, fail_upload env uuid (''Failed to create parent directory: '' @ e) None tr1)
      | (Inr _, tr1) \<Rightarrow>
          (case ask_fs env (CreateFile full_path) tr1 of
             (Inl e, tr2) \<Rightarrow> (UploadFailed, fail_upload env uuid ''Failed to open target file for writing'' None tr2)
           | (Inr _, tr2) \<Rightarrow> upload_loop env uuid full_path file_size 0 is tr2))"

definition upload_into ::
  "outside \<Rightarrow> string \<Rightarrow> string \<Rightarrow> string \<Rightarrow> u64 \<Rightarrow> incoming list \<Rightarrow> upload_end io" where
  "upload_into env uuid wd target_path file_size is tr =
     (let full_path = path_join (parse_path wd) (parse_path (trim_start_slashes target_path))
      in case validate_path_is_within env full_path (parse_path wd) tr of
           (False, tr1) \<Rightarrow>
             (UploadFailed, fail_upload env uuid ''Target path for file upload is outside the working directory'' None tr1)
         | (True, tr1) \<Rightarrow> create_and_receive env uuid full_path file_size is tr1)"

definition handle_file_upload_internal ::
  "outside \<Rightarrow> upload_fields \<Rightarrow> string \<Rightarrow> incoming list \<Rightarrow> upload_end io" where
  "handle_file_upload_internal env u ws_endpoint is tr =
     (case connect_file_ws env ws_endpoint (up_uuid u) tr of
        (False, tr1) \<Rightarrow>
          (UploadFailed, queue_file_error_on_main_ws (up_uuid u) ''Failed to connect to file websocket'' FILE_UPLOAD_ERROR tr1)
      | (True, tr1) \<Rightarrow>
          (case send_server_ready_ack env (up_uuid u) tr1 of
             (False, tr2) \<Rightarrow> (UploadFailed, tr2)
           | (True, tr2) \<Rightarrow>
               (case resolve_working_directory_for_job env (up_job_id u) (up_bundle_hash u)
                       (JString (up_target_path u)) ''file_upload'' tr2 of
                  (Inl err, tr3) \<Rightarrow> (UploadFailed, fail_upload env (up_uuid u) (client_message err) None tr3)
                | (Inr wd, tr3) \<Rightarrow> upload_into env (up_uuid u) wd (up_target_path u) (up_file_size u) is tr3)))"

definition handle_file_upload :: "outside \<Rightarrow> message \<Rightarrow> string \<Rightarrow> incoming list \<Rightarrow> upload_end io" where
  "handle_file_upload env msg ws_endpoint is tr =
     handle_file_upload_internal env (parse_upload_fields msg) ws_endpoint is tr"

subsection \<open>Lemmas: what a trace writes\<close>

fun event_bytes :: "event \<Rightarrow> bytes" where
  "event_bytes (WriteFile d) = d"
| "event_bytes _ = []"

definition written :: "trace \<Rightarrow> bytes" where
  "written es = concat (map event_bytes es)"

lemma written_simps [simp]:
  "written [] = []" "written (e # es) = event_bytes e @ written es" "written (es @ fs) = written es @ written fs"
  by (simp_all add: written_def)

fun is_write :: "event \<Rightarrow> bool" where
  "is_write (WriteFile d) \<longleftrightarrow> True"
| "is_write _ \<longleftrightarrow> False"

fun is_file_op :: "event \<Rightarrow> bool" where
  "is_file_op (WriteFile d) \<longleftrightarrow> True"
| "is_file_op FlushFile \<longleftrightarrow> True"
| "is_file_op SyncFile \<longleftrightarrow> True"
| "is_file_op _ \<longleftrightarrow> False"

lemma write_is_file_op: "is_write e \<Longrightarrow> is_file_op e"
  by (cases e) simp_all

text \<open>Every file operation of a run succeeded.\<close>

fun succeeded :: "outside \<Rightarrow> trace \<Rightarrow> trace \<Rightarrow> bool" where
  "succeeded env tr [] \<longleftrightarrow> True"
| "succeeded env tr (e # es) \<longleftrightarrow> o_fs env (tr @ [e]) = Inr () \<and> succeeded env (tr @ [e]) es"

lemma succeeded_append [simp]:
  "succeeded env tr (es @ fs) \<longleftrightarrow> succeeded env tr es \<and> succeeded env (tr @ es) fs"
  by (induction es arbitrary: tr) simp_all

definition upload_payload :: "incoming \<Rightarrow> bytes" where
  "upload_payload i =
     (case i of
        Some (Inr (Binary d)) \<Rightarrow> (let m = from_data d in if msg_id m = FILE_UPLOAD_CHUNK then fst (pop_bytes m) else [])
      | _ \<Rightarrow> [])"

definition upload_data :: "incoming list \<Rightarrow> bytes" where
  "upload_data is = concat (map upload_payload is)"

text \<open>
  The contract of the receive loop. From \<open>received\<close> bytes on, given messages that carry \<open>payload\<close>: it never
  writes more than the announced size; while it waits, it has written all data so far, with success; it
  completes only with exactly the announced size written, flushed and synced; and it fails only after
  removing the file.
\<close>

definition removal :: "string \<Rightarrow> path \<Rightarrow> trace \<Rightarrow> bool" where
  "removal uuid full_path es \<longleftrightarrow>
     es = [RemoveFile full_path]
     \<or> (\<exists>text. es = [RemoveFile full_path, SendFile (file_error_frame FILE_UPLOAD_ERROR uuid text)])"

fun upload_outcome ::
  "outside \<Rightarrow> string \<Rightarrow> path \<Rightarrow> u64 \<Rightarrow> u64 \<Rightarrow> bytes \<Rightarrow> trace \<Rightarrow> trace \<Rightarrow> upload_end \<Rightarrow> bool" where
  "upload_outcome env uuid full_path file_size received payload tr es (UploadWaiting n) \<longleftrightarrow>
     list_all is_write es \<and> succeeded env tr es \<and> written es = payload \<and> unat n = unat received + length payload"
| "upload_outcome env uuid full_path file_size received payload tr es UploadComplete \<longleftrightarrow>
     (\<exists>ws. es = ws @ [FlushFile, SyncFile, SendFile (upload_complete_frame uuid)]
        \<and> list_all is_write ws \<and> succeeded env tr (ws @ [FlushFile, SyncFile])
        \<and> unat received + length (written ws) = unat file_size)"
| "upload_outcome env uuid full_path file_size received payload tr es UploadFailed \<longleftrightarrow>
     (\<exists>ws rs. es = ws @ rs \<and> list_all is_file_op ws \<and> removal uuid full_path rs)"

definition upload_spec ::
  "outside \<Rightarrow> string \<Rightarrow> path \<Rightarrow> u64 \<Rightarrow> u64 \<Rightarrow> bytes \<Rightarrow> trace \<Rightarrow> upload_end \<times> trace \<Rightarrow> bool" where
  "upload_spec env uuid full_path file_size received payload tr result \<longleftrightarrow>
     (\<exists>es. snd result = tr @ es \<and> prefix (written es) payload
        \<and> unat received + length (written es) \<le> unat file_size
        \<and> upload_outcome env uuid full_path file_size received payload tr es (fst result))"

lemma upload_outcome_append:
  assumes "list_all is_write es1" "succeeded env tr es1" "unat r1 = unat r + length (written es1)"
    and "upload_outcome env uuid p n r1 d2 (tr @ es1) es2 e"
  shows "upload_outcome env uuid p n r (written es1 @ d2) tr (es1 @ es2) e"
proof (cases e)
  case (UploadWaiting m)
  then show ?thesis using assms by simp
next
  case UploadComplete
  then obtain ws where "es2 = ws @ [FlushFile, SyncFile, SendFile (upload_complete_frame uuid)]"
    "list_all is_write ws" "succeeded env (tr @ es1) (ws @ [FlushFile, SyncFile])" "unat r1 + length (written ws) = unat n"
    using assms(4) by auto
  then have "es1 @ es2 = (es1 @ ws) @ [FlushFile, SyncFile, SendFile (upload_complete_frame uuid)]
      \<and> list_all is_write (es1 @ ws) \<and> succeeded env tr ((es1 @ ws) @ [FlushFile, SyncFile])
      \<and> unat r + length (written (es1 @ ws)) = unat n"
    using assms(1-3) by simp
  then show ?thesis unfolding UploadComplete upload_outcome.simps by blast
next
  case UploadFailed
  then obtain ws rs where "es2 = ws @ rs" "list_all is_file_op ws" "removal uuid p rs" using assms(4) by auto
  then have "es1 @ es2 = (es1 @ ws) @ rs \<and> list_all is_file_op (es1 @ ws) \<and> removal uuid p rs"
    using assms(1) write_is_file_op by (auto simp: list_all_iff)
  then show ?thesis unfolding UploadFailed upload_outcome.simps by blast
qed

lemma upload_spec_seq:
  assumes "upload_spec env uuid p n r d1 tr (UploadWaiting r1, tr1)" "upload_spec env uuid p n r1 d2 tr1 res"
  shows "upload_spec env uuid p n r (d1 @ d2) tr res"
proof -
  obtain es1 where 1: "tr1 = tr @ es1" "list_all is_write es1" "succeeded env tr es1" "written es1 = d1"
    "unat r1 = unat r + length (written es1)"
    using assms(1) by (auto simp: upload_spec_def)
  obtain es2 where 2: "snd res = tr1 @ es2" "prefix (written es2) d2" "unat r1 + length (written es2) \<le> unat n"
    "upload_outcome env uuid p n r1 d2 tr1 es2 (fst res)"
    using assms(2) unfolding upload_spec_def by blast
  have "upload_outcome env uuid p n r (d1 @ d2) tr (es1 @ es2) (fst res)"
    using upload_outcome_append [OF 1(2,3,5)] 2(4) 1(1,4) by simp
  then show ?thesis
    unfolding upload_spec_def using 1 2 by (intro exI [of _ "es1 @ es2"]) simp
qed

subsection \<open>Lemmas: the receive loop\<close>

lemma pop_bytes_bounded: "length (fst (pop_bytes m)) < 2 ^ 64"
proof -
  obtain n m' where n: "pop_ulong m = (n, m')" by (metis prod.collapse)
  have "unat n < 2 ^ 64" using unsigned_less [of n] by simp
  then show ?thesis using n by (auto simp: pop_bytes_def Let_def)
qed

lemma fail_upload_events:
  "fail_upload env uuid text (Some p) tr = tr @ [RemoveFile p, SendFile (file_error_frame FILE_UPLOAD_ERROR uuid text)]"
  by (simp add: fail_upload_def remove_partial_file_def send_file_error_def ask_defs)

lemma upload_failedI:
  assumes "tr' = tr @ ws @ rs" "list_all is_file_op ws" "removal uuid p rs"
    and "prefix (written ws) d" "unat r + length (written ws) \<le> unat n"
  shows "upload_spec env uuid p n r d tr (UploadFailed, tr')"
proof -
  have "written rs = []" using assms(3) by (auto simp: removal_def)
  moreover have "upload_outcome env uuid p n r d tr (ws @ rs) UploadFailed" using assms(2,3) by auto
  ultimately show ?thesis using assms unfolding upload_spec_def by (intro exI [of _ "ws @ rs"]) simp
qed

lemma removalI:
  "removal uuid p [RemoveFile p]"
  "removal uuid p [RemoveFile p, SendFile (file_error_frame FILE_UPLOAD_ERROR uuid text)]"
  by (auto simp: removal_def)

lemma upload_chunk_spec:
  assumes "unat r \<le> unat n" "length c < 2 ^ 64"
  shows "upload_spec env uuid p n r c tr (upload_chunk env uuid p n r c tr)"
proof -
  have len: "unat (of_nat (length c) :: u64) = length c" using assms(2) by (simp add: unat_of_nat)
  have sub: "unat (u64_saturating_sub n r) = unat n - unat r"
    using assms(1) by (simp add: u64_saturating_sub_def word_le_nat_alt unat_sub)
  show ?thesis
  proof (cases "unat n - unat r < length c")
    case True
    then have "upload_chunk env uuid p n r c tr = (UploadFailed, tr @ [RemoveFile p,
        SendFile (file_error_frame FILE_UPLOAD_ERROR uuid (size_mismatch n (u64_saturating_add r (of_nat (length c)))))])"
      by (simp add: upload_chunk_def Let_def word_less_nat_alt len sub fail_upload_events)
    then show ?thesis using upload_failedI [of _ tr "[]"] assms(1) removalI by auto
  next
    case False
    then have fits: "unat r + length c \<le> unat n" using assms(1) by simp
    have "unat n < 2 ^ 64" using unsigned_less [of n] by simp
    then have sum: "unat (r + of_nat (length c)) = unat r + length c"
      using fits len by (simp add: unat_add_lem [THEN iffD1])
    have room: "\<not> u64_saturating_sub n r < of_nat (length c)" using False by (simp add: word_less_nat_alt len sub)
    have "upload_spec env uuid p n r c tr (UploadFailed, fail_upload env uuid msg (Some p) (tr @ [WriteFile c]))" for msg
      using fits by (intro upload_failedI [OF _ _ removalI(2), where ws = "[WriteFile c]"]) (simp_all add: fail_upload_events)
    moreover have "upload_spec env uuid p n r c tr (UploadWaiting (r + of_nat (length c)), tr @ [WriteFile c])"
      if "o_fs env (tr @ [WriteFile c]) = Inr ()"
      using fits sum that by (simp add: upload_spec_def)
    ultimately show ?thesis using room by (simp add: upload_chunk_def ask_defs split: sum.split)
  qed
qed

lemma upload_finish_spec:
  assumes "unat r \<le> unat n"
  shows "upload_spec env uuid p n r [] tr (upload_finish env uuid p n r tr)"
proof -
  have failed: "upload_spec env uuid p n r [] tr (UploadFailed, fail_upload env uuid msg (Some p) (tr @ ws))"
    if "list_all is_file_op ws" "written ws = []" for ws msg
    using that assms by (intro upload_failedI [OF _ that(1) removalI(2)]) (simp_all add: fail_upload_events)
  show ?thesis
  proof (cases "r = n")
    case False
    then show ?thesis using failed [of "[]"] by (simp add: upload_finish_def)
  next
    case True
    then show ?thesis
      using failed [of "[FlushFile]"] failed [of "[FlushFile, SyncFile]"]
      by (auto simp: upload_finish_def finalize_upload_file_def send_upload_complete_def ask_defs upload_spec_def
          split: sum.split)
  qed
qed

lemma upload_message_spec:
  assumes "unat r \<le> unat n"
  shows "upload_spec env uuid p n r (upload_payload i) tr (upload_message env uuid p n r i tr)"
proof -
  have gone: "upload_spec env uuid p n r [] tr (UploadFailed, remove_partial_file env p tr)"
    using assms by (intro upload_failedI [OF _ _ removalI(1), where ws = "[]"])
      (simp_all add: remove_partial_file_def ask_defs)
  have waits: "upload_spec env uuid p n r [] tr (UploadWaiting r, tr)"
    using assms by (simp add: upload_spec_def)
  show ?thesis
    using gone waits upload_chunk_spec [OF assms pop_bytes_bounded] upload_finish_spec [OF assms]
    by (auto simp: upload_message_def upload_payload_def Let_def split: option.split sum.split ws_frame.split)
qed

lemma upload_spec_more:
  assumes "upload_spec env uuid p n r d tr (e, tr')" "e = UploadComplete \<or> e = UploadFailed"
  shows "upload_spec env uuid p n r (d @ d') tr (e, tr')"
proof -
  obtain es where "tr' = tr @ es" "prefix (written es) d" "unat r + length (written es) \<le> unat n"
    "upload_outcome env uuid p n r d tr es e"
    using assms(1) by (auto simp: upload_spec_def)
  moreover from this have "upload_outcome env uuid p n r (d @ d') tr es e"
    using assms(2) upload_outcome.simps(2,3) by metis
  ultimately show ?thesis unfolding upload_spec_def by (intro exI [of _ es]) auto
qed

lemma upload_loop_spec:
  "unat r \<le> unat n \<Longrightarrow>
   upload_spec env uuid p n r (upload_data is) tr (upload_loop env uuid p n r is tr)"
proof (induction "is" arbitrary: r tr)
  case Nil
  then show ?case by (simp add: upload_spec_def upload_data_def)
next
  case (Cons i "is")
  obtain e tr1 where m: "upload_message env uuid p n r i tr = (e, tr1)" by (metis prod.collapse)
  note spec = upload_message_spec [OF Cons.prems, of env uuid p i tr, unfolded m]
  show ?case
  proof (cases e)
    case (UploadWaiting r1)
    then have "unat r1 \<le> unat n" using spec by (auto simp: upload_spec_def)
    from upload_spec_seq [OF spec [unfolded UploadWaiting] Cons.IH [OF this, of tr1]] show ?thesis
      using m UploadWaiting by (simp add: upload_data_def)
  qed (use upload_spec_more [OF spec] m in \<open>simp_all add: upload_data_def\<close>)
qed

subsection \<open>Lemmas: the stages before the loop\<close>

lemma complete_frame_distinct:
  "file_error_frame i uuid msg \<noteq> upload_complete_frame uuid"
  "Binary (get_data (message_new SERVER_READY Highest uuid)) \<noteq> upload_complete_frame uuid"
proof -
  have "length (enc_string msg) \<noteq> 0" by (simp add: enc_string_def enc_bytes_def del: le_encode.simps)
  moreover have "length (header i uuid) = length (header FILE_UPLOAD_COMPLETE uuid)"
    by (simp add: header_def del: le_encode.simps)
  ultimately show "file_error_frame i uuid msg \<noteq> upload_complete_frame uuid"
    by (auto simp: error_frame_header upload_complete_frame_def get_data_def message_new_data dest!: arg_cong [of _ _ length])
  show "Binary (get_data (message_new SERVER_READY Highest uuid)) \<noteq> upload_complete_frame uuid"
    by (auto simp: upload_complete_frame_def get_data_def message_new_data header_def le_decode_encode
        simp del: le_encode.simps dest!: arg_cong [of _ _ le_decode])
qed

text \<open>
  The target has passed the check against the working directory the request resolves to. The lemmas on
  the stages keep what is known of the target as a parameter \<open>ok\<close>.
\<close>

definition validated :: "outside \<Rightarrow> upload_fields \<Rightarrow> path \<Rightarrow> bool" where
  "validated env u p \<longleftrightarrow>
     (\<exists>wd tr0 tr. fst (resolve_working_directory_for_job env (up_job_id u) (up_bundle_hash u)
                    (JString (up_target_path u)) ''file_upload'' tr0) = Inr wd
        \<and> fst (validate_path_is_within env p (parse_path wd) tr))"

definition early_event :: "(path \<Rightarrow> bool) \<Rightarrow> string \<Rightarrow> event \<Rightarrow> bool" where
  "early_event ok uuid e \<longleftrightarrow>
     session_event e \<or> (\<exists>p q. e = CreateDirAll q \<and> path_parent p = Some q \<and> ok p) \<or> (\<exists>src d q. e = QueueMessage src d q)
     \<or> (\<exists>f. e = SendFile f \<and> f \<noteq> upload_complete_frame uuid)"

text \<open>How far an upload gets: it fails early, it fails to create its file, or it enters the loop.\<close>

definition failed_early :: "(path \<Rightarrow> bool) \<Rightarrow> outside \<Rightarrow> string \<Rightarrow> trace \<Rightarrow> upload_end \<times> trace \<Rightarrow> bool" where
  "failed_early ok env uuid tr result \<longleftrightarrow>
     (\<exists>es. list_all (early_event ok uuid) es \<and>
        (result = (UploadFailed, tr @ es)
         \<or> (\<exists>p e msg. result = (UploadFailed, tr @ es @ [CreateFile p, SendFile (file_error_frame FILE_UPLOAD_ERROR uuid msg)])
              \<and> o_fs env (tr @ es @ [CreateFile p]) = Inl e \<and> ok p)))"

definition entered_loop ::
  "(path \<Rightarrow> bool) \<Rightarrow> outside \<Rightarrow> string \<Rightarrow> path \<Rightarrow> u64 \<Rightarrow> incoming list \<Rightarrow> trace \<Rightarrow> upload_end \<times> trace \<Rightarrow> bool" where
  "entered_loop ok env uuid p n is tr result \<longleftrightarrow>
     (\<exists>es. list_all (early_event ok uuid) es \<and> o_fs env (tr @ es @ [CreateFile p]) = Inr () \<and> ok p
        \<and> result = upload_loop env uuid p n 0 is (tr @ es @ [CreateFile p]))"

lemma early_session: "session_only tr tr' \<Longrightarrow> emits_only (early_event ok uuid) tr tr'"
  by (erule emits_mono) (simp add: early_event_def)

lemma failed_early_trans:
  assumes "emits_only (early_event ok uuid) tr tr1" "failed_early ok env uuid tr1 res"
  shows "failed_early ok env uuid tr res"
proof -
  obtain es1 where 1: "tr1 = tr @ es1" "list_all (early_event ok uuid) es1" using assms(1) by (auto simp: emits_only_def)
  obtain es where "list_all (early_event ok uuid) es" "res = (UploadFailed, tr1 @ es)
         \<or> (\<exists>p e msg. res = (UploadFailed, tr1 @ es @ [CreateFile p, SendFile (file_error_frame FILE_UPLOAD_ERROR uuid msg)])
              \<and> o_fs env (tr1 @ es @ [CreateFile p]) = Inl e \<and> ok p)"
    using assms(2) unfolding failed_early_def by blast
  then show ?thesis unfolding failed_early_def using 1 by (intro exI [of _ "es1 @ es"]) auto
qed

lemma entered_loop_trans:
  assumes "emits_only (early_event ok uuid) tr tr1" "entered_loop ok env uuid p n is tr1 res"
  shows "entered_loop ok env uuid p n is tr res"
proof -
  obtain es1 where 1: "tr1 = tr @ es1" "list_all (early_event ok uuid) es1" using assms(1) by (auto simp: emits_only_def)
  obtain es where "list_all (early_event ok uuid) es" "o_fs env (tr1 @ es @ [CreateFile p]) = Inr ()" "ok p"
    "res = upload_loop env uuid p n 0 is (tr1 @ es @ [CreateFile p])"
    using assms(2) unfolding entered_loop_def by blast
  then show ?thesis unfolding entered_loop_def using 1 by (intro exI [of _ "es1 @ es"]) auto
qed

lemma failed_earlyI:
  assumes "emits_only (early_event ok uuid) tr tr1"
  shows "failed_early ok env uuid tr (UploadFailed, fail_upload env uuid msg None tr1)"
proof -
  obtain es where "tr1 = tr @ es" "list_all (early_event ok uuid) es" using assms by (auto simp: emits_only_def)
  then show ?thesis
    unfolding failed_early_def
    by (intro exI [of _ "es @ [SendFile (file_error_frame FILE_UPLOAD_ERROR uuid msg)]"])
      (simp add: fail_upload_def send_file_error_def ask_defs early_event_def complete_frame_distinct)
qed

lemma create_and_receive_stage:
  assumes ok: "ok p"
  shows "failed_early ok env uuid tr (create_and_receive env uuid p n is tr)
   \<or> entered_loop ok env uuid p n is tr (create_and_receive env uuid p n is tr)"
proof -
  obtain r tr1 where d: "(case path_parent p of None \<Rightarrow> (Inr (), tr) | Some parent \<Rightarrow> ask_fs env (CreateDirAll parent) tr) = (r, tr1)"
    by (metis prod.collapse)
  have early: "emits_only (early_event ok uuid) tr tr1"
    using d ok by (auto simp: ask_defs early_event_def split: option.splits)
  show ?thesis
  proof (cases r)
    case (Inl e)
    then show ?thesis using d failed_earlyI [OF early] by (simp add: create_and_receive_def)
  next
    case (Inr u)
    obtain es where es: "tr1 = tr @ es" "list_all (early_event ok uuid) es" using early by (auto simp: emits_only_def)
    show ?thesis
    proof (cases "o_fs env (tr1 @ [CreateFile p])")
      case (Inl e)
      then have "create_and_receive env uuid p n is tr =
          (UploadFailed, tr @ es @ [CreateFile p, SendFile (file_error_frame FILE_UPLOAD_ERROR uuid ''Failed to open target file for writing'')])"
        using d Inr es by (simp add: create_and_receive_def fail_upload_def send_file_error_def ask_defs)
      then show ?thesis using es Inl ok unfolding failed_early_def by auto
    next
      case (Inr v)
      then have "create_and_receive env uuid p n is tr = upload_loop env uuid p n 0 is (tr @ es @ [CreateFile p])"
        using d \<open>r = Inr u\<close> es by (simp add: create_and_receive_def ask_defs)
      then show ?thesis using es Inr ok unfolding entered_loop_def by auto
    qed
  qed
qed

lemma upload_into_stage:
  assumes valid: "\<And>p tr. fst (validate_path_is_within env p (parse_path wd) tr) \<Longrightarrow> ok p"
  shows "failed_early ok env uuid tr (upload_into env uuid wd target n is tr)
   \<or> (\<exists>p. entered_loop ok env uuid p n is tr (upload_into env uuid wd target n is tr))"
proof -
  let ?p = "path_join (parse_path wd) (parse_path (trim_start_slashes target))"
  obtain within tr1 where v: "validate_path_is_within env ?p (parse_path wd) tr = (within, tr1)" by (metis prod.collapse)
  have early: "emits_only (early_event ok uuid) tr tr1"
    using early_session session_validate [of tr env ?p "parse_path wd"] v by simp
  show ?thesis
  proof (cases within)
    case False
    then show ?thesis using v failed_earlyI [OF early] by (simp add: upload_into_def Let_def)
  next
    case True
    then have ok: "ok ?p" using v valid [of ?p tr] by simp
    have "upload_into env uuid wd target n is tr = create_and_receive env uuid ?p n is tr1"
      using v True by (simp add: upload_into_def Let_def)
    then show ?thesis
      using ok create_and_receive_stage [where ok = ok and p = ?p, OF ok, of env uuid tr1 n "is"] failed_early_trans [OF early] entered_loop_trans [OF early]
      by metis
  qed
qed

lemma upload_stage:
  "failed_early (validated env u) env (up_uuid u) tr (handle_file_upload_internal env u url is tr)
   \<or> (\<exists>p. entered_loop (validated env u) env (up_uuid u) p (up_file_size u) is tr (handle_file_upload_internal env u url is tr))"
proof -
  let ?uuid = "up_uuid u" and ?res = "handle_file_upload_internal env u url is tr"
  obtain c tr1 where c: "connect_file_ws env url ?uuid tr = (c, tr1)" by (metis prod.collapse)
  have e1: "emits_only (early_event (validated env u) ?uuid) tr tr1" using early_session session_connect [of tr env url ?uuid] c by simp
  obtain a tr2 where a: "send_server_ready_ack env ?uuid tr1 = (a, tr2)" by (metis prod.collapse)
  have "emits_only (early_event (validated env u) ?uuid) tr1 tr2"
    using a by (auto simp: send_server_ready_ack_def ask_defs emit_message_def emits_only_def early_event_def
        complete_frame_distinct split: sum.splits)
  then have e2: "emits_only (early_event (validated env u) ?uuid) tr tr2" using emits_trans [OF e1] by blast
  have stop: "failed_early (validated env u) env ?uuid tr (UploadFailed, tr')" if "emits_only (early_event (validated env u) ?uuid) tr tr'" for tr'
    using that by (auto simp: failed_early_def emits_only_def)
  have queue: "emits_only (early_event (validated env u) ?uuid) tr1 (queue_file_error_on_main_ws ?uuid msg i tr1)" for msg i
    by (simp add: queue_file_error_on_main_ws_def emit_message_def early_event_def)
  obtain r tr3 where r: "resolve_working_directory_for_job env (up_job_id u) (up_bundle_hash u)
      (JString (up_target_path u)) ''file_upload'' tr2 = (r, tr3)" by (metis prod.collapse)
  have "emits_only (early_event (validated env u) ?uuid) tr2 tr3"
    using early_session session_resolve [of tr2 env "up_job_id u" "up_bundle_hash u" "JString (up_target_path u)" "''file_upload''"] r
    by simp
  then have e3: "emits_only (early_event (validated env u) ?uuid) tr tr3" using emits_trans [OF e2] by blast
  consider "\<not> c" | "c" "\<not> a" | err where "c" "a" "r = Inl err" | wd where "c" "a" "r = Inr wd"
    by (cases r) auto
  then show ?thesis
  proof cases
    case 1
    then show ?thesis using c stop emits_trans [OF e1 queue] by (simp add: handle_file_upload_internal_def)
  next
    case 2
    then show ?thesis using c a stop [OF e2] by (simp add: handle_file_upload_internal_def)
  next
    case 3
    then show ?thesis using c a r failed_earlyI [OF e3] by (simp add: handle_file_upload_internal_def)
  next
    case 4
    then have "?res = upload_into env ?uuid wd (up_target_path u) (up_file_size u) is tr3"
      using c a r by (simp add: handle_file_upload_internal_def)
    moreover have "validated env u p" if "fst (validate_path_is_within env p (parse_path wd) tr')" for p tr'
      unfolding validated_def using 4(3) r that by (metis fst_conv)
    ultimately show ?thesis
      using upload_into_stage [of env wd "validated env u" ?uuid tr3 "up_target_path u" "up_file_size u" "is"]
        failed_early_trans [OF e3] entered_loop_trans [OF e3] by metis
  qed
qed

lemma early_harmless:
  assumes "list_all (early_event ok uuid) es"
  shows "written es = []" "SendFile (upload_complete_frame uuid) \<notin> set es" "CreateFile p \<notin> set es" "RemoveFile p \<notin> set es"
proof -
  have e: "event_bytes e = [] \<and> e \<noteq> SendFile (upload_complete_frame uuid) \<and> e \<noteq> CreateFile p \<and> e \<noteq> RemoveFile p"
    if "early_event ok uuid e" for e
    using that by (cases e) (auto simp: early_event_def)
  have *: "event_bytes e = [] \<and> e \<noteq> SendFile (upload_complete_frame uuid) \<and> e \<noteq> CreateFile p \<and> e \<noteq> RemoveFile p"
    if "e \<in> set es" for e
    using e [of e] that assms by (simp add: list_all_iff)
  then show "written es = []" by (simp add: written_def)
  show "SendFile (upload_complete_frame uuid) \<notin> set es" "CreateFile p \<notin> set es" "RemoveFile p \<notin> set es"
    using * by blast+
qed

lemma early_create_unique:
  assumes "list_all (early_event ok uuid) pre" "pre @ CreateFile p # post = es1 @ CreateFile q # es2"
    "\<forall>r. CreateFile r \<notin> set post"
  shows "es1 = pre \<and> q = p \<and> es2 = post"
proof -
  have "CreateFile q \<in> set (pre @ CreateFile p # post)" using assms(2) by simp
  then have "q = p" using early_harmless(3) [OF assms(1)] assms(3) by auto
  then show ?thesis using assms early_harmless(3) [OF assms(1)] by (auto simp: append_Cons_eq_iff)
qed

lemma failed_loop_events:
  assumes "upload_loop env uuid p n 0 is tr = (UploadFailed, tr')"
  shows "\<exists>es. tr' = tr @ es \<and> RemoveFile p \<in> set es \<and> SendFile (upload_complete_frame uuid) \<notin> set es
    \<and> (\<forall>r. CreateFile r \<notin> set es)"
proof -
  obtain ws rs where w: "tr' = tr @ ws @ rs" "list_all is_file_op ws" "removal uuid p rs"
    using upload_loop_spec [of 0 n env uuid p "is" tr] assms by (auto simp: upload_spec_def)
  have "e \<noteq> SendFile f \<and> e \<noteq> CreateFile r" if "e \<in> set ws" for e f r
    using that w(2) by (auto simp: list_all_iff)
  moreover have "RemoveFile p \<in> set rs" "SendFile (upload_complete_frame uuid) \<notin> set rs" "\<forall>r. CreateFile r \<notin> set rs"
    using w(3) by (auto simp: removal_def complete_frame_distinct(1) [symmetric])
  ultimately show ?thesis using w(1) by (intro exI [of _ "ws @ rs"]) auto
qed

lemma loop_events:
  assumes "list_all is_file_op ws" "removal uuid p rs"
  shows "(\<forall>q. CreateFile q \<notin> set (ws @ rs) \<and> CreateDirAll q \<notin> set (ws @ rs)) \<and> (\<forall>q. RemoveFile q \<in> set (ws @ rs) \<longrightarrow> q = p)"
proof -
  have "e \<noteq> CreateFile q \<and> e \<noteq> CreateDirAll q \<and> e \<noteq> RemoveFile q" if "e \<in> set ws" for e q
    using that assms(1) by (auto simp: list_all_iff)
  then show ?thesis using assms(2) by (auto simp: removal_def)
qed

lemma spec_events:
  assumes "upload_spec env uuid p n 0 d tr res"
  shows "\<exists>es. snd res = tr @ es \<and> length (written es) \<le> unat n \<and> prefix (written es) d
    \<and> (\<forall>q. CreateFile q \<notin> set es \<and> CreateDirAll q \<notin> set es) \<and> (\<forall>q. RemoveFile q \<in> set es \<longrightarrow> q = p)"
proof -
  obtain es where es: "snd res = tr @ es" "prefix (written es) d" "length (written es) \<le> unat n"
    "upload_outcome env uuid p n 0 d tr es (fst res)"
    using assms by (auto simp: upload_spec_def)
  have w: "\<forall>q. CreateFile q \<notin> set ws \<and> CreateDirAll q \<notin> set ws \<and> RemoveFile q \<notin> set ws" if "list_all is_write ws" for ws
    using that by (auto simp: list_all_iff)
  have "(\<forall>q. CreateFile q \<notin> set es \<and> CreateDirAll q \<notin> set es) \<and> (\<forall>q. RemoveFile q \<in> set es \<longrightarrow> q = p)"
  proof (cases "fst res")
    case (UploadWaiting m)
    then show ?thesis using es(4) w by auto
  next
    case UploadComplete
    then obtain ws where "es = ws @ [FlushFile, SyncFile, SendFile (upload_complete_frame uuid)]" "list_all is_write ws"
      using es(4) by auto
    then show ?thesis using w [of ws] by auto
  next
    case UploadFailed
    then obtain ws rs where "es = ws @ rs" "list_all is_file_op ws" "removal uuid p rs" using es(4) by auto
    then show ?thesis using loop_events by blast
  qed
  then show ?thesis using es by blast
qed

lemma upload_events:
  "\<exists>pre post. snd (handle_file_upload_internal env u url is tr) = tr @ pre @ post
    \<and> list_all (early_event (validated env u) (up_uuid u)) pre
    \<and> (post = [] \<or> (\<exists>p es. post = CreateFile p # es \<and> validated env u p \<and> length (written es) \<le> unat (up_file_size u)
        \<and> prefix (written es) (upload_data is) \<and> (\<forall>q. CreateFile q \<notin> set es \<and> CreateDirAll q \<notin> set es)
        \<and> (\<forall>q. RemoveFile q \<in> set es \<longrightarrow> q = p)))"
proof -
  let ?res = "handle_file_upload_internal env u url is tr"
  from upload_stage [of env u tr url "is"] consider
      (early) pre where "list_all (early_event (validated env u) (up_uuid u)) pre" "snd ?res = tr @ pre"
    | (uncreated) pre p m where "list_all (early_event (validated env u) (up_uuid u)) pre" "validated env u p"
        "snd ?res = tr @ pre @ [CreateFile p, SendFile (file_error_frame FILE_UPLOAD_ERROR (up_uuid u) m)]"
    | (loop) pre p where "list_all (early_event (validated env u) (up_uuid u)) pre" "validated env u p"
        "?res = upload_loop env (up_uuid u) p (up_file_size u) 0 is (tr @ pre @ [CreateFile p])"
    unfolding failed_early_def entered_loop_def by fastforce
  then show ?thesis
  proof cases
    case early
    then show ?thesis by (intro exI [of _ pre] exI [of _ "[]"]) simp
  next
    case uncreated
    then show ?thesis
      by (intro exI [of _ pre] exI [of _ "[CreateFile p, SendFile (file_error_frame FILE_UPLOAD_ERROR (up_uuid u) m)]"]) simp
  next
    case loop
    have "upload_spec env (up_uuid u) p (up_file_size u) 0 (upload_data is) (tr @ pre @ [CreateFile p]) ?res"
      unfolding loop(3) by (rule upload_loop_spec) simp
    from spec_events [OF this] loop show ?thesis by (metis append.assoc append_Cons append_Nil)
  qed
qed

subsection \<open>A sample session\<close>

definition upload_outside :: outside where
  "upload_outside = sample_fs\<lparr>o_connect := (\<lambda>_. True), o_string := (\<lambda>_. ''/w''),
     o_receive := (\<lambda>_. Some (Inr (Binary (get_data (message_new SERVER_READY Highest SYSTEM_SOURCE)))))\<rparr>"

definition upload_request :: "u64 \<Rightarrow> message" where
  "upload_request n = from_data (get_data (push_values (message_new UPLOAD_FILE Highest ''u'')
     [VUint 0, VString [], VString ''f'', VUlong n]))"

definition upload_frame :: "u32 \<Rightarrow> bytes \<Rightarrow> incoming" where
  "upload_frame i d = Some (Inr (Binary (get_data (push_bytes (message_new i Highest SYSTEM_SOURCE) d))))"

abbreviation sample_target :: path where "sample_target \<equiv> [RootDir, Normal ''w'', Normal ''f'']"

lemma wf_sample_strings: "wf_str ''u''" "wf_str ''f''" "wf_str SYSTEM_SOURCE"
  by (rule wf_str_ascii; auto)+

lemma parse_upload_request:
  "parse_upload_fields (upload_request n) =
     \<lparr>up_uuid = ''u'', up_job_id = 0, up_bundle_hash = [], up_target_path = ''f'', up_file_size = n\<rparr>"
proof -
  let ?vs = "[VUint 0, VString [], VString ''f'', VUlong n]"
  have vs: "fst (pop_values (map tag_of ?vs) (upload_request n)) = ?vs"
    unfolding upload_request_def using wf_sample_strings by (intro received_fields) simp_all
  have "msg_source (upload_request n) = ''u''"
    using from_data_header [of "''u''"] wf_sample_strings
    by (simp add: upload_request_def get_data_def push_values_enc message_new_data)
  moreover obtain a m1 b m2 c m3 d m4 where "pop_uint (upload_request n) = (a, m1)" "pop_string m1 = (b, m2)"
    "pop_string m2 = (c, m3)" "pop_ulong m3 = (d, m4)" by (metis prod.collapse)
  ultimately show ?thesis using vs by (simp add: parse_upload_fields_def)
qed

lemma upload_frame_payload:
  assumes "length d < 2 ^ 64"
  shows "\<exists>raw. upload_frame i d = Some (Inr (Binary raw)) \<and> msg_id (from_data raw) = i \<and> fst (pop_bytes (from_data raw)) = d"
proof -
  let ?raw = "header i SYSTEM_SOURCE @ enc_bytes d"
  have "unread (from_data ?raw) = enc_bytes d @ []" using wf_sample_strings by (simp add: unread_from_data_header)
  from bytes.pop_enc [OF assms this] show ?thesis
    using wf_sample_strings from_data_header [of SYSTEM_SOURCE i "enc_bytes d"]
    by (simp add: upload_frame_def get_data_def bytes.push_enc message_new_data)
qed

lemma upload_outside_fs:
  "fs_answers upload_outside (\<lambda>p. if p = [RootDir, Normal ''w''] then Some p else None) (\<lambda>p. p = [RootDir, Normal ''w''])"
  by (simp add: fs_answers_def upload_outside_def sample_fs_def)

lemma upload_outside_answers:
  "o_connect upload_outside tr" "o_string upload_outside tr = ''/w''" "o_valid_url upload_outside url"
  "o_valid_header upload_outside h" "\<not> o_timeout upload_outside tr" "o_send upload_outside tr = Inr ()"
  "o_fs upload_outside tr = Inr ()"
  "o_receive upload_outside tr = Some (Inr (Binary (header SERVER_READY SYSTEM_SOURCE)))"
  by (simp_all add: upload_outside_def sample_fs_def quiet_outside_def get_data_def message_new_data)

lemma upload_outside_session:
  "\<exists>tr. handle_file_upload upload_outside (upload_request n) ''ws'' is [] = upload_loop upload_outside ''u'' sample_target n 0 is tr"
proof -
  have ready: "msg_id (from_data (header SERVER_READY SYSTEM_SOURCE)) = SERVER_READY"
    using from_data_header [of SYSTEM_SOURCE SERVER_READY "[]"] wf_sample_strings by simp
  have target: "path_join [RootDir, Normal ''w''] (parse_path (trim_start_slashes ''f'')) = sample_target"
    "parse_path ''/w'' = [RootDir, Normal ''w'']"
    by (simp_all add: parse_path_def path_join_def trim_start_slashes_def component_of_def)
  have within: "fst (validate_path_is_within upload_outside sample_target [RootDir, Normal ''w''] tr)" for tr
  proof -
    obtain tr3 where "find_existing upload_outside sample_target (tr @ [Canonicalize [RootDir, Normal ''w''], Canonicalize sample_target])
        = (Some [RootDir, Normal ''w''], tr3)"
      using find_existing_fst [OF upload_outside_fs] by (simp add: path_parent_def prod_eq_iff)
    then show ?thesis
      by (simp add: validate_path_is_within_def ask_defs upload_outside_def sample_fs_def starts_with_def strip_prefix_or_def)
  qed
  then have "\<forall>tr. \<exists>tr'. validate_path_is_within upload_outside sample_target [RootDir, Normal ''w''] tr = (True, tr')"
    by (metis prod.collapse)
  then obtain v where v: "validate_path_is_within upload_outside sample_target [RootDir, Normal ''w''] tr = (True, v tr)" for tr
    by metis
  show ?thesis
    by (simp add: handle_file_upload_def parse_upload_request handle_file_upload_internal_def connect_file_ws_def
        connect_file_ws_raw_def build_file_ws_request_def wait_for_server_ready_def validate_server_ready_def
        send_server_ready_ack_def resolve_working_directory_for_job_def resolve_working_directory_def upload_into_def
        create_and_receive_def ask_defs get_data_def message_new_data upload_outside_answers ready target v path_parent_def) blast
qed

subsection \<open>Properties\<close>

text \<open>
  C26. An upload that reports success has written the file exactly. When the completion message is sent,
  the file was created, every write and then the flush and the sync succeeded in this order, the bytes
  written are the chunks received, in order, and their number is exactly the announced size.
\<close>

theorem upload_is_exact:
  assumes "handle_file_upload env msg url is tr = (UploadComplete, tr')"
  shows "\<exists>pre p ws. tr' = tr @ pre @ [CreateFile p] @ ws
            @ [FlushFile, SyncFile, SendFile (upload_complete_frame (up_uuid (parse_upload_fields msg)))]
    \<and> list_all is_write ws \<and> written pre = [] \<and> succeeded env (tr @ pre) ([CreateFile p] @ ws @ [FlushFile, SyncFile])
    \<and> prefix (written ws) (upload_data is) \<and> length (written ws) = unat (up_file_size (parse_upload_fields msg))"
proof -
  let ?u = "parse_upload_fields msg"
  let ?res = "handle_file_upload_internal env ?u url is tr"
  have res: "?res = (UploadComplete, tr')" using assms by (simp add: handle_file_upload_def)
  have "\<not> failed_early (validated env ?u) env (up_uuid ?u) tr ?res" by (auto simp: res failed_early_def)
  then obtain p pre where pre: "list_all (early_event (validated env ?u) (up_uuid ?u)) pre"
    "o_fs env (tr @ pre @ [CreateFile p]) = Inr ()"
    "upload_loop env (up_uuid ?u) p (up_file_size ?u) 0 is (tr @ pre @ [CreateFile p]) = (UploadComplete, tr')"
    using upload_stage [of env ?u tr url "is"] by (auto simp: entered_loop_def res)
  obtain ws where ws: "tr' = (tr @ pre @ [CreateFile p]) @ ws @ [FlushFile, SyncFile, SendFile (upload_complete_frame (up_uuid ?u))]"
    "list_all is_write ws" "succeeded env (tr @ pre @ [CreateFile p]) (ws @ [FlushFile, SyncFile])"
    "prefix (written ws) (upload_data is)" "length (written ws) = unat (up_file_size ?u)"
    using upload_loop_spec [of 0 "up_file_size ?u" env "up_uuid ?u" p "is" "tr @ pre @ [CreateFile p]"] pre(3)
    by (auto simp: upload_spec_def)
  then show ?thesis using pre early_harmless(1) [OF pre(1)]
    by (intro exI [of _ pre] exI [of _ p] exI [of _ ws]) simp
qed

theorem upload_is_exact_witness:
  "\<exists>tr'. handle_file_upload upload_outside (upload_request 2) ''ws'' [upload_frame FILE_UPLOAD_CHUNK [1, 2], upload_frame FILE_UPLOAD_COMPLETE []] []
     = (UploadComplete, tr') \<and> (\<exists>ws. list_all is_write ws \<and> set ws \<subseteq> set tr' \<and> length (written ws) = 2)"
proof -
  let ?is = "[upload_frame FILE_UPLOAD_CHUNK [1, 2], upload_frame FILE_UPLOAD_COMPLETE []]"
  obtain tr where "handle_file_upload upload_outside (upload_request 2) ''ws'' ?is [] = upload_loop upload_outside ''u'' sample_target 2 0 ?is tr"
    using upload_outside_session by blast
  then obtain tr' where r: "handle_file_upload upload_outside (upload_request 2) ''ws'' ?is [] = (UploadComplete, tr')"
    using upload_frame_payload [of "[1, 2]" FILE_UPLOAD_CHUNK] upload_frame_payload [of "[]" FILE_UPLOAD_COMPLETE]
    by (auto simp: upload_message_def upload_chunk_def upload_finish_def finalize_upload_file_def ask_defs
        upload_outside_answers u64_saturating_sub_def)
  from upload_is_exact [OF r] obtain pre p ws where "tr' = [] @ pre @ [CreateFile p] @ ws
      @ [FlushFile, SyncFile, SendFile (upload_complete_frame (up_uuid (parse_upload_fields (upload_request 2))))]"
    "list_all is_write ws" "length (written ws) = unat (up_file_size (parse_upload_fields (upload_request 2)))" by blast
  then show ?thesis using r by (intro exI [of _ tr'] conjI exI [of _ ws]) (auto simp: parse_upload_request)
qed

text \<open>
  C27. A failed upload leaves no file behind and never reports success. Whatever fails, and whenever the
  peer goes away, an upload that ends without success has not sent the completion message, and every
  file it has created it has asked to remove afterwards.
\<close>

theorem failed_upload_is_undone:
  assumes "handle_file_upload env msg url is tr = (UploadFailed, tr')"
  shows "\<exists>es. tr' = tr @ es \<and> SendFile (upload_complete_frame (up_uuid (parse_upload_fields msg))) \<notin> set es
    \<and> (\<forall>es1 p es2. es = es1 @ CreateFile p # es2 \<longrightarrow> o_fs env (tr @ es1 @ [CreateFile p]) = Inr () \<longrightarrow> RemoveFile p \<in> set es2)"
proof -
  let ?u = "parse_upload_fields msg"
  let ?uuid = "up_uuid ?u"
  let ?res = "handle_file_upload_internal env ?u url is tr"
  have res: "?res = (UploadFailed, tr')" using assms by (simp add: handle_file_upload_def)
  from upload_stage [of env ?u tr url "is"] consider
      (early) pre where "list_all (early_event (validated env ?u) ?uuid) pre" "tr' = tr @ pre"
    | (uncreated) pre p e m where "list_all (early_event (validated env ?u) ?uuid) pre"
        "tr' = tr @ pre @ [CreateFile p, SendFile (file_error_frame FILE_UPLOAD_ERROR ?uuid m)]"
        "o_fs env (tr @ pre @ [CreateFile p]) = Inl e"
    | (loop) pre p where "list_all (early_event (validated env ?u) ?uuid) pre"
        "upload_loop env ?uuid p (up_file_size ?u) 0 is (tr @ pre @ [CreateFile p]) = (UploadFailed, tr')"
    unfolding failed_early_def entered_loop_def res by fastforce
  then show ?thesis
  proof cases
    case early
    have "\<forall>p. CreateFile p \<notin> set pre" using early_harmless(3) [OF early(1)] by blast
    then show ?thesis using early(2) early_harmless(2) [OF early(1)] by (intro exI [of _ pre]) auto
  next
    case uncreated
    let ?es = "[SendFile (file_error_frame FILE_UPLOAD_ERROR ?uuid m)]"
    have "\<forall>r. CreateFile r \<notin> set ?es" by simp
    note unique = early_create_unique [OF uncreated(1) _ this]
    have "o_fs env (tr @ es1 @ [CreateFile q]) \<noteq> Inr ()" if "pre @ CreateFile p # ?es = es1 @ CreateFile q # es2" for es1 q es2
      using unique [OF that] uncreated(3) by simp
    then show ?thesis using uncreated(2) early_harmless(2) [OF uncreated(1)]
      by (intro exI [of _ "pre @ CreateFile p # ?es"]) (simp add: complete_frame_distinct(1) [symmetric])
  next
    case loop
    obtain es where es: "tr' = (tr @ pre @ [CreateFile p]) @ es" "RemoveFile p \<in> set es"
      "SendFile (upload_complete_frame ?uuid) \<notin> set es" "\<forall>r. CreateFile r \<notin> set es"
      using failed_loop_events [OF loop(2)] by blast
    have "RemoveFile q \<in> set es2" if "pre @ CreateFile p # es = es1 @ CreateFile q # es2" for es1 q es2
      using early_create_unique [OF loop(1) that es(4)] es(2) by simp
    then show ?thesis using es early_harmless(2) [OF loop(1)]
      by (intro exI [of _ "pre @ CreateFile p # es"]) simp
  qed
qed

theorem failed_upload_is_undone_witness:
  "\<exists>tr'. handle_file_upload upload_outside (upload_request 2) ''ws'' [upload_frame FILE_UPLOAD_CHUNK [1, 2], None] []
     = (UploadFailed, tr') \<and> SendFile (upload_complete_frame ''u'') \<notin> set tr'"
proof -
  let ?is = "[upload_frame FILE_UPLOAD_CHUNK [1, 2], None]"
  obtain tr where "handle_file_upload upload_outside (upload_request 2) ''ws'' ?is [] = upload_loop upload_outside ''u'' sample_target 2 0 ?is tr"
    using upload_outside_session by blast
  then obtain tr' where r: "handle_file_upload upload_outside (upload_request 2) ''ws'' ?is [] = (UploadFailed, tr')"
    using upload_frame_payload [of "[1, 2]" FILE_UPLOAD_CHUNK]
    by (auto simp: upload_message_def upload_chunk_def ask_defs upload_outside_answers u64_saturating_sub_def)
  from failed_upload_is_undone [OF r] r show ?thesis by (auto simp: parse_upload_request)
qed

text \<open>A path inside the working directory that the request of an upload resolves to.\<close>

definition in_working_directory ::
  "outside \<Rightarrow> (path \<Rightarrow> path option) \<Rightarrow> (path \<Rightarrow> bool) \<Rightarrow> upload_fields \<Rightarrow> path \<Rightarrow> bool" where
  "in_working_directory env canon ex u p \<longleftrightarrow>
     (\<exists>wd tr. fst (resolve_working_directory_for_job env (up_job_id u) (up_bundle_hash u)
                (JString (up_target_path u)) ''file_upload'' tr) = Inr wd
        \<and> inside canon ex (parse_path wd) p)"



end
