(* ===== verification/Dispatch.thy ===== *)
theory Dispatch
  imports Websocket Jobs Config Download Upload
begin

text \<open>
  From a frame on the main connection to the work it starts: the dispatch of \<^verbatim>\<open>handle_message\<close>
  (\<^verbatim>\<open>src/src/src/websocket.rs\<close>) composed with the handlers of \<^verbatim>\<open>jobs/mod.rs\<close> and \<^verbatim>\<open>files/mod.rs\<close>. The requests of the server are
  a datatype with the fields of the protocol; what the client does with a request is stated on these fields, and the
  path through encoding, framing, dispatch and decoding is shown to come to the same.
\<close>

subsection \<open>Requests\<close>

datatype server_request =
  SubmitJob u32 string string
| CancelJob u32
| DeleteJob u32
| DownloadFile u32 string string string
| UploadFile string u32 string string u64
| ListFiles u32 string string string bool

fun request_id :: "server_request \<Rightarrow> u32" where
  "request_id (SubmitJob i hash params) = SUBMIT_JOB"
| "request_id (CancelJob i) = CANCEL_JOB"
| "request_id (DeleteJob i) = DELETE_JOB"
| "request_id (DownloadFile i uuid hash p) = FILE_DOWNLOAD"
| "request_id (UploadFile uuid i hash p n) = UPLOAD_FILE"
| "request_id (ListFiles i uuid hash p rec) = FILE_LIST"

fun request_values :: "server_request \<Rightarrow> wire_value list" where
  "request_values (SubmitJob i hash params) = [VUint i, VString hash, VString params]"
| "request_values (CancelJob i) = [VUint i]"
| "request_values (DeleteJob i) = [VUint i]"
| "request_values (DownloadFile i uuid hash p) = [VUint i, VString uuid, VString hash, VString p]"
| "request_values (UploadFile uuid i hash p n) = [VUint i, VString hash, VString p, VUlong n]"
| "request_values (ListFiles i uuid hash p rec) = [VUint i, VString uuid, VString hash, VString p, VBool rec]"

text \<open>An upload is named by the source of its message, any other request has any source.\<close>

fun source_ok :: "string \<Rightarrow> server_request \<Rightarrow> bool" where
  "source_ok src (UploadFile uuid i hash p n) \<longleftrightarrow> src = uuid"
| "source_ok src _ \<longleftrightarrow> True"

definition encode_request :: "priority \<Rightarrow> string \<Rightarrow> server_request \<Rightarrow> bytes" where
  "encode_request prio src req = get_data (push_values (message_new (request_id req) prio src) (request_values req))"

subsection \<open>Tasks\<close>

text \<open>What the task of a request meets: its surroundings, whether it gets the listing permit, and the frames of its file connection.\<close>

record task_world =
  tw_env :: outside
  tw_permit :: bool
  tw_inputs :: "phase_input list"
  tw_acks :: "incoming list"
  tw_frames :: "incoming list"

datatype task_result =
  JobTask trace
| ListTask "trace option"
| DownloadTask "download_end \<times> trace"
| UploadTask "upload_end \<times> trace"

definition run_handler :: "task_world \<Rightarrow> handler \<Rightarrow> message \<Rightarrow> task_result" where
  "run_handler W h m =
     (let env = tw_env W; ws_endpoint = get_websocket_endpoint (o_config env)
      in case h of
           HandleJobSubmit \<Rightarrow> JobTask (handle_job_submit env m [])
         | HandleJobCancel \<Rightarrow> JobTask (handle_job_cancel env m [])
         | HandleJobDelete \<Rightarrow> JobTask (handle_job_delete env m [])
         | HandleFileDownload \<Rightarrow> DownloadTask (handle_file_download env (tw_inputs W) (tw_acks W) m ws_endpoint [])
         | HandleFileUpload \<Rightarrow> UploadTask (handle_file_upload env m ws_endpoint (tw_frames W) [])
         | HandleFileList \<Rightarrow> ListTask (handle_file_list env (tw_permit W) m []))"

text \<open>What is to be done, on the fields.\<close>

fun perform_request :: "task_world \<Rightarrow> server_request \<Rightarrow> task_result" where
  "perform_request W (SubmitJob i hash params) = JobTask (submit_task (tw_env W) (ucast i) hash params [])"
| "perform_request W (CancelJob i) = JobTask (cancel_task (tw_env W) (ucast i) [])"
| "perform_request W (DeleteJob i) = JobTask (delete_task (tw_env W) (ucast i) [])"
| "perform_request W (DownloadFile i uuid hash p) =
     DownloadTask (run_download_supervisor (tw_env W) (tw_inputs W) (tw_acks W) (ucast i) uuid hash p
       (get_websocket_endpoint (o_config (tw_env W))) [])"
| "perform_request W (UploadFile uuid i hash p n) =
     UploadTask (handle_file_upload_internal (tw_env W)
       \<lparr>up_uuid = uuid, up_job_id = ucast i, up_bundle_hash = hash, up_target_path = p, up_file_size = n\<rparr>
       (get_websocket_endpoint (o_config (tw_env W))) (tw_frames W) [])"
| "perform_request W (ListFiles i uuid hash p rec) =
     ListTask (if tw_permit W then list_task (tw_env W) (ucast i) uuid hash p rec [] else Some [])"

fun handler_of :: "server_request \<Rightarrow> handler" where
  "handler_of (SubmitJob i hash params) = HandleJobSubmit"
| "handler_of (CancelJob i) = HandleJobCancel"
| "handler_of (DeleteJob i) = HandleJobDelete"
| "handler_of (DownloadFile i uuid hash p) = HandleFileDownload"
| "handler_of (UploadFile uuid i hash p n) = HandleFileUpload"
| "handler_of (ListFiles i uuid hash p rec) = HandleFileList"

subsection \<open>Lemmas\<close>

lemma received_header:
  assumes "wf_string src"
  shows "msg_id (from_data (encode_request prio src req)) = request_id req"
    "msg_source (from_data (encode_request prio src req)) = src"
  using assms from_data_header [of src "request_id req" "enc_values (request_values req)"]
  by (simp_all add: encode_request_def get_data_def push_values_enc message_new_data wf_string_def)

text \<open>Reading fields one after the other, as the handlers do, is reading the list of fields.\<close>

lemma handler_reads_request:
  assumes "fst (pop_values (map tag_of (request_values req)) m) = request_values req" "source_ok (msg_source m) req"
  shows "run_handler W (handler_of req) m = perform_request W req"
  using assms
  by (cases req)
    (auto simp: run_handler_def handle_job_submit_def handle_job_cancel_def handle_job_delete_def
      handle_file_download_def handle_file_upload_def parse_upload_fields_def handle_file_list_def Let_def map_prod_def split: prod.splits)

lemma dispatch_by_id:
  assumes "msg_id m = request_id req"
  shows "handle_message (connection_id c) m c = (c, [CallHandler (handler_of req) m])"
  using assms by (cases req) (simp_all add: handle_message_def)

subsection \<open>Properties\<close>

text \<open>
  C8. Every request of the server reaches the right handler with exactly its fields. A frame with an encoded request, arriving on
  the current connection, leaves the connection as it is and starts one task, and that task does what
  is to be done for the request, whatever it meets; the reader goes on with the next frame. On an older connection
  the frame does nothing.
\<close>

theorem request_reaches_handler:
  assumes "wf_string src" "source_ok src req" "\<forall>v\<in>set (request_values req). wf_value v"
  shows "\<exists>m. (if conn_id = connection_id c
      then handle_ws_message contended now conn_id (Inr (Binary (encode_request prio src req))) c
             = (c, [CallHandler (handler_of req) m], True)
      else handle_ws_message contended now conn_id (Inr (Binary (encode_request prio src req))) c = (c, [], True))
    \<and> (\<forall>W. run_handler W (handler_of req) m = perform_request W req)"
proof -
  let ?m = "from_data (encode_request prio src req)"
  have "fst (pop_values (map tag_of (request_values req)) ?m) = request_values req"
    unfolding encode_request_def using assms(1,3) by (intro received_fields) (simp_all add: wf_string_def)
  then have "\<forall>W. run_handler W (handler_of req) ?m = perform_request W req"
    using assms(1,2) by (simp add: handler_reads_request received_header)
  moreover have "handle_message conn_id ?m c = (if conn_id = connection_id c then (c, [CallHandler (handler_of req) ?m]) else (c, []))"
    using dispatch_by_id [of ?m req c] assms(1) by (auto simp: received_header handle_message_def)
  ultimately show ?thesis
    by (intro exI [of _ ?m]) (auto simp: handle_ws_message_def handle_incoming_message_def)
qed

theorem request_reaches_handler_witness:
  "\<exists>m. handle_ws_message (\<lambda>_. False) 0 0 (Inr (Binary (encode_request Highest ''system'' (SubmitJob 42 ''abc'' ''{}'')))) new_internal
       = (new_internal, [CallHandler HandleJobSubmit m], True)
     \<and> (\<forall>W. run_handler W HandleJobSubmit m = JobTask (submit_task (tw_env W) 42 ''abc'' ''{}'' []))"
proof -
  have "wf_string ''system''" "\<forall>v\<in>set (request_values (SubmitJob 42 ''abc'' ''{}'')). wf_value v"
    by (auto simp: wf_string_def intro!: wf_str_ascii)
  then show ?thesis
    using request_reaches_handler [of "''system''" "SubmitJob 42 ''abc'' ''{}''" 0 new_internal "\<lambda>_. False" 0 Highest]
    by (simp add: new_internal_def)
qed

subsection \<open>What the tasks send\<close>

text \<open>
  The other direction: the messages in the trace of a task are put into the queue of the client as the task queues them, and
  leave through the scheduler.
\<close>

fun post_event :: "event \<Rightarrow> ws_client \<Rightarrow> ws_client" where
  "post_event (QueueMessage src d p) c = queue_message src d p c"
| "post_event _ c = c"

definition post_events :: "trace \<Rightarrow> ws_client \<Rightarrow> ws_client" where
  "post_events tr c = fold post_event tr c"

fun queued_under :: "nat \<Rightarrow> string \<Rightarrow> event \<Rightarrow> bytes list" where
  "queued_under p s (QueueMessage src d prio) = (if src = s \<and> priority_level prio = p then [d] else [])"
| "queued_under p s _ = []"

text \<open>What the server reads from a job update.\<close>

definition decode_update :: "bytes \<Rightarrow> u32 \<times> u32 \<times> string \<times> u32 \<times> string" where
  "decode_update d =
     (let m = from_data d
      in case pop_uint m of (i, m1) \<Rightarrow> case pop_string m1 of (src, m2) \<Rightarrow>
         case pop_uint m2 of (status, m3) \<Rightarrow> case pop_string m3 of (text, m4) \<Rightarrow> (msg_id m, i, src, status, text))"

lemma priority_level_bound: "priority_level p < PRIORITY_LEVELS"
  by (cases p) (simp_all add: PRIORITY_LEVELS_def)

lemma post_events_pending:
  assumes "wf_queue (queue c)" "\<not> connection_closed c"
  shows "wf_queue (queue (post_events tr c)) \<and> pending (queue (post_events tr c)) p s =
    pending (queue c) p s @ concat (map (queued_under p s) tr)"
  using assms
proof (induction tr arbitrary: c)
  case (Cons e tr)
  have "wf_queue (queue (post_event e c)) \<and> \<not> connection_closed (post_event e c)
    \<and> pending (queue (post_event e c)) p s = pending (queue c) p s @ queued_under p s e"
    using Cons.prems priority_level_bound
    by (cases e) (auto simp: queue_message_def wf_enqueue pending_enqueue wf_queue_length)
  then show ?case using Cons.IH [of "post_event e c"] by (simp add: post_events_def)
qed (simp add: post_events_def)

lemma post_events_closed: "connection_closed c \<Longrightarrow> post_events tr c = c"
proof (induction tr arbitrary: c)
  case (Cons e tr)
  then show ?case by (cases e) (simp_all add: post_events_def queue_message_def)
qed (simp add: post_events_def)

lemma show_i64_length: "length (show_int (sint (j :: i64))) < 2 ^ 64"
proof -
  have "nat (sint j) < 2 ^ 63" "nat (- sint j) \<le> 2 ^ 63" using sint_lt [of j] sint_ge [of j] by simp_all
  then show ?thesis
    using length_show_nat [of "nat (sint j)"] length_show_nat [of "nat (- sint j)"] by (simp add: show_int_def)
qed

lemma decode_update_message:
  assumes "wf_string src" "wf_string text"
  shows "decode_update (get_data (update_message job_id src status text)) =
    (UPDATE_JOB, cap_job_id_for_wire job_id, src, status, text)"
proof -
  let ?vs = "[VUint (cap_job_id_for_wire job_id), VString src, VUint status, VString text]"
  let ?m = "from_data (get_data (push_values (message_new UPDATE_JOB Medium (show_int (sint job_id))) ?vs))"
  have e: "get_data (update_message job_id src status text) = get_data (push_values (message_new UPDATE_JOB Medium (show_int (sint job_id))) ?vs)"
    by (simp add: update_message_def push_values_def Let_def)
  have wf: "wf_str (show_int (sint job_id))" "length (show_int (sint job_id)) < 2 ^ 64"
    using show_i64_length [of job_id] by simp_all
  have "fst (pop_values (map tag_of ?vs) ?m) = ?vs"
    using wf assms by (intro received_fields) (simp_all add: wf_string_def)
  moreover have "msg_id ?m = UPDATE_JOB"
    using from_data_header [OF wf] by (simp add: get_data_def push_values_enc message_new_data)
  ultimately show ?thesis unfolding e by (auto simp: decode_update_def Let_def split: prod.splits)
qed

text \<open>
  C9. What a task sends while the connection is open reaches the server: once the scheduler has run through the
  queue, for every priority and source everything that was queued before and then everything that the task
  queued has been handed to the writer, in this order and nothing else, and every job update among it decodes to the
  job, source, status and text that it was made from. While the connection is closed nothing is queued.
\<close>

theorem updates_reach_server:
  assumes "wf_queue (queue c)"
  shows "if connection_closed c then post_events tr c = c
    else \<exists>q' out. scan_cycle rank (queue (post_events tr c)) (SScan 0 0 False) = (q', SWait, out)
      \<and> (\<forall>p s. emitted_by p s out = pending (queue c) p s @ concat (map (queued_under p s) tr))
      \<and> (\<forall>job_id src status text. update_event job_id src status text \<in> set tr \<longrightarrow> wf_string src \<longrightarrow> wf_string text \<longrightarrow>
           (UPDATE_JOB, cap_job_id_for_wire job_id, src, status, text)
             \<in> decode_update ` set (emitted_by (priority_level Medium) (show_int (sint job_id)) out))"
proof (cases "connection_closed c")
  case False
  note q = post_events_pending [OF assms False, of tr]
  obtain q' out where o: "scan_cycle rank (queue (post_events tr c)) (SScan 0 0 False) = (q', SWait, out)"
    "\<forall>p s. emitted_by p s out = pending (queue (post_events tr c)) p s"
    using scan_cycle_empties q by blast
  have "(UPDATE_JOB, cap_job_id_for_wire job_id, src, status, info)
      \<in> decode_update ` set (emitted_by (priority_level Medium) (show_int (sint job_id)) out)"
    if "update_event job_id src status info \<in> set tr" "wf_string src" "wf_string info" for job_id src status info
  proof -
    have "get_data (update_message job_id src status info) \<in>
        set (concat (map (queued_under (priority_level Medium) (show_int (sint job_id))) tr))"
      using that(1) by (force simp: update_event_def)
    then show ?thesis
      using decode_update_message [OF that(2,3), of job_id status] o(2) q by (force simp del: set_concat)
  qed
  then show ?thesis using False o q by auto
qed (simp add: post_events_closed)

theorem updates_reach_server_witness:
  "\<exists>out. (\<exists>q'. scan_cycle (\<lambda>_ _. 0) (queue (post_events [update_event 42 ''system'' SUBMITTED ''ok''] new_internal)) (SScan 0 0 False)
       = (q', SWait, out))
     \<and> (UPDATE_JOB, cap_job_id_for_wire 42, ''system'', SUBMITTED, ''ok'')
         \<in> decode_update ` set (emitted_by (priority_level Medium) (show_int (sint (42 :: i64))) out)"
proof -
  have "wf_queue (queue new_internal)" "\<not> connection_closed new_internal" using wf_new_queue by (simp_all add: new_internal_def)
  moreover have "wf_string ''system''" "wf_string ''ok''" by (auto simp: wf_string_def intro!: wf_str_ascii)
  ultimately show ?thesis
    using updates_reach_server [of new_internal "[update_event 42 ''system'' SUBMITTED ''ok'']" "\<lambda>_ _. 0"] by fastforce
qed

end
