(* ===== verification/Client_Singleton.thy ===== *)
theory Client_Singleton
  imports Once_Cell
begin

text \<open>
  The one websocket client of the process, \<^verbatim>\<open>get_websocket_client\<close> and \<^verbatim>\<open>get_tungstenite_client\<close> of
  \<^verbatim>\<open>src/src/src/websocket.rs\<close>: two cells behind locks, looked up first with the read lock and again with the write lock. A client is
  named by the number of clients made before it. Threads that ask for the client run together; what happens
  under one lock without another is one step.
\<close>

datatype caller =
  Asks
| AsksDirectly
| Missed
| Writing
| Got nat

record clients =
  GLOBAL_CLIENT :: "nat option"
  TUNGSTENITE_CLIENT :: "nat option"
  global_writer :: "nat option"
  made :: nat
  callers :: "caller list"

definition make_client :: "clients \<Rightarrow> (nat \<times> clients) option" where
  "make_client s = Some (made s, s\<lparr>made := Suc (made s)\<rparr>)"

definition get_tungstenite_client :: "clients \<Rightarrow> (nat \<times> clients) option" where
  "get_tungstenite_client =
     get_or_init TUNGSTENITE_CLIENT (\<lambda>v s. s\<lparr>TUNGSTENITE_CLIENT := Some v\<rparr>) make_client"

definition caller_at :: "nat \<Rightarrow> caller \<Rightarrow> clients \<Rightarrow> clients" where
  "caller_at i c s = s\<lparr>callers := (callers s)[i := c]\<rparr>"

inductive client_step :: "clients \<Rightarrow> clients \<Rightarrow> bool" where
  read_hit: "i < length (callers s) \<Longrightarrow> callers s ! i = Asks \<Longrightarrow> global_writer s = None \<Longrightarrow>
    GLOBAL_CLIENT s = Some c \<Longrightarrow> client_step s (caller_at i (Got c) s)"
| read_miss: "i < length (callers s) \<Longrightarrow> callers s ! i = Asks \<Longrightarrow> global_writer s = None \<Longrightarrow>
    GLOBAL_CLIENT s = None \<Longrightarrow> client_step s (caller_at i Missed s)"
| write_hit: "i < length (callers s) \<Longrightarrow> callers s ! i = Missed \<Longrightarrow> global_writer s = None \<Longrightarrow>
    GLOBAL_CLIENT s = Some c \<Longrightarrow> client_step s (caller_at i (Got c) s)"
| write_miss: "i < length (callers s) \<Longrightarrow> callers s ! i = Missed \<Longrightarrow> global_writer s = None \<Longrightarrow>
    GLOBAL_CLIENT s = None \<Longrightarrow> client_step s (caller_at i Writing s\<lparr>global_writer := Some i\<rparr>)"
| fill: "i < length (callers s) \<Longrightarrow> callers s ! i = Writing \<Longrightarrow> get_tungstenite_client s = Some (c, s') \<Longrightarrow>
    client_step s (caller_at i (Got c) s'\<lparr>GLOBAL_CLIENT := Some c, global_writer := None\<rparr>)"
| direct: "i < length (callers s) \<Longrightarrow> callers s ! i = AsksDirectly \<Longrightarrow> get_tungstenite_client s = Some (c, s') \<Longrightarrow>
    client_step s (caller_at i (Got c) s')"

fun asking :: "caller \<Rightarrow> bool" where
  "asking Asks \<longleftrightarrow> True"
| "asking AsksDirectly \<longleftrightarrow> True"
| "asking _ \<longleftrightarrow> False"

definition clients_start :: "caller list \<Rightarrow> clients" where
  "clients_start cs = \<lparr>GLOBAL_CLIENT = None, TUNGSTENITE_CLIENT = None, global_writer = None, made = 0, callers = filter asking cs\<rparr>"

definition clients_inv :: "clients \<Rightarrow> bool" where
  "clients_inv s \<longleftrightarrow>
     made s = (if TUNGSTENITE_CLIENT s = None then 0 else 1)
     \<and> (\<forall>c \<in> set_option (TUNGSTENITE_CLIENT s). c = 0)
     \<and> (\<forall>c. GLOBAL_CLIENT s = Some c \<or> Got c \<in> set (callers s) \<longrightarrow> TUNGSTENITE_CLIENT s = Some c)"

interpretation tungstenite_cell: once_cell TUNGSTENITE_CLIENT "\<lambda>v s. s\<lparr>TUNGSTENITE_CLIENT := Some v\<rparr>"
  by unfold_locales simp

lemma get_tungstenite_client_inv:
  assumes "get_tungstenite_client s = Some (c, s')" "clients_inv s"
  shows "clients_inv s' \<and> TUNGSTENITE_CLIENT s' = Some c \<and> callers s' = callers s \<and> GLOBAL_CLIENT s' = GLOBAL_CLIENT s"
  using assms
  by (cases "TUNGSTENITE_CLIENT s") (auto simp: get_tungstenite_client_def get_or_init_def make_client_def clients_inv_def)

lemma clients_inv_got:
  assumes "clients_inv s" "TUNGSTENITE_CLIENT s = Some c"
  shows "clients_inv (caller_at i (Got c) s)" "clients_inv (caller_at i (Got c) s\<lparr>GLOBAL_CLIENT := Some c, global_writer := None\<rparr>)"
  using assms set_update_subset_insert [of "callers s" i "Got c"] by (auto simp: clients_inv_def caller_at_def)

lemma global_is_made: "clients_inv s \<Longrightarrow> GLOBAL_CLIENT s = Some c \<Longrightarrow> TUNGSTENITE_CLIENT s = Some c"
  by (simp add: clients_inv_def)

lemma clients_inv_step: "client_step s s' \<Longrightarrow> clients_inv s \<Longrightarrow> clients_inv s'"
proof (induction rule: client_step.induct)
  case (read_miss i s)
  then show ?case using set_update_subset_insert [of "callers s" i Missed] by (auto simp: clients_inv_def caller_at_def)
next
  case (write_miss i s)
  then show ?case using set_update_subset_insert [of "callers s" i Writing] by (auto simp: clients_inv_def caller_at_def)
next
  case (read_hit i s c)
  then show ?case by (blast intro: clients_inv_got global_is_made)
next
  case (write_hit i s c)
  then show ?case by (blast intro: clients_inv_got global_is_made)
qed (blast intro: clients_inv_got dest: get_tungstenite_client_inv)+

interpretation client_cell: invariant_system "clients_start cs" client_step clients_inv
proof unfold_locales
  show "clients_inv (clients_start cs)" by (auto simp: clients_inv_def clients_start_def)
qed (rule clients_inv_step)

text \<open>All threads of the process, however they interleave, get the same client, and no second one is made.\<close>

lemma one_client:
  assumes "client_step\<^sup>*\<^sup>* (clients_start cs) s" "Got c \<in> set (callers s)" "Got d \<in> set (callers s)"
  shows "c = d \<and> made s = 1"
  using client_cell.inv_always [OF assms(1)] assms(2,3) by (auto simp: clients_inv_def)

end
