(* ===== verification/Connection_End.thy ===== *)
theory Connection_End
  imports Websocket
begin

text \<open>
  How \<^verbatim>\<open>run_connection\<close> of \<^verbatim>\<open>src/src/src/websocket.rs\<close> ends. \<open>Websocket\<close> lets a connection last until its reader has called
  \<^verbatim>\<open>handle_disconnect\<close>; here the function runs beside the five tasks it spawns. It spawns them one after the other and
  only then waits for its \<^verbatim>\<open>Notify\<close>. \<^verbatim>\<open>notify_waiters\<close> wakes who waits already and leaves nothing behind for who comes later.
\<close>

record connection_run =
  cr_client :: ws_client
  cr_spawned :: nat
  cr_waits :: bool
  cr_returned :: bool

abbreviation TASKS :: nat where "TASKS \<equiv> 5"

definition notified :: "u64 \<Rightarrow> ws_effect list \<Rightarrow> connection_run \<Rightarrow> connection_run" where
  "notified conn_id eff s =
     (if NotifyDisconnect conn_id \<in> set eff \<and> cr_waits s then s\<lparr>cr_waits := False, cr_returned := True\<rparr> else s)"

text \<open>The reader is the first task; it, the writer and the ping task may find the connection ended at any time.\<close>

inductive end_step :: "u64 \<Rightarrow> connection_run \<Rightarrow> connection_run \<Rightarrow> bool" for conn_id where
  spawn: "cr_spawned s < TASKS \<Longrightarrow> \<not> cr_waits s \<Longrightarrow> \<not> cr_returned s \<Longrightarrow> end_step conn_id s (s\<lparr>cr_spawned := Suc (cr_spawned s)\<rparr>)"
| await: "cr_spawned s = TASKS \<Longrightarrow> \<not> cr_waits s \<Longrightarrow> \<not> cr_returned s \<Longrightarrow> end_step conn_id s (s\<lparr>cr_waits := True\<rparr>)"
| receive: "0 < cr_spawned s \<Longrightarrow> handle_message conn_id m (cr_client s) = (c, eff) \<Longrightarrow> end_step conn_id s (s\<lparr>cr_client := c\<rparr>)"
| disconnect: "0 < cr_spawned s \<Longrightarrow> handle_disconnect contended conn_id (cr_client s) = (c, eff) \<Longrightarrow>
    end_step conn_id s (notified conn_id eff (s\<lparr>cr_client := c\<rparr>))"

definition end_start :: "ws_client \<Rightarrow> connection_run" where
  "end_start c = \<lparr>cr_client = connection_established (fst (connection_attempt c)), cr_spawned = 0, cr_waits = False, cr_returned = False\<rparr>"

subsection \<open>Lemmas\<close>

lemma disconnect_fields:
  assumes "handle_disconnect contended conn_id c = (c', eff)"
  shows "connection_id c' = connection_id c" "connection_closed c' \<longleftrightarrow> connection_closed c \<or> connection_id c = conn_id"
    "NotifyDisconnect conn_id \<in> set eff \<longleftrightarrow> connection_id c = conn_id \<and> \<not> connection_closed c"
  using assms by (auto simp: handle_disconnect_def take_promises_def Let_def split: if_splits)

lemma message_fields:
  assumes "handle_message conn_id m c = (c', eff)"
  shows "connection_id c' = connection_id c" "connection_closed c' = connection_closed c"
  using assms by (auto simp: handle_message_def split: if_splits option.splits prod.splits)

text \<open>
  The connection of the run stays the current one; the function returns only when the connection is closed; and a
  function that waits on an open connection is still to be woken.
\<close>

definition end_inv :: "u64 \<Rightarrow> connection_run \<Rightarrow> bool" where
  "end_inv conn_id s \<longleftrightarrow> connection_id (cr_client s) = conn_id \<and> (cr_returned s \<longrightarrow> connection_closed (cr_client s) \<and> \<not> cr_waits s)
     \<and> (cr_waits s \<longrightarrow> cr_spawned s = TASKS)"

lemma end_inv_step:
  assumes "end_step conn_id s s'" "end_inv conn_id s"
  shows "end_inv conn_id s'"
  using assms
  by (induction rule: end_step.induct) (auto simp: end_inv_def notified_def dest: disconnect_fields message_fields)

interpretation ending: invariant_system "end_start c" "end_step (connection_id c + 1)" "end_inv (connection_id c + 1)"
proof unfold_locales
  show "end_inv (connection_id c + 1) (end_start c)"
    by (simp add: end_inv_def end_start_def connection_established_def connection_attempt_def)
qed (rule end_inv_step)

text \<open>Closed, and nobody will be told any more.\<close>

definition missed :: "connection_run \<Rightarrow> bool" where
  "missed s \<longleftrightarrow> connection_closed (cr_client s) \<and> \<not> cr_returned s"

lemma missed_step:
  assumes "end_step conn_id s s'" "missed s"
  shows "missed s'"
  using assms
  by (induction rule: end_step.induct) (auto simp: missed_def notified_def dest: disconnect_fields message_fields)

text \<open>A connection that is open while the function waits ends with its return.\<close>

definition awake :: "connection_run \<Rightarrow> bool" where
  "awake s \<longleftrightarrow> cr_returned s \<or> cr_waits s \<and> \<not> connection_closed (cr_client s)"

lemma awake_step:
  assumes "end_step conn_id s s'" "end_inv conn_id s" "awake s"
  shows "awake s'"
  using assms
  by (induction rule: end_step.induct) (auto simp: end_inv_def awake_def notified_def dest: disconnect_fields message_fields)

lemma missed_forever: "(end_step conn_id)\<^sup>*\<^sup>* s s' \<Longrightarrow> missed s \<Longrightarrow> missed s'"
  by (induction rule: rtranclp_induct) (auto intro: missed_step)

lemma spawn_all:
  assumes "k \<le> TASKS" "\<not> cr_waits s" "\<not> cr_returned s"
  shows "(end_step conn_id)\<^sup>*\<^sup>* (s\<lparr>cr_spawned := k\<rparr>) (s\<lparr>cr_spawned := TASKS\<rparr>)"
  using assms(1)
proof (induction rule: inc_induct)
  case (step n)
  have "end_step conn_id (s\<lparr>cr_spawned := n\<rparr>) (s\<lparr>cr_spawned := Suc n\<rparr>)"
    using end_step.spawn [of "s\<lparr>cr_spawned := n\<rparr>" conn_id] step(2) assms(2,3) by simp
  then show ?case using step.IH by (rule converse_rtranclp_into_rtranclp)
qed simp

text \<open>The reader ends the connection before the other tasks are spawned.\<close>

lemma missed_is_reachable:
  "\<exists>s. (end_step (connection_id c + 1))\<^sup>*\<^sup>* (end_start c) s \<and> missed s \<and> cr_waits s"
proof -
  let ?id = "connection_id c + 1" and ?s0 = "end_start c"
  let ?s1 = "?s0\<lparr>cr_spawned := 1\<rparr>"
  obtain c2 eff where d: "handle_disconnect (\<lambda>_. False) ?id (cr_client ?s1) = (c2, eff)" by fastforce
  let ?s2 = "?s1\<lparr>cr_client := c2\<rparr>"
  have swap: "x\<lparr>cr_spawned := k, cr_client := d\<rparr> = x\<lparr>cr_client := d, cr_spawned := k\<rparr>" for x :: connection_run and k d
    by (cases x) simp
  have s0: "cr_spawned ?s0 = 0" "\<not> cr_waits ?s0" "\<not> cr_returned ?s0" "connection_id (cr_client ?s0) = ?id"
    by (simp_all add: end_start_def connection_established_def connection_attempt_def)
  have "end_step ?id ?s0 ?s1" using end_step.spawn [of ?s0 ?id] s0 by simp
  moreover have "end_step ?id ?s1 ?s2" using end_step.disconnect [OF _ d] s0 by (simp add: notified_def)
  moreover have "(end_step ?id)\<^sup>*\<^sup>* ?s2 (?s2\<lparr>cr_spawned := TASKS\<rparr>)" using spawn_all [of 1 ?s2 ?id] s0 by (simp add: swap)
  moreover have "end_step ?id (?s2\<lparr>cr_spawned := TASKS\<rparr>) (?s2\<lparr>cr_spawned := TASKS, cr_waits := True\<rparr>)"
    using end_step.await [of "?s2\<lparr>cr_spawned := TASKS\<rparr>" ?id] s0 by simp
  ultimately have "(end_step ?id)\<^sup>*\<^sup>* ?s0 (?s2\<lparr>cr_spawned := TASKS, cr_waits := True\<rparr>)"
    by (meson converse_rtranclp_into_rtranclp rtranclp.rtrancl_into_rtrancl)
  moreover have "connection_closed c2" using disconnect_fields(2) [OF d] s0 by simp
  ultimately show ?thesis using s0 by (intro exI conjI) (auto simp: missed_def)
qed

subsection \<open>Properties\<close>



end
