(* ===== verification/Python_Refs.thy ===== *)
theory Python_Refs
  imports Environment "HOL-Library.State_Monad" "HOL-Library.Multiset"
begin

text \<open>
  The Python C API as the client uses it, with the ownership of references: what
  \<^verbatim>\<open>src/src/src/python_interface.rs\<close> wraps. A pointer is an object or NULL (\<open>None\<close>). What the interpreter
  answers to a call may depend on all calls so far and is given by a record \<open>python\<close>; what every call
  does to the references the calling code owns and to the error indicator is as CPython documents it:

  \<^item> a call that returns a new reference adds it to the references owned, or returns NULL with the error
    indicator set;
  \<^item> \<^verbatim>\<open>PyTuple_SetItem\<close> takes over the reference of the item, also when it fails;
  \<^item> \<^verbatim>\<open>PyErr_Fetch\<close> clears the indicator and hands over up to three references;
  \<^item> \<^verbatim>\<open>Py_DecRef\<close> gives up one owned reference.

  Giving up or passing on a reference that is not owned, calling an object that is not, attaching a second
  thread state and detaching without one set \<open>misused\<close>. Reads of borrowed objects are not tracked.

  The calling thread also has an entry in the map of \<^verbatim>\<open>thread_bundle_map.rs\<close> (\<open>thread_bundle\<close>), the thread state
  it is attached with (\<open>current\<close>; it holds the interpreter lock exactly while it has one) and, under
  \<^verbatim>\<open>PYTHON_MUTEX\<close>, the saved main thread state \<^verbatim>\<open>STATE\<close> of \<^verbatim>\<open>bundle_interface.rs\<close> (\<open>saved\<close>). The lines of
  exception reports and of bundles are kept in \<open>logged\<close>. The last three fields belong to the modules that
  bundles import: the exception objects \<^verbatim>\<open>BUNDLE_DB_ERRORS\<close> and the requests sent to the server (\<^verbatim>\<open>bundle_db.rs\<close>), and the
  unfinished line \<^verbatim>\<open>LINE_PARTS\<close> of the thread (\<^verbatim>\<open>bundle_logging.rs\<close>).
\<close>

type_synonym pyobj = nat

datatype py_call =
  GetAttr pyobj string
| TupleNew nat
| TupleSet pyobj nat
| CallObject pyobj pyobj
| UnicodeFrom string
| AsUTF8 pyobj
| AsU64 pyobj
| LongFrom u64
| Callable pyobj
| Fetch
| GetIter pyobj
| IterNext pyobj
| Repr pyobj
| Str pyobj
| Import string
| DictNew
| DictSet pyobj string
| RunScript
| ListAppend pyobj
| SysPath
| TupleGet pyobj nat
| ModuleNew string
| ModuleAdd pyobj string
| NewException
| NewInterpreter
| NewThreadState nat
| SetError pyobj string

record python =
  a_obj :: "py_call list \<Rightarrow> pyobj option"
  a_err :: "py_call list \<Rightarrow> bool"
  a_fails :: "py_call list \<Rightarrow> bool"
  a_str :: "py_call list \<Rightarrow> string option"
  a_u64 :: "py_call list \<Rightarrow> u64"
  a_fetch :: "py_call list \<Rightarrow> pyobj \<times> pyobj option \<times> pyobj option"
  a_items :: "py_call list \<Rightarrow> pyobj list"
  a_state :: "py_call list \<Rightarrow> nat option"
  a_main :: "nat option"
  a_none :: pyobj
  a_true :: pyobj
  json_text :: "json \<Rightarrow> string"
  json_parse :: "string \<Rightarrow> json option"

datatype log_level = LogInfo | LogError

record py =
  calls :: "py_call list"
  owned :: "pyobj multiset"
  pending_error :: bool
  misused :: bool
  logged :: "(log_level \<times> string) list"
  thread_bundle :: "string option"
  current :: "nat option"
  saved :: "nat option"
  db_errors :: "string \<rightharpoonup> pyobj"
  line_parts :: "string list"
  requests :: "message list"

type_synonym 'a py_m = "(py, 'a) state"

definition refs :: "pyobj option \<Rightarrow> pyobj multiset" where
  "refs p = (case p of None \<Rightarrow> {#} | Some x \<Rightarrow> {#x#})"

subsection \<open>The wrapped functions\<close>

definition py_new :: "python \<Rightarrow> py_call \<Rightarrow> pyobj option py_m" where
  "py_new P c = State (\<lambda>s.
     let cs = calls s @ [c]
     in (a_obj P cs, s\<lparr>calls := cs, owned := owned s + refs (a_obj P cs),
                      pending_error := (pending_error s \<or> a_obj P cs = None)\<rparr>))"

text \<open>A call that runs Python code; the client also expects an error next to a result.\<close>

definition py_run :: "python \<Rightarrow> py_call \<Rightarrow> pyobj option py_m" where
  "py_run P c = State (\<lambda>s.
     let cs = calls s @ [c]
     in (a_obj P cs, s\<lparr>calls := cs, owned := owned s + refs (a_obj P cs),
                      pending_error := (pending_error s \<or> a_obj P cs = None \<or> a_err P cs)\<rparr>))"

definition PyObject_CallObject :: "python \<Rightarrow> pyobj \<Rightarrow> pyobj \<Rightarrow> pyobj option py_m" where
  "PyObject_CallObject P f args = State (\<lambda>s.
     run_state (py_run P (CallObject f args)) (s\<lparr>misused := (misused s \<or> \<not> {#f, args#} \<subseteq># owned s)\<rparr>))"

definition Py_IncRef :: "pyobj \<Rightarrow> unit py_m" where
  "Py_IncRef x = State (\<lambda>s. ((), s\<lparr>owned := add_mset x (owned s)\<rparr>))"

definition Py_DecRef :: "pyobj \<Rightarrow> unit py_m" where
  "Py_DecRef x = State (\<lambda>s. ((), s\<lparr>owned := owned s - {#x#}, misused := (misused s \<or> x \<notin># owned s)\<rparr>))"

definition Py_XDECREF :: "pyobj option \<Rightarrow> unit py_m" where
  "Py_XDECREF p = (case p of None \<Rightarrow> State_Monad.return () | Some x \<Rightarrow> Py_DecRef x)"

text \<open>The result tells whether the call failed (a negative status).\<close>

definition PyTuple_SetItem :: "python \<Rightarrow> pyobj \<Rightarrow> nat \<Rightarrow> pyobj \<Rightarrow> bool py_m" where
  "PyTuple_SetItem P t i x = State (\<lambda>s.
     let cs = calls s @ [TupleSet t i]
     in (a_fails P cs, s\<lparr>calls := cs, owned := owned s - {#x#},
                        pending_error := (pending_error s \<or> a_fails P cs),
                        misused := (misused s \<or> \<not> {#t, x#} \<subseteq># owned s)\<rparr>))"

definition py_status :: "python \<Rightarrow> py_call \<Rightarrow> bool py_m" where
  "py_status P c = State (\<lambda>s.
     let cs = calls s @ [c]
     in (a_fails P cs, s\<lparr>calls := cs, pending_error := (pending_error s \<or> a_fails P cs)\<rparr>))"

definition PyCallable_Check :: "python \<Rightarrow> pyobj \<Rightarrow> bool py_m" where
  "PyCallable_Check P f = State (\<lambda>s. let cs = calls s @ [Callable f] in (\<not> a_fails P cs, s\<lparr>calls := cs\<rparr>))"

definition PyUnicode_AsUTF8 :: "python \<Rightarrow> pyobj \<Rightarrow> string option py_m" where
  "PyUnicode_AsUTF8 P x = State (\<lambda>s.
     let cs = calls s @ [AsUTF8 x]
     in (a_str P cs, s\<lparr>calls := cs, pending_error := (pending_error s \<or> a_str P cs = None)\<rparr>))"

definition PyLong_AsUnsignedLongLong :: "python \<Rightarrow> pyobj \<Rightarrow> u64 py_m" where
  "PyLong_AsUnsignedLongLong P x = State (\<lambda>s.
     let cs = calls s @ [AsU64 x]
     in (a_u64 P cs, s\<lparr>calls := cs, pending_error := (pending_error s \<or> a_err P cs)\<rparr>))"

definition PyErr_Occurred :: "bool py_m" where
  "PyErr_Occurred = State (\<lambda>s. (pending_error s, s))"

definition PyErr_Clear :: "unit py_m" where
  "PyErr_Clear = State (\<lambda>s. ((), s\<lparr>pending_error := False\<rparr>))"

definition PyErr_Print :: "unit py_m" where
  "PyErr_Print = PyErr_Clear"

definition PyErr_Fetch :: "python \<Rightarrow> (pyobj option \<times> pyobj option \<times> pyobj option) py_m" where
  "PyErr_Fetch P = State (\<lambda>s.
     let cs = calls s @ [Fetch];
         (t, v, b) = (if pending_error s then (case a_fetch P cs of (x, y, z) \<Rightarrow> (Some x, y, z)) else (None, None, None))
     in ((t, v, b), s\<lparr>calls := cs, owned := owned s + refs t + refs v + refs b, pending_error := False\<rparr>))"

definition PyErr_SetString :: "pyobj \<Rightarrow> string \<Rightarrow> unit py_m" where
  "PyErr_SetString exc msg = State (\<lambda>s. ((), s\<lparr>calls := calls s @ [SetError exc msg], pending_error := True\<rparr>))"

text \<open>An item of a tuple and an entry of \<^verbatim>\<open>sys\<close> are borrowed; \<^verbatim>\<open>PySys_GetObject\<close> sets no error.\<close>

definition PyTuple_GetItem :: "python \<Rightarrow> pyobj \<Rightarrow> nat \<Rightarrow> pyobj option py_m" where
  "PyTuple_GetItem P t i = State (\<lambda>s.
     let cs = calls s @ [TupleGet t i]
     in (a_obj P cs, s\<lparr>calls := cs, pending_error := (pending_error s \<or> a_obj P cs = None)\<rparr>))"

definition PySys_GetObject :: "python \<Rightarrow> py_call \<Rightarrow> pyobj option py_m" where
  "PySys_GetObject P c = State (\<lambda>s. let cs = calls s @ [c] in (a_obj P cs, s\<lparr>calls := cs\<rparr>))"

text \<open>\<^verbatim>\<open>PyModule_AddObject\<close> takes over the reference only if it succeeds.\<close>

definition PyModule_AddObject :: "python \<Rightarrow> pyobj \<Rightarrow> string \<Rightarrow> pyobj \<Rightarrow> bool py_m" where
  "PyModule_AddObject P m nm x = State (\<lambda>s.
     let cs = calls s @ [ModuleAdd m nm]
     in (a_fails P cs, s\<lparr>calls := cs, owned := (if a_fails P cs then owned s else owned s - {#x#}),
                        pending_error := (pending_error s \<or> a_fails P cs),
                        misused := (misused s \<or> \<not> {#m, x#} \<subseteq># owned s)\<rparr>))"

text \<open>
  The iterator protocol: \<open>iter_items\<close> is the list of items the iterator will give, \<open>PyIter_Next P i (Some x)\<close> gives
  one of them as a new reference, and \<open>PyIter_Next P i None\<close> is the call that finds none, with or without an
  error.
\<close>

definition iter_items :: "python \<Rightarrow> pyobj list py_m" where
  "iter_items P = State (\<lambda>s. (a_items P (calls s), s))"

definition PyIter_Next :: "python \<Rightarrow> pyobj \<Rightarrow> pyobj option \<Rightarrow> unit py_m" where
  "PyIter_Next P i p = State (\<lambda>s.
     let cs = calls s @ [IterNext i]
     in ((), s\<lparr>calls := cs, owned := owned s + refs p,
              pending_error := (pending_error s \<or> (p = None \<and> a_fails P cs))\<rparr>))"

definition log_error :: "string \<Rightarrow> unit py_m" where
  "log_error line = State (\<lambda>s. ((), s\<lparr>logged := logged s @ [(LogError, line)]\<rparr>))"

text \<open>Thread states. \<^verbatim>\<open>PyThreadState_Swap\<close> exchanges the current one without a look at the interpreter lock.\<close>

definition PyEval_RestoreThread :: "nat \<Rightarrow> unit py_m" where
  "PyEval_RestoreThread ts = State (\<lambda>s. ((), s\<lparr>misused := (misused s \<or> current s \<noteq> None), current := Some ts\<rparr>))"

definition PyEval_SaveThread :: "nat option py_m" where
  "PyEval_SaveThread = State (\<lambda>s. (current s, s\<lparr>misused := (misused s \<or> current s = None), current := None\<rparr>))"

definition PyThreadState_Swap :: "nat option \<Rightarrow> nat option py_m" where
  "PyThreadState_Swap ts = State (\<lambda>s. (current s, s\<lparr>current := ts\<rparr>))"

definition PyThreadState_Get :: "nat option py_m" where
  "PyThreadState_Get = State (\<lambda>s. (current s, s\<lparr>misused := (misused s \<or> current s = None)\<rparr>))"

text \<open>\<^verbatim>\<open>Py_NewInterpreter\<close> makes the first thread state of the new interpreter the current one, or none if it fails.\<close>

definition Py_NewInterpreter :: "python \<Rightarrow> nat option py_m" where
  "Py_NewInterpreter P = State (\<lambda>s.
     let cs = calls s @ [NewInterpreter]
     in (a_state P cs, s\<lparr>calls := cs, misused := (misused s \<or> current s = None), current := a_state P cs\<rparr>))"

definition Py_EndInterpreter :: "nat \<Rightarrow> unit py_m" where
  "Py_EndInterpreter ts = State (\<lambda>s. ((), s\<lparr>misused := (misused s \<or> current s \<noteq> Some ts), current := None\<rparr>))"

definition PyThreadState_New :: "python \<Rightarrow> nat \<Rightarrow> nat option py_m" where
  "PyThreadState_New P interp = State (\<lambda>s.
     let cs = calls s @ [NewThreadState interp] in (a_state P cs, s\<lparr>calls := cs\<rparr>))"

text \<open>The error indicator belongs to the thread state and goes with it.\<close>

definition PyThreadState_DeleteCurrent :: "unit py_m" where
  "PyThreadState_DeleteCurrent = State (\<lambda>s.
     ((), s\<lparr>pending_error := False, misused := (misused s \<or> current s = None), current := None\<rparr>))"

definition get_state_slot :: "nat option py_m" where
  "get_state_slot = State (\<lambda>s. (saved s, s))"

definition set_state_slot :: "nat option \<Rightarrow> unit py_m" where
  "set_state_slot p = State (\<lambda>s. ((), s\<lparr>saved := p\<rparr>))"

definition set_current_thread_bundle :: "string \<Rightarrow> unit py_m" where
  "set_current_thread_bundle h = State (\<lambda>s. ((), s\<lparr>thread_bundle := Some h\<rparr>))"

definition clear_current_thread_bundle :: "unit py_m" where
  "clear_current_thread_bundle = State (\<lambda>s. ((), s\<lparr>thread_bundle := None\<rparr>))"

definition get_current_thread_bundle :: "string option py_m" where
  "get_current_thread_bundle = State (\<lambda>s. (thread_bundle s, s))"

definition return_py_none :: "python \<Rightarrow> pyobj option py_m" where
  "return_py_none P = do { Py_IncRef (a_none P); State_Monad.return (Some (a_none P)) }"

text \<open>A Rust string can be passed as a C string exactly if it has no NUL character.\<close>

definition has_nul :: "string \<Rightarrow> bool" where
  "has_nul s \<longleftrightarrow> CHR 0x00 \<in> set s"

subsection \<open>Weakest preconditions and contracts\<close>

text \<open>The weakest precondition of client code, computed by the simplifier through \<open>wp_simps\<close>.\<close>

definition wp :: "'a py_m \<Rightarrow> ('a \<Rightarrow> py \<Rightarrow> bool) \<Rightarrow> py \<Rightarrow> bool" where
  "wp m Q s \<longleftrightarrow> (case run_state m s of (v, s') \<Rightarrow> Q v s')"

named_theorems wp_simps

lemma wp_bind [wp_simps]: "wp (m \<bind> f) Q s = wp m (\<lambda>v. wp (f v) Q) s"
  by (simp add: wp_def split: prod.split)

lemma wp_return [wp_simps]: "wp (State_Monad.return v) Q s = Q v s"
  by (simp add: wp_def)

lemma wp_if [wp_simps]: "wp (if b then m else n) Q s = (if b then wp m Q s else wp n Q s)"
  by simp

lemma wp_option [wp_simps]:
  "wp (case p of None \<Rightarrow> m | Some x \<Rightarrow> n x) Q s = (case p of None \<Rightarrow> wp m Q s | Some x \<Rightarrow> wp (n x) Q s)"
  by (simp split: option.split)

lemma wp_sum [wp_simps]:
  "wp (case r of Inl e \<Rightarrow> m e | Inr x \<Rightarrow> n x) Q s = (case r of Inl e \<Rightarrow> wp (m e) Q s | Inr x \<Rightarrow> wp (n x) Q s)"
  by (simp split: sum.split)

lemma wp_prod [wp_simps]: "wp (case p of (x, y) \<Rightarrow> m x y) Q s = (case p of (x, y) \<Rightarrow> wp (m x y) Q s)"
  by (simp split: prod.split)

lemma wp_new [wp_simps]:
  "wp (py_new P c) Q s = (let cs = calls s @ [c] in
     Q (a_obj P cs) (s\<lparr>calls := cs, owned := owned s + refs (a_obj P cs),
                       pending_error := (pending_error s \<or> a_obj P cs = None)\<rparr>))"
  by (simp add: wp_def py_new_def Let_def)

lemma wp_run [wp_simps]:
  "wp (py_run P c) Q s = (let cs = calls s @ [c] in
     Q (a_obj P cs) (s\<lparr>calls := cs, owned := owned s + refs (a_obj P cs),
                       pending_error := (pending_error s \<or> a_obj P cs = None \<or> a_err P cs)\<rparr>))"
  by (simp add: wp_def py_run_def Let_def)

lemma wp_call [wp_simps]:
  "wp (PyObject_CallObject P f args) Q s =
     wp (py_run P (CallObject f args)) Q (s\<lparr>misused := (misused s \<or> \<not> {#f, args#} \<subseteq># owned s)\<rparr>)"
  by (simp add: wp_def PyObject_CallObject_def)

lemma wp_refs [wp_simps]:
  "wp (Py_IncRef x) Q s = Q () (s\<lparr>owned := add_mset x (owned s)\<rparr>)"
  "wp (Py_DecRef x) Q s = Q () (s\<lparr>owned := owned s - {#x#}, misused := (misused s \<or> x \<notin># owned s)\<rparr>)"
  "wp (Py_XDECREF p) Q s = (case p of None \<Rightarrow> Q () s | Some x \<Rightarrow> wp (Py_DecRef x) Q s)"
  by (simp_all add: wp_def Py_IncRef_def Py_DecRef_def Py_XDECREF_def split: option.split)

lemma wp_set_item [wp_simps]:
  "wp (PyTuple_SetItem P t i x) Q s = (let cs = calls s @ [TupleSet t i] in
     Q (a_fails P cs) (s\<lparr>calls := cs, owned := owned s - {#x#}, pending_error := (pending_error s \<or> a_fails P cs),
                         misused := (misused s \<or> \<not> {#t, x#} \<subseteq># owned s)\<rparr>))"
  by (simp add: wp_def PyTuple_SetItem_def Let_def)

lemma wp_reads [wp_simps]:
  "wp (py_status P c) Qb s = (let cs = calls s @ [c] in
     Qb (a_fails P cs) (s\<lparr>calls := cs, pending_error := (pending_error s \<or> a_fails P cs)\<rparr>))"
  "wp (PyCallable_Check P f) Qb s = (let cs = calls s @ [Callable f] in Qb (\<not> a_fails P cs) (s\<lparr>calls := cs\<rparr>))"
  "wp (PyUnicode_AsUTF8 P x) Qt s = (let cs = calls s @ [AsUTF8 x] in
     Qt (a_str P cs) (s\<lparr>calls := cs, pending_error := (pending_error s \<or> a_str P cs = None)\<rparr>))"
  "wp (PyLong_AsUnsignedLongLong P x) Qu s = (let cs = calls s @ [AsU64 x] in
     Qu (a_u64 P cs) (s\<lparr>calls := cs, pending_error := (pending_error s \<or> a_err P cs)\<rparr>))"
  by (simp_all add: wp_def py_status_def PyCallable_Check_def PyUnicode_AsUTF8_def PyLong_AsUnsignedLongLong_def Let_def)

lemma wp_errors [wp_simps]:
  "wp PyErr_Occurred Qb s = Qb (pending_error s) s"
  "wp PyErr_Clear Q s = Q () (s\<lparr>pending_error := False\<rparr>)"
  "wp PyErr_Print Q s = Q () (s\<lparr>pending_error := False\<rparr>)"
  "wp (PyErr_SetString e m) Q s = Q () (s\<lparr>calls := calls s @ [SetError e m], pending_error := True\<rparr>)"
  by (simp_all add: wp_def PyErr_Occurred_def PyErr_Clear_def PyErr_Print_def PyErr_SetString_def)

lemma wp_fetch [wp_simps]:
  "wp (PyErr_Fetch P) Q s = (let cs = calls s @ [Fetch];
       (t, v, b) = (if pending_error s then (case a_fetch P cs of (x, y, z) \<Rightarrow> (Some x, y, z)) else (None, None, None))
     in Q (t, v, b) (s\<lparr>calls := cs, owned := owned s + refs t + refs v + refs b, pending_error := False\<rparr>))"
  by (simp add: wp_def PyErr_Fetch_def Let_def split: prod.split prod.split_asm)

lemma wp_items [wp_simps]:
  "wp (PyTuple_GetItem P t i) Qo s = (let cs = calls s @ [TupleGet t i] in
     Qo (a_obj P cs) (s\<lparr>calls := cs, pending_error := (pending_error s \<or> a_obj P cs = None)\<rparr>))"
  "wp (PySys_GetObject P c) Qo s = (let cs = calls s @ [c] in Qo (a_obj P cs) (s\<lparr>calls := cs\<rparr>))"
  "wp (PyModule_AddObject P m nm x) Qb s = (let cs = calls s @ [ModuleAdd m nm] in
     Qb (a_fails P cs) (s\<lparr>calls := cs, owned := (if a_fails P cs then owned s else owned s - {#x#}),
        pending_error := (pending_error s \<or> a_fails P cs), misused := (misused s \<or> \<not> {#m, x#} \<subseteq># owned s)\<rparr>))"
  "wp (iter_items P) Ql s = Ql (a_items P (calls s)) s"
  "wp (PyIter_Next P i p) Q s = (let cs = calls s @ [IterNext i] in
     Q () (s\<lparr>calls := cs, owned := owned s + refs p, pending_error := (pending_error s \<or> (p = None \<and> a_fails P cs))\<rparr>))"
  "wp (log_error line) Q s = Q () (s\<lparr>logged := logged s @ [(LogError, line)]\<rparr>)"
  by (simp_all add: wp_def PyTuple_GetItem_def PySys_GetObject_def PyModule_AddObject_def iter_items_def
      PyIter_Next_def log_error_def Let_def)

lemma wp_states [wp_simps]:
  "wp (PyEval_RestoreThread ts) Q s = Q () (s\<lparr>misused := (misused s \<or> current s \<noteq> None), current := Some ts\<rparr>)"
  "wp PyEval_SaveThread Qn s = Qn (current s) (s\<lparr>misused := (misused s \<or> current s = None), current := None\<rparr>)"
  "wp (PyThreadState_Swap p) Qn s = Qn (current s) (s\<lparr>current := p\<rparr>)"
  "wp PyThreadState_Get Qn s = Qn (current s) (s\<lparr>misused := (misused s \<or> current s = None)\<rparr>)"
  "wp (Py_NewInterpreter P) Qn s = (let cs = calls s @ [NewInterpreter] in
     Qn (a_state P cs) (s\<lparr>calls := cs, misused := (misused s \<or> current s = None), current := a_state P cs\<rparr>))"
  "wp (Py_EndInterpreter ts) Q s = Q () (s\<lparr>misused := (misused s \<or> current s \<noteq> Some ts), current := None\<rparr>)"
  "wp (PyThreadState_New P i) Qn s = (let cs = calls s @ [NewThreadState i] in Qn (a_state P cs) (s\<lparr>calls := cs\<rparr>))"
  "wp PyThreadState_DeleteCurrent Q s =
     Q () (s\<lparr>pending_error := False, misused := (misused s \<or> current s = None), current := None\<rparr>)"
  "wp get_state_slot Qn s = Qn (saved s) s"
  "wp (set_state_slot p) Q s = Q () (s\<lparr>saved := p\<rparr>)"
  by (simp_all add: wp_def PyEval_RestoreThread_def PyEval_SaveThread_def PyThreadState_Swap_def PyThreadState_Get_def
      Py_NewInterpreter_def Py_EndInterpreter_def PyThreadState_New_def PyThreadState_DeleteCurrent_def
      get_state_slot_def set_state_slot_def Let_def)

lemma wp_thread [wp_simps]:
  "wp (set_current_thread_bundle h) Q s = Q () (s\<lparr>thread_bundle := Some h\<rparr>)"
  "wp clear_current_thread_bundle Q s = Q () (s\<lparr>thread_bundle := None\<rparr>)"
  "wp get_current_thread_bundle Qt s = Qt (thread_bundle s) s"
  by (simp_all add: wp_def set_current_thread_bundle_def clear_current_thread_bundle_def get_current_thread_bundle_def)

lemma refs_simps [simp]: "refs None = {#}" "refs (Some x) = {#x#}"
  by (simp_all add: refs_def)

lemma wp_mono: "wp m Q s \<Longrightarrow> (\<And>v s'. Q v s' \<Longrightarrow> Q' v s') \<Longrightarrow> wp m Q' s"
  by (simp add: wp_def split: prod.splits)

text \<open>What code on the same thread leaves alone: the bundle of the thread, its thread state and \<^verbatim>\<open>STATE\<close>.\<close>

definition thread_of :: "py \<Rightarrow> string option \<times> nat option \<times> nat option" where
  "thread_of s = (thread_bundle s, current s, saved s)"

text \<open>
  The contract of client code: next to what was owned it ends with the references \<open>R v\<close>, where \<open>v\<close> is its
  result; it misuses none and leaves the thread as it was; the error indicator is related by \<open>E\<close>.
\<close>

definition contract :: "'a py_m \<Rightarrow> ('a \<Rightarrow> pyobj multiset) \<Rightarrow> ('a \<Rightarrow> bool \<Rightarrow> bool \<Rightarrow> bool) \<Rightarrow> bool" where
  "contract m R E \<longleftrightarrow> (\<forall>s. \<not> misused s \<longrightarrow>
     wp m (\<lambda>v s'. owned s' = owned s + R v \<and> \<not> misused s' \<and> thread_of s' = thread_of s
                  \<and> E v (pending_error s) (pending_error s')) s)"

lemma contractI:
  "(\<And>s. \<not> misused s \<Longrightarrow> wp m (\<lambda>v s'. owned s' = owned s + R v \<and> \<not> misused s' \<and> thread_of s' = thread_of s
                  \<and> E v (pending_error s) (pending_error s')) s) \<Longrightarrow> contract m R E"
  by (simp add: contract_def)

lemma contract_wp:
  assumes "contract m R E" "\<not> misused s"
    and "\<And>v s'. owned s' = owned s + R v \<Longrightarrow> \<not> misused s' \<Longrightarrow> thread_of s' = thread_of s
           \<Longrightarrow> E v (pending_error s) (pending_error s') \<Longrightarrow> Q v s'"
  shows "wp m Q s"
  using assms(1,2) wp_mono [of m _ s Q] assms(3) unfolding contract_def by blast

text \<open>No error is pending afterwards.\<close>

abbreviation (input) cleared :: "'a \<Rightarrow> bool \<Rightarrow> bool \<Rightarrow> bool" where
  "cleared v e e' \<equiv> \<not> e'"

text \<open>No new error is pending afterwards.\<close>

abbreviation (input) unchanged :: "'a \<Rightarrow> bool \<Rightarrow> bool \<Rightarrow> bool" where
  "unchanged v e e' \<equiv> e' \<longrightarrow> e"

subsection \<open>An interpreter in which every call succeeds\<close>

definition willing_python :: python where
  "willing_python = \<lparr>a_obj = (\<lambda>cs. Some (length cs)), a_err = (\<lambda>_. False), a_fails = (\<lambda>_. False),
     a_str = (\<lambda>_. Some ''text''), a_u64 = (\<lambda>_. 7), a_fetch = (\<lambda>_. (0, None, None)), a_items = (\<lambda>_. []),
     a_state = (\<lambda>cs. Some (length cs)), a_main = Some 0, a_none = 0, a_true = 1,
     json_text = (\<lambda>_. ''{}''), json_parse = (\<lambda>_. None)\<rparr>"

definition idle_thread :: py where
  "idle_thread = \<lparr>calls = [], owned = {#}, pending_error = False, misused = False, logged = [],
     thread_bundle = None, current = None, saved = None, db_errors = Map.empty, line_parts = [], requests = []\<rparr>"

end
