(* ===== verification/Bundle_Interface.thy ===== *)
theory Bundle_Interface
  imports Python_Refs
begin

text \<open>
  The interface to one bundle: \<^verbatim>\<open>src/src/src/bundle_interface.rs\<close>, with the sub-interpreters and thread scopes of
  \<^verbatim>\<open>python_interface.rs\<close>. Every early return of the code is a branch here, with the references it releases
  written out; guards that Rust drops at the end of a scope are written where they are dropped. The lemmas
  show that each function releases what it obtained on every branch.
\<close>

record bundle_interface =
  python_interpreter :: nat
  p_bundle_module :: pyobj
  json_module :: pyobj
  traceback_module :: pyobj
  bundle_hash :: string

subsection \<open>Helpers of the exception report\<close>

definition swallow_python_error :: "python \<Rightarrow> unit py_m" where
  "swallow_python_error P = do {
     (ex, val, tb) \<leftarrow> PyErr_Fetch P;
     Py_XDECREF ex;
     Py_XDECREF val;
     Py_XDECREF tb;
     PyErr_Clear
   }"

definition extract_type_name :: "python \<Rightarrow> pyobj \<Rightarrow> string py_m" where
  "extract_type_name P extype = do {
     type_str \<leftarrow> py_new P (GetAttr extype ''__name__'');
     case type_str of
       None \<Rightarrow> do { swallow_python_error P; State_Monad.return ''unknown'' }
     | Some ts \<Rightarrow> do {
         c_str \<leftarrow> PyUnicode_AsUTF8 P ts;
         name \<leftarrow> (case c_str of
                   None \<Rightarrow> do { PyErr_Clear; State_Monad.return ''unknown'' }
                 | Some t \<Rightarrow> State_Monad.return t);
         Py_DecRef ts;
         State_Monad.return name
       }
   }"

text \<open>The converter is \<open>Repr\<close> or \<open>Str\<close>.\<close>

definition extract_value_string :: "python \<Rightarrow> pyobj option \<Rightarrow> (pyobj \<Rightarrow> py_call) \<Rightarrow> string py_m" where
  "extract_value_string P value converter =
     (case value of
        None \<Rightarrow> State_Monad.return ''''
      | Some v \<Rightarrow> do {
          str_obj \<leftarrow> py_new P (converter v);
          case str_obj of
            None \<Rightarrow> do { swallow_python_error P; State_Monad.return '''' }
          | Some so \<Rightarrow> do {
              c_str \<leftarrow> PyUnicode_AsUTF8 P so;
              s \<leftarrow> (case c_str of
                      None \<Rightarrow> do { PyErr_Clear; State_Monad.return '''' }
                    | Some t \<Rightarrow> State_Monad.return t);
              Py_DecRef so;
              State_Monad.return s
            }
        })"

definition fallback_value_text :: "string \<Rightarrow> string \<Rightarrow> string" where
  "fallback_value_text display repr = (if display = [] then repr else display)"

definition set_exception_value_slot :: "python \<Rightarrow> pyobj \<Rightarrow> pyobj option \<Rightarrow> pyobj \<Rightarrow> bool py_m" where
  "set_exception_value_slot P eo_args value eo_func =
     (case value of
        None \<Rightarrow> do {
          Py_IncRef (a_none P);
          failed \<leftarrow> PyTuple_SetItem P eo_args 1 (a_none P);
          if failed then do {
            log_error ''Error setting exception value in args tuple'';
            PyErr_Print;
            Py_DecRef eo_args;
            Py_DecRef eo_func;
            State_Monad.return False
          } else State_Monad.return True
        }
      | Some v \<Rightarrow> do {
          failed \<leftarrow> PyTuple_SetItem P eo_args 1 v;
          if failed then do {
            log_error ''Error setting exception value in args tuple'';
            PyErr_Print;
            Py_DecRef eo_args;
            Py_DecRef eo_func;
            State_Monad.return False
          } else State_Monad.return True
        })"

primrec log_items :: "python \<Rightarrow> pyobj \<Rightarrow> pyobj list \<Rightarrow> unit py_m" where
  "log_items P i [] = do {
     PyIter_Next P i None;
     e \<leftarrow> PyErr_Occurred;
     if e then swallow_python_error P else State_Monad.return ()
   }"
| "log_items P i (x # xs) = do {
     PyIter_Next P i (Some x);
     c_str \<leftarrow> PyUnicode_AsUTF8 P x;
     (case c_str of None \<Rightarrow> swallow_python_error P | Some t \<Rightarrow> log_error t);
     Py_DecRef x;
     log_items P i xs
   }"

definition log_python_lines :: "python \<Rightarrow> pyobj \<Rightarrow> unit py_m" where
  "log_python_lines P lines = do {
     it \<leftarrow> py_new P (GetIter lines);
     case it of
       None \<Rightarrow> swallow_python_error P
     | Some i \<Rightarrow> do {
         items \<leftarrow> iter_items P;
         log_items P i items;
         Py_DecRef i
       }
   }"

subsection \<open>Reporting an exception\<close>

text \<open>The traceback frames of \<^verbatim>\<open>print_last_python_exception\<close>; takes over the reference to the traceback.\<close>

definition format_frames :: "python \<Rightarrow> bundle_interface \<Rightarrow> string \<Rightarrow> pyobj \<Rightarrow> unit py_m" where
  "format_frames P b type_name tb = do {
     tb_func \<leftarrow> py_new P (GetAttr (traceback_module b) ''format_tb'');
     case tb_func of
       None \<Rightarrow> do { Py_DecRef tb; swallow_python_error P }
     | Some f \<Rightarrow> do {
         tb_args \<leftarrow> py_new P (TupleNew 1);
         case tb_args of
           None \<Rightarrow> do {
             Py_DecRef tb;
             Py_DecRef f;
             swallow_python_error P;
             log_error (''Error formatting python traceback frames (type was '' @ type_name @ '')'')
           }
         | Some args \<Rightarrow> do {
             failed \<leftarrow> PyTuple_SetItem P args 0 tb;
             if failed then do {
               log_error ''Error setting traceback in args tuple'';
               PyErr_Print;
               Py_DecRef args;
               Py_DecRef f
             } else do {
               tb_lines \<leftarrow> PyObject_CallObject P f args;
               e \<leftarrow> PyErr_Occurred;
               (case tb_lines of
                  None \<Rightarrow> do {
                    log_error (''Error formatting python traceback frames (type was '' @ type_name @ '')'');
                    swallow_python_error P
                  }
                | Some l \<Rightarrow>
                    if e then do {
                      log_error (''Error formatting python traceback frames (type was '' @ type_name @ '')'');
                      Py_DecRef l;
                      swallow_python_error P
                    } else do {
                      log_error ''Traceback (most recent call last):'';
                      log_python_lines P l;
                      Py_DecRef l
                    });
               Py_DecRef args;
               Py_DecRef f
             }
           }
       }
   }"

text \<open>The header line; takes over the references to the type and the value.\<close>

definition format_header ::
    "python \<Rightarrow> bundle_interface \<Rightarrow> string \<Rightarrow> string \<Rightarrow> pyobj \<Rightarrow> pyobj option \<Rightarrow> unit py_m" where
  "format_header P b type_name fallback extype value = do {
     eo_func \<leftarrow> py_new P (GetAttr (traceback_module b) ''format_exception_only'');
     case eo_func of
       None \<Rightarrow> do {
         Py_DecRef extype;
         Py_XDECREF value;
         swallow_python_error P;
         log_error (type_name @ '': '' @ fallback)
       }
     | Some f \<Rightarrow> do {
         eo_args \<leftarrow> py_new P (TupleNew 2);
         case eo_args of
           None \<Rightarrow> do {
             Py_DecRef extype;
             Py_XDECREF value;
             Py_DecRef f;
             swallow_python_error P;
             log_error (type_name @ '': '' @ fallback)
           }
         | Some args \<Rightarrow> do {
             failed \<leftarrow> PyTuple_SetItem P args 0 extype;
             if failed then do {
               log_error ''Error setting exception type in args tuple'';
               PyErr_Print;
               Py_DecRef args;
               Py_XDECREF value;
               Py_DecRef f
             } else do {
               slot \<leftarrow> set_exception_value_slot P args value f;
               if \<not> slot then State_Monad.return () else do {
                 eo_lines \<leftarrow> PyObject_CallObject P f args;
                 e \<leftarrow> PyErr_Occurred;
                 (case eo_lines of
                    None \<Rightarrow> do {
                      log_error (type_name @ '': '' @ fallback);
                      swallow_python_error P
                    }
                  | Some l \<Rightarrow>
                      if e then do {
                        log_error (type_name @ '': '' @ fallback);
                        Py_DecRef l;
                        swallow_python_error P
                      } else do {
                        log_python_lines P l;
                        Py_DecRef l
                      });
                 Py_DecRef args;
                 Py_DecRef f
               }
             }
           }
       }
   }"

definition print_last_python_exception :: "python \<Rightarrow> bundle_interface \<Rightarrow> unit py_m" where
  "print_last_python_exception P b = do {
     (extype, value, tb) \<leftarrow> PyErr_Fetch P;
     case extype of
       None \<Rightarrow> State_Monad.return ()
     | Some t \<Rightarrow> do {
         type_name \<leftarrow> extract_type_name P t;
         value_str \<leftarrow> extract_value_string P value Repr;
         value_display \<leftarrow> extract_value_string P value Str;
         log_error (''Python exception: type='' @ type_name @ '' value=\"'' @ value_str @ ''\"'');
         (case tb of None \<Rightarrow> State_Monad.return () | Some tr \<Rightarrow> format_frames P b type_name tr);
         format_header P b type_name (fallback_value_text value_display value_str) t value
       }
   }"

subsection \<open>Conversions\<close>

definition to_string_py :: "python \<Rightarrow> pyobj option \<Rightarrow> string py_m" where
  "to_string_py P obj =
     (case obj of
        None \<Rightarrow> State_Monad.return ''''
      | Some x \<Rightarrow> do {
          c_str \<leftarrow> PyUnicode_AsUTF8 P x;
          case c_str of
            None \<Rightarrow> do { PyErr_Clear; State_Monad.return '''' }
          | Some t \<Rightarrow> State_Monad.return t
        })"

definition to_uint64 :: "python \<Rightarrow> pyobj option \<Rightarrow> u64 py_m" where
  "to_uint64 P obj =
     (case obj of
        None \<Rightarrow> State_Monad.return 0
      | Some x \<Rightarrow> do {
          result \<leftarrow> PyLong_AsUnsignedLongLong P x;
          e \<leftarrow> PyErr_Occurred;
          if e then do { PyErr_Clear; State_Monad.return 0 } else State_Monad.return result
        })"

definition to_bool :: "python \<Rightarrow> pyobj option \<Rightarrow> bool" where
  "to_bool P obj = (case obj of None \<Rightarrow> False | Some x \<Rightarrow> x = a_true P)"

definition dispose_object :: "pyobj option \<Rightarrow> unit py_m" where
  "dispose_object obj = (case obj of None \<Rightarrow> State_Monad.return () | Some x \<Rightarrow> Py_DecRef x)"

definition json_dumps :: "python \<Rightarrow> bundle_interface \<Rightarrow> pyobj option \<Rightarrow> (string + string) py_m" where
  "json_dumps P b obj =
     (case obj of
        None \<Rightarrow> State_Monad.return (Inr ''null'')
      | Some x \<Rightarrow> do {
          p_func \<leftarrow> py_new P (GetAttr (json_module b) ''dumps'');
          case p_func of
            None \<Rightarrow> do { PyErr_Clear; State_Monad.return (Inl ''Failed to get json.dumps function'') }
          | Some f \<Rightarrow> do {
              p_args \<leftarrow> py_new P (TupleNew 1);
              case p_args of
                None \<Rightarrow> do {
                  Py_DecRef f;
                  PyErr_Clear;
                  State_Monad.return (Inl ''Failed to allocate argument tuple'')
                }
              | Some args \<Rightarrow> do {
                  Py_IncRef x;
                  failed \<leftarrow> PyTuple_SetItem P args 0 x;
                  if failed then do {
                    PyErr_Print;
                    Py_DecRef args;
                    Py_DecRef f;
                    State_Monad.return (Inl ''Error calling json.dumps'')
                  } else do {
                    p_value \<leftarrow> PyObject_CallObject P f args;
                    e \<leftarrow> PyErr_Occurred;
                    if p_value = None \<or> e then do {
                      print_last_python_exception P b;
                      Py_DecRef args;
                      Py_DecRef f;
                      Py_XDECREF p_value;
                      State_Monad.return (Inl ''Error calling json.dumps'')
                    } else do {
                      result \<leftarrow> to_string_py P p_value;
                      Py_DecRef args;
                      Py_DecRef f;
                      Py_XDECREF p_value;
                      State_Monad.return (Inr result)
                    }
                  }
                }
            }
        })"

definition json_loads :: "python \<Rightarrow> bundle_interface \<Rightarrow> string \<Rightarrow> pyobj option py_m" where
  "json_loads P b content = do {
     p_func \<leftarrow> py_new P (GetAttr (json_module b) ''loads'');
     case p_func of
       None \<Rightarrow> do { PyErr_Clear; State_Monad.return None }
     | Some f \<Rightarrow> do {
         p_args \<leftarrow> py_new P (TupleNew 1);
         case p_args of
           None \<Rightarrow> do { Py_DecRef f; PyErr_Clear; State_Monad.return None }
         | Some args \<Rightarrow>
             if has_nul content then do { Py_DecRef args; Py_DecRef f; State_Monad.return None }
             else do {
               p_value \<leftarrow> py_new P (UnicodeFrom content);
               case p_value of
                 None \<Rightarrow> do { Py_DecRef args; Py_DecRef f; PyErr_Clear; State_Monad.return None }
               | Some v \<Rightarrow> do {
                   failed \<leftarrow> PyTuple_SetItem P args 0 v;
                   if failed then do { PyErr_Print; Py_DecRef args; Py_DecRef f; State_Monad.return None }
                   else do {
                     result \<leftarrow> PyObject_CallObject P f args;
                     e \<leftarrow> PyErr_Occurred;
                     if result = None \<or> e then do {
                       print_last_python_exception P b;
                       Py_DecRef args;
                       Py_DecRef f;
                       Py_XDECREF result;
                       State_Monad.return None
                     } else do {
                       Py_DecRef args;
                       Py_DecRef f;
                       State_Monad.return result
                     }
                   }
                 }
             }
       }
   }"

subsection \<open>Running a function of the bundle\<close>

text \<open>\<open>None\<close> is \<^verbatim>\<open>Err(NoneException)\<close>. The call itself, with both arguments in the tuple.\<close>

definition call_bundle_function :: "python \<Rightarrow> bundle_interface \<Rightarrow> pyobj \<Rightarrow> pyobj \<Rightarrow> pyobj option py_m" where
  "call_bundle_function P b f args = do {
     set_current_thread_bundle (bundle_hash b);
     p_result \<leftarrow> PyObject_CallObject P f args;
     e \<leftarrow> PyErr_Occurred;
     if p_result = None \<or> e then do {
       print_last_python_exception P b;
       Py_DecRef args;
       Py_DecRef f;
       Py_XDECREF p_result;
       clear_current_thread_bundle;
       State_Monad.return None
     } else do {
       clear_current_thread_bundle;
       Py_DecRef args;
       Py_DecRef f;
       if p_result = Some (a_none P) then do { Py_XDECREF p_result; State_Monad.return None }
       else State_Monad.return p_result
     }
   }"

definition run :: "python \<Rightarrow> bundle_interface \<Rightarrow> string \<Rightarrow> json \<Rightarrow> string \<Rightarrow> pyobj option py_m" where
  "run P b func details job_data = do {
     json_obj \<leftarrow> json_loads P b (json_text P details);
     case json_obj of
       None \<Rightarrow> State_Monad.return None
     | Some j \<Rightarrow>
         if has_nul func then do { Py_DecRef j; State_Monad.return None }
         else do {
           p_func \<leftarrow> py_new P (GetAttr (p_bundle_module b) func);
           case p_func of
             None \<Rightarrow> do { swallow_python_error P; Py_DecRef j; State_Monad.return None }
           | Some f \<Rightarrow> do {
               callable \<leftarrow> PyCallable_Check P f;
               if \<not> callable then do { Py_DecRef f; Py_DecRef j; State_Monad.return None }
               else do {
                 p_args \<leftarrow> py_new P (TupleNew 2);
                 case p_args of
                   None \<Rightarrow> do { Py_DecRef f; Py_DecRef j; State_Monad.return None }
                 | Some args \<Rightarrow> do {
                     failed \<leftarrow> PyTuple_SetItem P args 0 j;
                     if failed then do { PyErr_Print; Py_DecRef args; Py_DecRef f; State_Monad.return None }
                     else if has_nul job_data then do { Py_DecRef args; Py_DecRef f; State_Monad.return None }
                     else do {
                       p_job_data \<leftarrow> py_new P (UnicodeFrom job_data);
                       case p_job_data of
                         None \<Rightarrow> do {
                           swallow_python_error P;
                           Py_DecRef args;
                           Py_DecRef f;
                           State_Monad.return None
                         }
                       | Some d \<Rightarrow> do {
                           failed \<leftarrow> PyTuple_SetItem P args 1 d;
                           if failed then do { PyErr_Print; Py_DecRef args; Py_DecRef f; State_Monad.return None }
                           else call_bundle_function P b f args
                         }
                     }
                   }
               }
             }
         }
   }"

subsection \<open>Interpreters and thread scopes\<close>

definition SubInterpreter_new :: "python \<Rightarrow> (string + nat) py_m" where
  "SubInterpreter_new P = do {
     saved_ts \<leftarrow> PyThreadState_Get;
     ts \<leftarrow> Py_NewInterpreter P;
     case ts of
       None \<Rightarrow> do { PyThreadState_Swap saved_ts; State_Monad.return (Inl ''Py_NewInterpreter failed'') }
     | Some t \<Rightarrow> do { PyThreadState_Swap saved_ts; State_Monad.return (Inr t) }
   }"

definition SubInterpreter_drop :: "nat \<Rightarrow> unit py_m" where
  "SubInterpreter_drop ts = do {
     old_ts \<leftarrow> PyThreadState_Swap (Some ts);
     Py_EndInterpreter ts;
     PyThreadState_Swap old_ts;
     State_Monad.return ()
   }"

definition ThreadScope_new :: "python \<Rightarrow> nat \<Rightarrow> (string + nat) py_m" where
  "ThreadScope_new P interp = do {
     ts \<leftarrow> PyThreadState_New P interp;
     case ts of
       None \<Rightarrow> State_Monad.return (Inl ''PyThreadState_New failed'')
     | Some t \<Rightarrow> do { PyEval_RestoreThread t; State_Monad.return (Inr t) }
   }"

text \<open>Clears and deletes the thread state, which is the current one.\<close>

definition ThreadScope_drop :: "unit py_m" where
  "ThreadScope_drop = PyThreadState_DeleteCurrent"

subsection \<open>Loading a bundle\<close>

text \<open>If \<^verbatim>\<open>STATE\<close> is empty, it gets the main thread state \<^verbatim>\<open>MAIN_TS\<close>; then the thread state in it, if any, is attached.\<close>

definition restore_main_state :: "python \<Rightarrow> unit py_m" where
  "restore_main_state P = do {
     slot \<leftarrow> get_state_slot;
     (case slot of None \<Rightarrow> set_state_slot (a_main P) | Some _ \<Rightarrow> State_Monad.return ());
     slot \<leftarrow> get_state_slot;
     (case slot of
        None \<Rightarrow> State_Monad.return ()
      | Some ts \<Rightarrow> do { PyEval_RestoreThread ts; set_state_slot None })
   }"

definition save_main_state :: "unit py_m" where
  "save_main_state = do {
     slot \<leftarrow> get_state_slot;
     (case slot of
        None \<Rightarrow> do { ts \<leftarrow> PyEval_SaveThread; set_state_slot ts }
      | Some _ \<Rightarrow> State_Monad.return ())
   }"

definition append_bundle_path_to_sys_path :: "python \<Rightarrow> pyobj option \<Rightarrow> string \<Rightarrow> (string + unit) py_m" where
  "append_bundle_path_to_sys_path P p_path bundle_path =
     (case p_path of
        None \<Rightarrow> do { PyErr_Print; State_Monad.return (Inl ''Failed to get sys.path'') }
      | Some l \<Rightarrow>
          if has_nul bundle_path then State_Monad.return (Inl ''Bundle path contains NUL byte'')
          else do {
            p_bundle_path \<leftarrow> py_new P (UnicodeFrom bundle_path);
            case p_bundle_path of
              None \<Rightarrow> do { PyErr_Print; State_Monad.return (Inl ''Failed to create bundle path string'') }
            | Some x \<Rightarrow> do {
                failed \<leftarrow> py_status P (ListAppend l);
                if failed then do {
                  PyErr_Print;
                  Py_DecRef x;
                  State_Monad.return (Inl ''Failed to append bundle path to sys.path'')
                } else do {
                  Py_DecRef x;
                  State_Monad.return (Inr ())
                }
              }
          })"

text \<open>The namespaces and the redirection of the standard streams; the result is the globals dictionary.\<close>

definition prepare_globals :: "python \<Rightarrow> (string + pyobj) py_m" where
  "prepare_globals P = do {
     p_global \<leftarrow> py_new P DictNew;
     case p_global of
       None \<Rightarrow> do { PyErr_Print; State_Monad.return (Inl ''Failed to create global dict'') }
     | Some g \<Rightarrow> do {
         failed \<leftarrow> py_status P (DictSet g ''__builtins__'');
         if failed then do {
           PyErr_Print;
           Py_DecRef g;
           State_Monad.return (Inl ''Failed to set __builtins__ in globals dict'')
         } else do {
           p_local \<leftarrow> py_new P DictNew;
           case p_local of
             None \<Rightarrow> do { PyErr_Print; Py_DecRef g; State_Monad.return (Inl ''Failed to create local dict'') }
           | Some l \<Rightarrow> do {
               result \<leftarrow> py_run P RunScript;
               case result of
                 None \<Rightarrow> do {
                   PyErr_Print;
                   Py_DecRef g;
                   Py_DecRef l;
                   State_Monad.return (Inl ''Failed to install stdout/stderr redirection'')
                 }
               | Some r \<Rightarrow> do { Py_DecRef r; Py_DecRef l; State_Monad.return (Inr g) }
             }
         }
       }
   }"

text \<open>The modules, with the globals dictionary \<open>g\<close> owned; the result is the bundle, the json and the traceback module.\<close>

definition import_modules :: "python \<Rightarrow> string \<Rightarrow> pyobj \<Rightarrow> (string + pyobj \<times> pyobj \<times> pyobj) py_m" where
  "import_modules P bundle_path g = do {
     json_mod \<leftarrow> py_run P (Import ''json'');
     case json_mod of
       None \<Rightarrow> do { PyErr_Print; Py_DecRef g; State_Monad.return (Inl ''Failed to import json module'') }
     | Some j \<Rightarrow> do {
         failed \<leftarrow> py_status P (DictSet g ''json'');
         if failed then do {
           PyErr_Print;
           Py_DecRef j;
           Py_DecRef g;
           State_Monad.return (Inl ''Failed to set json module in globals dict'')
         } else do {
           traceback_mod \<leftarrow> py_run P (Import ''traceback'');
           case traceback_mod of
             None \<Rightarrow> do {
               PyErr_Print;
               Py_DecRef j;
               Py_DecRef g;
               State_Monad.return (Inl ''Failed to import traceback module'')
             }
           | Some t \<Rightarrow> do {
               p_path \<leftarrow> PySys_GetObject P SysPath;
               appended \<leftarrow> append_bundle_path_to_sys_path P p_path bundle_path;
               case appended of
                 Inl e \<Rightarrow> do { Py_DecRef g; Py_DecRef j; Py_DecRef t; State_Monad.return (Inl e) }
               | Inr _ \<Rightarrow> do {
                   p_bundle \<leftarrow> py_run P (Import ''bundle'');
                   e \<leftarrow> PyErr_Occurred;
                   case p_bundle of
                     None \<Rightarrow> do {
                       PyErr_Print;
                       Py_DecRef g;
                       Py_DecRef j;
                       Py_DecRef t;
                       State_Monad.return (Inl ''Failed to load bundle module'')
                     }
                   | Some m \<Rightarrow>
                       if e then do {
                         PyErr_Print;
                         Py_DecRef g;
                         Py_DecRef j;
                         Py_DecRef t;
                         Py_DecRef m;
                         State_Monad.return (Inl ''Failed to load bundle module'')
                       } else State_Monad.return (Inr (m, j, t))
                 }
             }
         }
       }
   }"

definition load_modules :: "python \<Rightarrow> string \<Rightarrow> (string + pyobj \<times> pyobj \<times> pyobj) py_m" where
  "load_modules P bundle_path = do {
     globals \<leftarrow> prepare_globals P;
     case globals of
       Inl e \<Rightarrow> State_Monad.return (Inl e)
     | Inr g \<Rightarrow> import_modules P bundle_path g
   }"

text \<open>\<^verbatim>\<open>Path::join\<close> on strings: an absolute second path replaces the first.\<close>

definition join_path :: "string \<Rightarrow> string \<Rightarrow> string" where
  "join_path base name =
     (if name \<noteq> [] \<and> hd name = CHR ''/'' then name
      else if base = [] \<or> last base = CHR ''/'' then base @ name
      else base @ ''/'' @ name)"

definition bundle_interface_new :: "python \<Rightarrow> string \<Rightarrow> string \<Rightarrow> (string + bundle_interface) py_m" where
  "bundle_interface_new P hash root = do {
     set_current_thread_bundle hash;
     restore_main_state P;
     interpreter \<leftarrow> SubInterpreter_new P;
     case interpreter of
       Inl e \<Rightarrow> do {
         save_main_state;
         clear_current_thread_bundle;
         State_Monad.return (Inl e)
       }
     | Inr ts \<Rightarrow> do {
         save_main_state;
         scope \<leftarrow> ThreadScope_new P ts;
         case scope of
           Inl e \<Rightarrow> do {
             SubInterpreter_drop ts;
             clear_current_thread_bundle;
             State_Monad.return (Inl e)
           }
         | Inr _ \<Rightarrow> do {
             modules \<leftarrow> load_modules P (join_path root hash);
             ThreadScope_drop;
             case modules of
               Inl e \<Rightarrow> do {
                 SubInterpreter_drop ts;
                 clear_current_thread_bundle;
                 State_Monad.return (Inl e)
               }
             | Inr (m, j, t) \<Rightarrow> do {
                 clear_current_thread_bundle;
                 State_Monad.return (Inr \<lparr>python_interpreter = ts, p_bundle_module = m, json_module = j,
                   traceback_module = t, bundle_hash = hash\<rparr>)
               }
           }
       }
   }"

subsection \<open>Contracts\<close>

lemma swallow_ok: "contract (swallow_python_error P) (\<lambda>_. {#}) cleared"
  by (rule contractI)
     (auto simp: swallow_python_error_def wp_simps Let_def thread_of_def split: option.splits prod.splits)

lemma extract_type_name_ok: "contract (extract_type_name P t) (\<lambda>_. {#}) unchanged"
  by (rule contractI)
     (auto simp: extract_type_name_def wp_simps Let_def thread_of_def split: option.splits intro!: contract_wp [OF swallow_ok])

lemma extract_value_string_ok: "contract (extract_value_string P v c) (\<lambda>_. {#}) unchanged"
  by (rule contractI)
     (auto simp: extract_value_string_def wp_simps Let_def thread_of_def split: option.splits intro!: contract_wp [OF swallow_ok])

lemma log_items_ok: "contract (log_items P i xs) (\<lambda>_. {#}) cleared"
proof (induction xs)
  case Nil
  show ?case
    by (rule contractI) (auto simp: wp_simps Let_def thread_of_def intro!: contract_wp [OF swallow_ok])
next
  case (Cons x xs)
  show ?case
    by (rule contractI)
       (auto simp: wp_simps Let_def thread_of_def split: option.splits
             intro!: contract_wp [OF swallow_ok] contract_wp [OF Cons.IH])
qed

lemma log_python_lines_ok: "contract (log_python_lines P l) (\<lambda>_. {#}) cleared"
  by (rule contractI)
     (auto simp: log_python_lines_def wp_simps Let_def thread_of_def split: option.splits
           intro!: contract_wp [OF swallow_ok] contract_wp [OF log_items_ok])

text \<open>Code that takes over references: \<open>H\<close> is released besides.\<close>

definition consumes :: "pyobj multiset \<Rightarrow> unit py_m \<Rightarrow> bool" where
  "consumes H m \<longleftrightarrow> (\<forall>s F. owned s = F + H \<longrightarrow> \<not> misused s \<longrightarrow> \<not> pending_error s \<longrightarrow>
     wp m (\<lambda>v s'. owned s' = F \<and> \<not> misused s' \<and> thread_of s' = thread_of s \<and> \<not> pending_error s') s)"

lemma consumesI:
  "(\<And>s F. owned s = F + H \<Longrightarrow> \<not> misused s \<Longrightarrow> \<not> pending_error s \<Longrightarrow>
     wp m (\<lambda>v s'. owned s' = F \<and> \<not> misused s' \<and> thread_of s' = thread_of s \<and> \<not> pending_error s') s)
   \<Longrightarrow> consumes H m"
  by (simp add: consumes_def)

lemma consumes_wp:
  assumes "consumes H m" "owned s = F + H" "\<not> misused s" "\<not> pending_error s"
    and "\<And>v s'. owned s' = F \<Longrightarrow> \<not> misused s' \<Longrightarrow> thread_of s' = thread_of s \<Longrightarrow> \<not> pending_error s' \<Longrightarrow> Q v s'"
  shows "wp m Q s"
  using assms(1-4) wp_mono [of m _ s Q] assms(5) unfolding consumes_def by blast

lemma format_frames_ok: "consumes {#tb#} (format_frames P b n tb)"
  by (rule consumesI)
     (auto simp: format_frames_def wp_simps Let_def thread_of_def split: option.splits
           intro!: contract_wp [OF swallow_ok] contract_wp [OF log_python_lines_ok])

lemma format_header_ok: "consumes ({#t#} + refs v) (format_header P b n fb t v)"
  by (rule consumesI)
     (auto simp: format_header_def set_exception_value_slot_def wp_simps Let_def thread_of_def split: option.splits
           intro!: contract_wp [OF swallow_ok] contract_wp [OF log_python_lines_ok])

lemma print_exception_ok: "contract (print_last_python_exception P b) (\<lambda>_. {#}) cleared"
proof (rule contractI)
  fix s :: py
  assume u: "\<not> misused s"
  show "wp (print_last_python_exception P b) (\<lambda>v s'. owned s' = owned s + {#} \<and> \<not> misused s'
          \<and> thread_of s' = thread_of s \<and> \<not> pending_error s') s"
  proof (cases "pending_error s")
    case False
    then show ?thesis
      using u by (simp add: print_last_python_exception_def wp_simps Let_def thread_of_def)
  next
    case True
    obtain t v b' where f: "a_fetch P (calls s @ [Fetch]) = (t, v, b')"
      by (cases "a_fetch P (calls s @ [Fetch])") auto
    show ?thesis
      using u True f
      by (cases b')
         (auto simp: print_last_python_exception_def wp_simps Let_def thread_of_def
           intro!: contract_wp [OF extract_type_name_ok] contract_wp [OF extract_value_string_ok]
             consumes_wp [OF format_frames_ok, where F = "owned s + {#t#} + refs v"]
             consumes_wp [OF format_header_ok, where F = "owned s"])
  qed
qed

lemma to_string_ok: "contract (to_string_py P p) (\<lambda>_. {#}) unchanged"
  by (rule contractI) (auto simp: to_string_py_def wp_simps Let_def thread_of_def split: option.splits)

lemma to_uint64_ok: "contract (to_uint64 P p) (\<lambda>_. {#}) unchanged"
  by (rule contractI) (auto simp: to_uint64_def wp_simps Let_def thread_of_def split: option.splits)

lemma json_dumps_ok: "contract (json_dumps P b p) (\<lambda>_. {#}) unchanged"
  by (rule contractI)
     (auto simp: json_dumps_def wp_simps Let_def thread_of_def split: option.splits
           intro!: contract_wp [OF print_exception_ok] contract_wp [OF to_string_ok])

lemma json_loads_ok: "contract (json_loads P b c) refs (\<lambda>v e e'. e' \<longrightarrow> e \<and> v = None)"
  by (rule contractI)
     (auto simp: json_loads_def wp_simps Let_def thread_of_def split: option.splits
           intro!: contract_wp [OF print_exception_ok])

lemma call_bundle_function_wp:
  assumes "owned s = F + {#f, args#}" "\<not> misused s" "thread_bundle s = None"
    and "\<And>v s'. owned s' = F + refs v \<Longrightarrow> \<not> misused s' \<Longrightarrow> thread_of s' = thread_of s
           \<Longrightarrow> \<not> pending_error s' \<Longrightarrow> Q v s'"
  shows "wp (call_bundle_function P b f args) Q s"
  using assms(1-3)
  by (auto simp: call_bundle_function_def wp_simps Let_def thread_of_def split: option.splits
        intro!: contract_wp [OF print_exception_ok] assms(4))

lemma run_wp:
  assumes "\<not> misused s" "thread_bundle s = None"
  shows "wp (run P b f d j) (\<lambda>v s'. owned s' = owned s + refs v \<and> \<not> misused s' \<and> thread_of s' = thread_of s
           \<and> (v \<noteq> None \<longrightarrow> \<not> pending_error s')) s"
  using assms
  by (auto simp: run_def wp_simps Let_def thread_of_def split: option.splits
        intro!: contract_wp [OF json_loads_ok] contract_wp [OF swallow_ok]
          call_bundle_function_wp [where F = "owned s"])

lemma append_path_ok: "contract (append_bundle_path_to_sys_path P p d) (\<lambda>_. {#}) unchanged"
  by (rule contractI)
     (auto simp: append_bundle_path_to_sys_path_def wp_simps Let_def thread_of_def split: option.splits)

lemma prepare_globals_ok:
  "contract (prepare_globals P) (\<lambda>r. case r of Inl _ \<Rightarrow> {#} | Inr g \<Rightarrow> {#g#}) (\<lambda>_ _ _. True)"
  by (rule contractI)
     (auto simp: prepare_globals_def wp_simps Let_def thread_of_def split: option.splits)

text \<open>The globals dictionary is released if the import fails, and kept without an owner if it succeeds.\<close>

lemma import_modules_wp:
  assumes "owned s = F + {#g#}" "\<not> misused s"
    and "\<And>v s'. owned s' = F + (case v of Inl _ \<Rightarrow> {#} | Inr (m, j, t) \<Rightarrow> {#g, m, j, t#}) \<Longrightarrow> \<not> misused s'
           \<Longrightarrow> thread_of s' = thread_of s \<Longrightarrow> Q v s'"
  shows "wp (import_modules P d g) Q s"
  using assms(1,2)
  by (auto simp: import_modules_def wp_simps Let_def thread_of_def split: option.splits sum.splits
        intro!: contract_wp [OF append_path_ok] assms(3))

lemma load_modules_wp:
  assumes "\<not> misused s"
    and "\<And>v s'. \<exists>g. owned s' = owned s + (case v of Inl _ \<Rightarrow> {#} | Inr (m, j, t) \<Rightarrow> {#g, m, j, t#})
           \<Longrightarrow> \<not> misused s' \<Longrightarrow> thread_of s' = thread_of s \<Longrightarrow> Q v s'"
  shows "wp (load_modules P d) Q s"
  using assms(1)
  by (auto simp: load_modules_def wp_simps split: sum.splits
        intro!: contract_wp [OF prepare_globals_ok] import_modules_wp [where F = "owned s"] assms(2))

lemma load_is_clean:
  assumes "\<not> misused s" "current s = None"
    and "saved s = Some main \<or> saved s = None \<and> a_main P = Some main"
    and "run_state (bundle_interface_new P hash root) s = (r, s')"
  shows "\<not> misused s' \<and> current s' = None \<and> saved s' = Some main \<and> thread_bundle s' = None \<and>
    (case r of
       Inl _ \<Rightarrow> owned s' = owned s
     | Inr b \<Rightarrow> bundle_hash b = hash \<and>
         (\<exists>g. owned s' = owned s + {#g, p_bundle_module b, json_module b, traceback_module b#}))"
proof -
  have "wp (bundle_interface_new P hash root) (\<lambda>r s'.
      \<not> misused s' \<and> current s' = None \<and> saved s' = Some main \<and> thread_bundle s' = None \<and>
      (case r of
         Inl _ \<Rightarrow> owned s' = owned s
       | Inr b \<Rightarrow> bundle_hash b = hash \<and>
           (\<exists>g. owned s' = owned s + {#g, p_bundle_module b, json_module b, traceback_module b#}))) s"
    using assms(1-3)
    by (auto simp: bundle_interface_new_def restore_main_state_def save_main_state_def SubInterpreter_new_def
          SubInterpreter_drop_def ThreadScope_new_def ThreadScope_drop_def wp_simps Let_def thread_of_def
        split: option.splits sum.splits prod.splits intro!: load_modules_wp)
  then show ?thesis using assms(4) by (simp add: wp_def)
qed

text \<open>
  C35. Loading a bundle leaves the thread as it was, whatever fails on the way: the main thread state that was
  attached is saved again, so the interpreter lock is free, the entry of the thread in the bundle map is gone, and a
  failed load has released every reference it obtained. A successful load keeps the references to the
  three modules in the interface, and besides them one to the globals dictionary that nothing refers to.
\<close>

theorem bundle_load_is_clean:
  assumes "\<not> misused s" "current s = None"
    and "saved s = Some main \<or> saved s = None \<and> a_main P = Some main"
    and "run_state (bundle_interface_new P hash root) s = (r, s')"
  shows "\<not> misused s' \<and> current s' = None \<and> saved s' = Some main \<and> thread_bundle s' = None \<and>
    (case r of
       Inl _ \<Rightarrow> owned s' = owned s
     | Inr b \<Rightarrow> bundle_hash b = hash \<and>
         (\<exists>g. owned s' = owned s + {#g, p_bundle_module b, json_module b, traceback_module b#}))"
  using load_is_clean [OF assms] .

theorem bundle_load_is_clean_witness:
  "saved (snd (run_state (bundle_interface_new willing_python ''h'' ''/bundles'') idle_thread)) = Some 0"
proof -
  let ?o = "run_state (bundle_interface_new willing_python ''h'' ''/bundles'') idle_thread"
  show ?thesis
    using bundle_load_is_clean [of idle_thread 0 willing_python "''h''" "''/bundles''" "fst ?o" "snd ?o"]
    by (simp add: idle_thread_def willing_python_def)
qed

end
