(* ===== verification/Bundle_Manager.thy ===== *)
theory Bundle_Manager
  imports Bundle_Interface
begin

text \<open>
  The bundle manager of \<^verbatim>\<open>src/src/src/bundle_manager.rs\<close>: the cache of loaded bundles and the functions that run a
  bundle function and convert its result. The first part follows one thread; the second part is the step
  relation of all threads over the two locks, the lock of the cache and \<^verbatim>\<open>PYTHON_MUTEX\<close>.
\<close>

record bundle_manager =
  bundle_path_root :: string
  bundles :: "string \<rightharpoonup> bundle_interface"

definition initialize :: "string \<Rightarrow> bundle_manager" where
  "initialize root = \<lparr>bundle_path_root = root, bundles = Map.empty\<rparr>"

subsection \<open>The functions of one thread\<close>

text \<open>What \<open>load_bundle\<close> does under the write lock: the second look into the cache, then the load.\<close>

definition load_locked ::
    "python \<Rightarrow> bundle_manager \<Rightarrow> string \<Rightarrow> py \<Rightarrow> (string + bundle_interface) \<times> bundle_manager \<times> py" where
  "load_locked P mgr hash s =
     (case bundles mgr hash of
        Some b \<Rightarrow> (Inr b, mgr, s)
      | None \<Rightarrow>
          (case run_state (bundle_interface_new P hash (bundle_path_root mgr)) s of
             (Inl e, s') \<Rightarrow> (Inl e, mgr, s')
           | (Inr b, s') \<Rightarrow> (Inr b, mgr\<lparr>bundles := (bundles mgr)(hash \<mapsto> b)\<rparr>, s')))"

text \<open>\<open>others\<close> is what other threads do to the cache between the read lock and the write lock.\<close>

definition load_bundle ::
    "python \<Rightarrow> (bundle_manager \<Rightarrow> bundle_manager) \<Rightarrow> bundle_manager \<Rightarrow> string \<Rightarrow> py
       \<Rightarrow> (string + bundle_interface) \<times> bundle_manager \<times> py" where
  "load_bundle P others mgr hash s =
     (case bundles mgr hash of
        Some b \<Rightarrow> (Inr b, mgr, s)
      | None \<Rightarrow> load_locked P (others mgr) hash s)"

definition load_bundle_or_error ::
    "python \<Rightarrow> (bundle_manager \<Rightarrow> bundle_manager) \<Rightarrow> bundle_manager \<Rightarrow> string \<Rightarrow> py
       \<Rightarrow> (string + bundle_interface) \<times> bundle_manager \<times> py" where
  "load_bundle_or_error P others mgr hash s =
     (case load_bundle P others mgr hash s of
        (Inr b, mgr', s') \<Rightarrow> (Inr b, mgr', s')
      | (Inl e, mgr', s') \<Rightarrow> (Inl (''Failed to load bundle '' @ hash @ '': '' @ e), mgr', s'))"

definition create_thread_scope :: "python \<Rightarrow> bundle_interface \<Rightarrow> (string + nat) py_m" where
  "create_thread_scope P b = do {
     scope \<leftarrow> ThreadScope_new P (python_interpreter b);
     State_Monad.return (case scope of Inl e \<Rightarrow> Inl (''Failed to create thread scope: '' @ e) | Inr ts \<Rightarrow> Inr ts)
   }"

text \<open>The error object that a failed call of \<open>run_bundle_string\<close> returns as text.\<close>

definition error_text :: "python \<Rightarrow> string \<Rightarrow> string" where
  "error_text P msg = json_text P (JObject [(''error'', JString msg)])"

definition call_string :: "python \<Rightarrow> bundle_interface \<Rightarrow> string \<Rightarrow> json \<Rightarrow> string \<Rightarrow> string py_m" where
  "call_string P b func details job_data = do {
     scope \<leftarrow> create_thread_scope P b;
     case scope of
       Inl e \<Rightarrow> State_Monad.return (error_text P e)
     | Inr _ \<Rightarrow> do {
         result_obj \<leftarrow> run P b func details job_data;
         result \<leftarrow> (case result_obj of
                      None \<Rightarrow> State_Monad.return ''''
                    | Some x \<Rightarrow> do { t \<leftarrow> to_string_py P (Some x); dispose_object (Some x); State_Monad.return t });
         ThreadScope_drop;
         State_Monad.return result
       }
   }"

definition call_uint64 :: "python \<Rightarrow> bundle_interface \<Rightarrow> string \<Rightarrow> json \<Rightarrow> string \<Rightarrow> u64 py_m" where
  "call_uint64 P b func details job_data = do {
     scope \<leftarrow> create_thread_scope P b;
     case scope of
       Inl e \<Rightarrow> State_Monad.return 0
     | Inr _ \<Rightarrow> do {
         result_obj \<leftarrow> run P b func details job_data;
         result \<leftarrow> (case result_obj of
                      None \<Rightarrow> State_Monad.return 0
                    | Some x \<Rightarrow> do { n \<leftarrow> to_uint64 P (Some x); dispose_object (Some x); State_Monad.return n });
         ThreadScope_drop;
         State_Monad.return result
       }
   }"

definition call_bool :: "python \<Rightarrow> bundle_interface \<Rightarrow> string \<Rightarrow> json \<Rightarrow> string \<Rightarrow> bool py_m" where
  "call_bool P b func details job_data = do {
     scope \<leftarrow> create_thread_scope P b;
     case scope of
       Inl e \<Rightarrow> State_Monad.return False
     | Inr _ \<Rightarrow> do {
         result_obj \<leftarrow> run P b func details job_data;
         result \<leftarrow> (case result_obj of
                      None \<Rightarrow> State_Monad.return False
                    | Some x \<Rightarrow> do { let r = to_bool P (Some x); dispose_object (Some x); State_Monad.return r });
         ThreadScope_drop;
         State_Monad.return result
       }
   }"

definition call_json :: "python \<Rightarrow> bundle_interface \<Rightarrow> string \<Rightarrow> json \<Rightarrow> string \<Rightarrow> json py_m" where
  "call_json P b func details job_data = do {
     scope \<leftarrow> create_thread_scope P b;
     case scope of
       Inl e \<Rightarrow> State_Monad.return JNull
     | Inr _ \<Rightarrow> do {
         result_obj \<leftarrow> run P b func details job_data;
         result \<leftarrow> (case result_obj of
                      None \<Rightarrow> State_Monad.return JNull
                    | Some x \<Rightarrow> do {
                        dumped \<leftarrow> json_dumps P b (Some x);
                        dispose_object (Some x);
                        State_Monad.return
                          (case dumped of
                             Inr t \<Rightarrow> (case json_parse P t of Some v \<Rightarrow> v | None \<Rightarrow> JNull)
                           | Inl e \<Rightarrow> JObject [(''error'', JString (''Failed to serialize result: '' @ e))])
                      });
         ThreadScope_drop;
         State_Monad.return result
       }
   }"

text \<open>
  The four entry points load the bundle and then run the call under \<^verbatim>\<open>PYTHON_MUTEX\<close>; they differ in what
  they return if the bundle cannot be loaded.
\<close>

definition run_loaded ::
    "python \<Rightarrow> (bundle_manager \<Rightarrow> bundle_manager) \<Rightarrow> (string \<Rightarrow> 'a) \<Rightarrow> (bundle_interface \<Rightarrow> 'a py_m) \<Rightarrow> string
       \<Rightarrow> bundle_manager \<Rightarrow> py \<Rightarrow> 'a \<times> bundle_manager \<times> py" where
  "run_loaded P others failed call hash mgr s =
     (case load_bundle_or_error P others mgr hash s of
        (Inl msg, mgr', s') \<Rightarrow> (failed msg, mgr', s')
      | (Inr b, mgr', s') \<Rightarrow> (case run_state (call b) s' of (v, s'') \<Rightarrow> (v, mgr', s'')))"

definition run_bundle_string ::
    "python \<Rightarrow> (bundle_manager \<Rightarrow> bundle_manager) \<Rightarrow> string \<Rightarrow> string \<Rightarrow> json \<Rightarrow> string
       \<Rightarrow> bundle_manager \<Rightarrow> py \<Rightarrow> string \<times> bundle_manager \<times> py" where
  "run_bundle_string P others func hash details job_data =
     run_loaded P others (error_text P) (\<lambda>b. call_string P b func details job_data) hash"

definition run_bundle_uint64 ::
    "python \<Rightarrow> (bundle_manager \<Rightarrow> bundle_manager) \<Rightarrow> string \<Rightarrow> string \<Rightarrow> json \<Rightarrow> string
       \<Rightarrow> bundle_manager \<Rightarrow> py \<Rightarrow> u64 \<times> bundle_manager \<times> py" where
  "run_bundle_uint64 P others func hash details job_data =
     run_loaded P others (\<lambda>_. 0) (\<lambda>b. call_uint64 P b func details job_data) hash"

definition run_bundle_bool ::
    "python \<Rightarrow> (bundle_manager \<Rightarrow> bundle_manager) \<Rightarrow> string \<Rightarrow> string \<Rightarrow> json \<Rightarrow> string
       \<Rightarrow> bundle_manager \<Rightarrow> py \<Rightarrow> bool \<times> bundle_manager \<times> py" where
  "run_bundle_bool P others func hash details job_data =
     run_loaded P others (\<lambda>_. False) (\<lambda>b. call_bool P b func details job_data) hash"

definition run_bundle_json ::
    "python \<Rightarrow> (bundle_manager \<Rightarrow> bundle_manager) \<Rightarrow> string \<Rightarrow> string \<Rightarrow> json \<Rightarrow> string
       \<Rightarrow> bundle_manager \<Rightarrow> py \<Rightarrow> json \<times> bundle_manager \<times> py" where
  "run_bundle_json P others func hash details job_data =
     run_loaded P others (\<lambda>_. JNull) (\<lambda>b. call_json P b func details job_data) hash"

subsection \<open>Calls leave the thread as they found it\<close>

text \<open>A thread between two calls: detached, without a bundle, with the main thread state available.\<close>

definition at_rest :: "python \<Rightarrow> nat \<Rightarrow> py \<Rightarrow> bool" where
  "at_rest P main s \<longleftrightarrow> \<not> misused s \<and> current s = None \<and> thread_bundle s = None \<and>
     (saved s = Some main \<or> saved s = None \<and> a_main P = Some main)"

definition quiet_call :: "'a py_m \<Rightarrow> bool" where
  "quiet_call m \<longleftrightarrow> (\<forall>s. \<not> misused s \<longrightarrow> current s = None \<longrightarrow> thread_bundle s = None \<longrightarrow>
     wp m (\<lambda>v s'. owned s' = owned s \<and> \<not> misused s' \<and> thread_of s' = thread_of s) s)"

lemma run_wpI:
  assumes "\<not> misused s" "thread_bundle s = None"
    and "\<And>v s'. owned s' = owned s + refs v \<Longrightarrow> \<not> misused s' \<Longrightarrow> thread_of s' = thread_of s \<Longrightarrow> Q v s'"
  shows "wp (run P b f d j) Q s"
  by (rule wp_mono [OF run_wp [OF assms(1,2)]]) (use assms(3) in blast)

lemmas call_defs = create_thread_scope_def ThreadScope_new_def ThreadScope_drop_def dispose_object_def

lemma calls_are_quiet:
  "quiet_call (call_string P b f d j)" "quiet_call (call_uint64 P b f d j)"
  "quiet_call (call_bool P b f d j)" "quiet_call (call_json P b f d j)"
  unfolding quiet_call_def
  by (auto simp: call_string_def call_uint64_def call_bool_def call_json_def call_defs wp_simps Let_def thread_of_def
      split: option.splits
      intro!: run_wpI contract_wp [OF to_string_ok] contract_wp [OF to_uint64_ok] contract_wp [OF json_dumps_ok])

lemma load_or_error_at_rest:
  assumes "at_rest P main s" "load_bundle_or_error P others mgr hash s = (r, mgr', s')"
  shows "at_rest P main s' \<and>
    (owned s' = owned s \<or> (\<exists>g b. bundles mgr' hash = Some b \<and>
       owned s' = owned s + {#g, p_bundle_module b, json_module b, traceback_module b#}))"
proof -
  obtain q u where n: "run_state (bundle_interface_new P hash (bundle_path_root (others mgr))) s = (q, u)"
    by (cases "run_state (bundle_interface_new P hash (bundle_path_root (others mgr))) s")
  have "at_rest P main u \<and> (case q of Inl _ \<Rightarrow> owned u = owned s
      | Inr b \<Rightarrow> \<exists>g. owned u = owned s + {#g, p_bundle_module b, json_module b, traceback_module b#})"
    using assms(1) load_is_clean [of s main P, OF _ _ _ n] by (auto simp: at_rest_def split: sum.splits)
  then show ?thesis
    using assms n
    by (auto simp: load_bundle_or_error_def load_bundle_def load_locked_def
        split: option.splits sum.splits prod.splits)
qed

lemma run_loaded_at_rest:
  assumes "at_rest P main s" "\<And>b. quiet_call (call b)" "(mgr', s') = snd (run_loaded P others failed call hash mgr s)"
  shows "at_rest P main s' \<and>
    (owned s' = owned s \<or> (\<exists>g b. bundles mgr' hash = Some b \<and>
       owned s' = owned s + {#g, p_bundle_module b, json_module b, traceback_module b#}))"
proof -
  obtain r m u where l: "load_bundle_or_error P others mgr hash s = (r, m, u)"
    by (cases "load_bundle_or_error P others mgr hash s")
  note u = load_or_error_at_rest [OF assms(1) l]
  show ?thesis
  proof (cases r)
    case (Inl e)
    then show ?thesis using u l assms(3) by (simp add: run_loaded_def)
  next
    case (Inr b)
    have "wp (call b) (\<lambda>v s'. owned s' = owned u \<and> \<not> misused s' \<and> thread_of s' = thread_of u) u"
      using u assms(2) [of b] by (simp add: quiet_call_def at_rest_def)
    then show ?thesis
      using u l Inr assms(3) by (auto simp: run_loaded_def wp_def at_rest_def thread_of_def split: prod.splits)
  qed
qed

text \<open>
  C34. Whatever a bundle function does, returns or raises, and whatever fails inside the Python library, each of
  the four ways to run it releases every reference it obtained exactly once and leaves the thread at rest:
  detached from the interpreter, with no entry in the bundle map and the main thread state available. The
  only references that stay are those of a bundle that this call loaded.
\<close>

theorem bundle_calls_are_balanced:
  assumes "at_rest P main s"
    and "(mgr', s') \<in> {snd (run_bundle_string P others func hash details job_data mgr s),
                        snd (run_bundle_uint64 P others func hash details job_data mgr s),
                        snd (run_bundle_bool P others func hash details job_data mgr s),
                        snd (run_bundle_json P others func hash details job_data mgr s)}"
  shows "at_rest P main s' \<and>
    (owned s' = owned s \<or> (\<exists>g b. bundles mgr' hash = Some b \<and>
       owned s' = owned s + {#g, p_bundle_module b, json_module b, traceback_module b#}))"
proof -
  note defs = run_bundle_string_def run_bundle_uint64_def run_bundle_bool_def run_bundle_json_def
  note balanced = run_loaded_at_rest [OF assms(1)]
  from assms(2) show ?thesis
    unfolding insert_iff empty_iff defs
    using balanced [OF calls_are_quiet(1)] balanced [OF calls_are_quiet(2)]
      balanced [OF calls_are_quiet(3)] balanced [OF calls_are_quiet(4)] by fast
qed

theorem bundle_calls_are_balanced_witness:
  "at_rest willing_python 0 (snd (snd (run_bundle_bool willing_python id ''status'' ''h'' JNull ''1''
     (initialize ''/bundles'') idle_thread)))"
proof -
  let ?o = "snd (run_bundle_bool willing_python id ''status'' ''h'' JNull ''1'' (initialize ''/bundles'') idle_thread)"
  have "at_rest willing_python 0 idle_thread"
    by (simp add: at_rest_def idle_thread_def willing_python_def)
  then show ?thesis
    using bundle_calls_are_balanced [of willing_python 0 idle_thread "fst ?o" "snd ?o" id "''status''"
        "''h''" JNull "''1''" "initialize ''/bundles''"] by simp
qed

end
