(* ===== verification/Bundle_Locks.thy ===== *)
theory Bundle_Locks
  imports Bundle_Manager
begin

text \<open>
  All threads that run bundle functions, over the lock of the bundle cache and \<^verbatim>\<open>PYTHON_MUTEX\<close>: the double-checked
  load of \<^verbatim>\<open>load_bundle\<close>, the runs of \<^verbatim>\<open>run_bundle_*\<close>, and the look-ups that the callbacks of
  \<^verbatim>\<open>bundle_db.rs\<close> make from inside a run. A program counter names what a thread holds and what it waits for.
\<close>

text \<open>
  \<^item> \<open>Idle\<close>: between two calls;
  \<^item> \<open>Looking h\<close>: before the read lock of the cache;
  \<^item> \<open>WantWrite h\<close>: after a miss, before the write lock;
  \<^item> \<open>WantPython h\<close>: holds the write lock, before \<^verbatim>\<open>PYTHON_MUTEX\<close> in \<^verbatim>\<open>BundleInterface::new\<close>;
  \<^item> \<open>Loading h\<close>: holds both;
  \<^item> \<open>WantRun h b\<close>: has the bundle, before \<^verbatim>\<open>PYTHON_MUTEX\<close>;
  \<^item> \<open>Running h b\<close>: holds \<^verbatim>\<open>PYTHON_MUTEX\<close>, inside the bundle function;
  \<^item> \<open>Calling h b\<close>: in a callback, before the read lock; holds \<^verbatim>\<open>PYTHON_MUTEX\<close>;
  \<^item> \<open>CallMissed h b\<close>: in a callback that did not find its bundle;
  \<^item> \<open>LoadCalling h\<close>: in a callback made while the bundle is imported; holds both locks and waits for the read lock.
\<close>

datatype thread_pc =
  Idle
| Looking string
| WantWrite string
| WantPython string
| Loading string
| WantRun string bundle_interface
| Running string bundle_interface
| Calling string bundle_interface
| CallMissed string bundle_interface
| LoadCalling string

record pool =
  mgr :: bundle_manager
  writer :: "nat option"
  python_mutex :: "nat option"
  pcs :: "nat \<Rightarrow> thread_pc"
  created :: "(string \<times> bundle_interface) list"

definition pool_start :: "string \<Rightarrow> pool" where
  "pool_start root = \<lparr>mgr = initialize root, writer = None, python_mutex = None, pcs = (\<lambda>_. Idle), created = []\<rparr>"

definition goto :: "nat \<Rightarrow> thread_pc \<Rightarrow> pool \<Rightarrow> pool" where
  "goto t pc p = p\<lparr>pcs := (pcs p)(t := pc)\<rparr>"

inductive pool_step :: "python \<Rightarrow> pool \<Rightarrow> pool \<Rightarrow> bool" for P where
  request: "pcs p t = Idle \<Longrightarrow> pool_step P p (goto t (Looking h) p)"
| look_hit: "pcs p t = Looking h \<Longrightarrow> writer p = None \<Longrightarrow> bundles (mgr p) h = Some b
    \<Longrightarrow> pool_step P p (goto t (WantRun h b) p)"
| look_miss: "pcs p t = Looking h \<Longrightarrow> writer p = None \<Longrightarrow> bundles (mgr p) h = None
    \<Longrightarrow> pool_step P p (goto t (WantWrite h) p)"
| recheck_hit: "pcs p t = WantWrite h \<Longrightarrow> writer p = None \<Longrightarrow> bundles (mgr p) h = Some b
    \<Longrightarrow> pool_step P p (goto t (WantRun h b) p)"
| recheck_miss: "pcs p t = WantWrite h \<Longrightarrow> writer p = None \<Longrightarrow> bundles (mgr p) h = None
    \<Longrightarrow> pool_step P p (goto t (WantPython h) (p\<lparr>writer := Some t\<rparr>))"
| load_begin: "pcs p t = WantPython h \<Longrightarrow> python_mutex p = None
    \<Longrightarrow> pool_step P p (goto t (Loading h) (p\<lparr>python_mutex := Some t\<rparr>))"
| load_done: "pcs p t = Loading h \<Longrightarrow> load_locked P (mgr p) h s = (Inr b, m', s')
    \<Longrightarrow> pool_step P p (goto t (WantRun h b)
          (p\<lparr>mgr := m', writer := None, python_mutex := None, created := created p @ [(h, b)]\<rparr>))"
| load_failed: "pcs p t = Loading h \<Longrightarrow> load_locked P (mgr p) h s = (Inl e, m', s')
    \<Longrightarrow> pool_step P p (goto t Idle (p\<lparr>mgr := m', writer := None, python_mutex := None\<rparr>))"
| load_callback: "pcs p t = Loading h \<Longrightarrow> pool_step P p (goto t (LoadCalling h) p)"
| load_callback_read: "pcs p t = LoadCalling h \<Longrightarrow> writer p = None \<Longrightarrow> pool_step P p (goto t (Loading h) p)"
| run_begin: "pcs p t = WantRun h b \<Longrightarrow> python_mutex p = None
    \<Longrightarrow> pool_step P p (goto t (Running h b) (p\<lparr>python_mutex := Some t\<rparr>))"
| callback: "pcs p t = Running h b \<Longrightarrow> pool_step P p (goto t (Calling h b) p)"
| callback_hit: "pcs p t = Calling h b \<Longrightarrow> writer p = None \<Longrightarrow> bundles (mgr p) h \<noteq> None
    \<Longrightarrow> pool_step P p (goto t (Running h b) p)"
| callback_miss: "pcs p t = Calling h b \<Longrightarrow> writer p = None \<Longrightarrow> bundles (mgr p) h = None
    \<Longrightarrow> pool_step P p (goto t (CallMissed h b) p)"
| run_end: "pcs p t = Running h b \<Longrightarrow> pool_step P p (goto t Idle (p\<lparr>python_mutex := None\<rparr>))"

definition pool_reach :: "python \<Rightarrow> string \<Rightarrow> pool \<Rightarrow> bool" where
  "pool_reach P root = (pool_step P)\<^sup>*\<^sup>* (pool_start root)"

subsection \<open>Who holds which lock\<close>

fun holds_writer :: "thread_pc \<Rightarrow> bool" where
  "holds_writer (WantPython _) = True"
| "holds_writer (Loading _) = True"
| "holds_writer (LoadCalling _) = True"
| "holds_writer _ = False"

fun holds_python :: "thread_pc \<Rightarrow> bool" where
  "holds_python (Loading _) = True"
| "holds_python (LoadCalling _) = True"
| "holds_python (Running _ _) = True"
| "holds_python (Calling _ _) = True"
| "holds_python (CallMissed _ _) = True"
| "holds_python _ = False"

text \<open>The bundle a thread works with, and the hash that it is about to load.\<close>

fun bundle_of :: "thread_pc \<Rightarrow> (string \<times> bundle_interface) option" where
  "bundle_of (WantRun h b) = Some (h, b)"
| "bundle_of (Running h b) = Some (h, b)"
| "bundle_of (Calling h b) = Some (h, b)"
| "bundle_of (CallMissed h b) = Some (h, b)"
| "bundle_of _ = None"

fun loading_hash :: "thread_pc \<Rightarrow> string option" where
  "loading_hash (WantPython h) = Some h"
| "loading_hash (Loading h) = Some h"
| "loading_hash (LoadCalling h) = Some h"
| "loading_hash _ = None"

definition pool_inv :: "pool \<Rightarrow> bool" where
  "pool_inv p \<longleftrightarrow>
     (\<forall>t. holds_writer (pcs p t) \<longleftrightarrow> writer p = Some t) \<and>
     (\<forall>t. holds_python (pcs p t) \<longleftrightarrow> python_mutex p = Some t) \<and>
     (\<forall>t h. loading_hash (pcs p t) = Some h \<longrightarrow> bundles (mgr p) h = None) \<and>
     (\<forall>t h b. bundle_of (pcs p t) = Some (h, b) \<longrightarrow> bundles (mgr p) h = Some b) \<and>
     (\<forall>t h b. pcs p t \<noteq> CallMissed h b) \<and>
     bundles (mgr p) = map_of (created p) \<and> distinct (map fst (created p))"

lemma pool_inv_start: "pool_inv (pool_start root)"
  by (simp add: pool_inv_def pool_start_def initialize_def)

lemma loading_holds: "loading_hash pc = Some h \<Longrightarrow> holds_writer pc"
  by (cases pc) auto

lemma load_locked_new:
  assumes "load_locked P m h s = (Inr b, m', s')" "bundles m h = None"
  shows "bundles m' = (bundles m)(h \<mapsto> b)"
  using assms by (auto simp: load_locked_def split: sum.splits prod.splits)

lemma load_locked_failed: "load_locked P m h s = (Inl e, m', s') \<Longrightarrow> m' = m"
  by (auto simp: load_locked_def split: option.splits sum.splits prod.splits)

lemma map_of_snoc: "map_of xs h = None \<Longrightarrow> map_of (xs @ [(h, b)]) = (map_of xs)(h \<mapsto> b)"
  by (rule ext) (simp add: map_add_def split: option.split)

lemma pool_invD:
  assumes "pool_inv p"
  shows "holds_writer (pcs p t) \<longleftrightarrow> writer p = Some t" "holds_python (pcs p t) \<longleftrightarrow> python_mutex p = Some t"
    and "loading_hash (pcs p t) = Some h \<Longrightarrow> bundles (mgr p) h = None"
    and "bundle_of (pcs p t) = Some (h, b) \<Longrightarrow> bundles (mgr p) h = Some b"
    and "pcs p t \<noteq> CallMissed h b"
    and "bundles (mgr p) = map_of (created p)" "distinct (map fst (created p))"
  using assms unfolding pool_inv_def by blast+

lemma pool_inv_load:
  assumes inv: "pool_inv p" and t: "pcs p t = Loading h" and m': "bundles m' = (bundles (mgr p))(h \<mapsto> b)"
  shows "pool_inv (goto t (WantRun h b)
     (p\<lparr>mgr := m', writer := None, python_mutex := None, created := created p @ [(h, b)]\<rparr>))" (is "pool_inv ?p")
proof -
  have w: "writer p = Some t" and y: "python_mutex p = Some t" and none: "bundles (mgr p) h = None"
    using pool_invD(1-3) [OF inv, of t] t by simp_all
  have free: "\<not> holds_writer (pcs p t')" "\<not> holds_python (pcs p t')" "loading_hash (pcs p t') = None" if "t' \<noteq> t" for t'
    using pool_invD(1,2) [OF inv, of t'] loading_holds [of "pcs p t'"] w y that
    by (simp, simp, cases "loading_hash (pcs p t')", simp, simp)
  have keep: "bundles m' h' = Some b'" if "bundle_of (pcs p t') = Some (h', b')" for t' h' b'
    using pool_invD(4) [OF inv that] none m' by (auto split: if_splits)
  have "bundles m' = map_of (created p @ [(h, b)])"
    using none m' map_of_snoc [of "created p" h b] pool_invD(6) [OF inv] by metis
  moreover have "distinct (map fst (created p @ [(h, b)]))"
    using pool_invD(6,7) [OF inv] none by (simp add: map_of_eq_None_iff)
  moreover have "bundle_of (pcs ?p t') = Some (h', b') \<Longrightarrow> bundles m' h' = Some b'" for t' h' b'
    using keep [of t' h' b'] m' by (cases "t' = t") (simp_all add: goto_def)
  ultimately show ?thesis
    using free pool_invD(5) [OF inv] unfolding pool_inv_def by (auto simp: goto_def)
qed

text \<open>A thread moves on and changes only its own hold on the locks.\<close>

definition may_set :: "nat \<Rightarrow> nat option \<Rightarrow> nat option \<Rightarrow> bool" where
  "may_set t old new \<longleftrightarrow> new = old \<or> old \<in> {None, Some t} \<and> new \<in> {None, Some t}"

lemma pool_inv_move:
  assumes inv: "pool_inv p" and w: "may_set t (writer p) w" and y: "may_set t (python_mutex p) y"
    and pc: "holds_writer pc \<longleftrightarrow> w = Some t" "holds_python pc \<longleftrightarrow> y = Some t"
      "\<And>h. loading_hash pc = Some h \<Longrightarrow> bundles (mgr p) h = None"
      "\<And>h b. bundle_of pc = Some (h, b) \<Longrightarrow> bundles (mgr p) h = Some b" "\<And>h b. pc \<noteq> CallMissed h b"
  shows "pool_inv (goto t pc (p\<lparr>writer := w, python_mutex := y\<rparr>))"
proof -
  have "holds_writer (pcs p t') \<longleftrightarrow> w = Some t'" "holds_python (pcs p t') \<longleftrightarrow> y = Some t'" if "t' \<noteq> t" for t'
    using pool_invD(1,2) [OF inv, of t'] w y that by (auto simp: may_set_def)
  then show ?thesis
    using pc pool_invD(3-7) [OF inv] unfolding pool_inv_def by (simp add: goto_def)
qed

lemma pool_inv_python:
  assumes "pool_inv p" "may_set t (python_mutex p) y"
    and "holds_writer pc = holds_writer (pcs p t)" "holds_python pc \<longleftrightarrow> y = Some t"
      "\<And>h. loading_hash pc = Some h \<Longrightarrow> bundles (mgr p) h = None"
      "\<And>h b. bundle_of pc = Some (h, b) \<Longrightarrow> bundles (mgr p) h = Some b" "\<And>h b. pc \<noteq> CallMissed h b"
  shows "pool_inv (goto t pc (p\<lparr>python_mutex := y\<rparr>))"
  using pool_inv_move [of p t "writer p" y pc] assms pool_invD(1) [of p t] by (simp add: may_set_def)

lemma pool_inv_goto:
  assumes "pool_inv p" "holds_writer pc = holds_writer (pcs p t)" "holds_python pc = holds_python (pcs p t)"
    and "\<And>h. loading_hash pc = Some h \<Longrightarrow> bundles (mgr p) h = None"
    and "\<And>h b. bundle_of pc = Some (h, b) \<Longrightarrow> bundles (mgr p) h = Some b" "\<And>h b. pc \<noteq> CallMissed h b"
  shows "pool_inv (goto t pc p)"
  using pool_inv_move [of p t "writer p" "python_mutex p" pc] assms pool_invD(1,2) [of p t]
  by (simp add: may_set_def)

lemma pool_inv_step: "pool_step P p p' \<Longrightarrow> pool_inv p \<Longrightarrow> pool_inv p'"
proof (induction rule: pool_step.induct)
  case (load_done p t h s b m' s')
  then have "bundles (mgr p) h = None" using pool_invD(3) [of p t h] by simp
  then show ?case using load_done pool_inv_load load_locked_new by blast
next
  case (load_failed p t h s e m' s')
  then show ?case
    using pool_inv_move [of p t None None Idle] pool_invD(1,2) [of p t] load_locked_failed [of P "mgr p" h s e m' s']
    by (simp add: may_set_def)
next
  case (recheck_miss p t h)
  then show ?case
    using pool_inv_move [of p t "Some t" "python_mutex p" "WantPython h"] pool_invD(1-2) [of p t] by (simp add: may_set_def)
next
  case (load_begin p t h)
  then show ?case
    using pool_inv_python [of p t "Some t" "Loading h"] pool_invD(1-3) [of p t] by (simp add: may_set_def)
next
  case (load_callback_read p t h)
  then show ?case using pool_invD(1) [of p t] by simp
next
  case (run_begin p t h b)
  then show ?case
    using pool_inv_python [of p t "Some t" "Running h b"] pool_invD(1,2,4) [of p t] by (simp add: may_set_def)
next
  case (callback_miss p t h b)
  then show ?case using pool_invD(4) [of p t h b] by simp
next
  case (run_end p t h b)
  then show ?case
    using pool_inv_python [of p t None Idle] pool_invD(1,2) [of p t] by (simp add: may_set_def)
next
  case (load_callback p t h)
  then show ?case using pool_invD(3) [of p t h] by (intro pool_inv_goto) simp_all
next
  case (callback p t h b)
  then show ?case using pool_invD(4) [of p t h b] by (intro pool_inv_goto) simp_all
next
  case (callback_hit p t h b)
  then show ?case using pool_invD(4) [of p t h b] by (intro pool_inv_goto) simp_all
qed (intro pool_inv_goto; simp)+

interpretation pool: invariant_system "pool_start root" "pool_step P" pool_inv
  by unfold_locales (fact pool_inv_start, fact pool_inv_step)

lemma pool_reach_inv: "pool_reach P root p \<Longrightarrow> pool_inv p"
  unfolding pool_reach_def by (rule pool.inv_always)

lemma pool_reach_start: "pool_reach P root (pool_start root)"
  by (simp add: pool_reach_def)

lemma pool_reach_step: "pool_reach P root p \<Longrightarrow> pool_step P p p' \<Longrightarrow> pool_reach P root p'"
  unfolding pool_reach_def by (rule rtranclp.rtrancl_into_rtrancl)

text \<open>
  C36. However the threads interleave, a bundle is loaded at most once: every hash has at most one interpreter in the
  whole run, the cache holds exactly what was loaded, and two threads that work with the same bundle share its
  interpreter. A callback of a running bundle always finds that bundle in the cache.
\<close>

theorem one_interpreter_per_bundle:
  assumes "pool_reach P root p"
  shows "distinct (map fst (created p)) \<and> bundles (mgr p) = map_of (created p) \<and>
    (\<forall>t h b. bundle_of (pcs p t) = Some (h, b) \<longrightarrow> (h, b) \<in> set (created p)) \<and>
    (\<forall>t u h b b'. bundle_of (pcs p t) = Some (h, b) \<longrightarrow> bundle_of (pcs p u) = Some (h, b') \<longrightarrow> b = b') \<and>
    (\<forall>t h b. pcs p t \<noteq> CallMissed h b)"
proof -
  note inv = pool_reach_inv [OF assms]
  have "b = b'" if "bundle_of (pcs p t) = Some (h, b)" "bundle_of (pcs p u) = Some (h, b')" for t u h b b'
    using that [THEN pool_invD(4) [OF inv]] by simp
  moreover have "(h, b) \<in> set (created p)" if "bundle_of (pcs p t) = Some (h, b)" for t h b
    using pool_invD(4) [OF inv that] pool_invD(6) [OF inv] map_of_SomeD [of "created p" h b] by simp
  ultimately show ?thesis
    using pool_invD(5-7) [OF inv] by blast
qed

subsection \<open>The cache is a memo table\<close>

text \<open>
  The specification: a table that only grows, by one entry for a hash that has none, and a look-up
  that returns the entry of the table.
\<close>

inductive memo_step :: "('k \<rightharpoonup> 'v) \<Rightarrow> ('k \<rightharpoonup> 'v) \<Rightarrow> bool" where
  stutter: "memo_step m m"
| insert_new: "m h = None \<Longrightarrow> memo_step m (m(h \<mapsto> v))"

lemma pool_step_memo:
  assumes "pool_step P p p'" "pool_inv p"
  shows "memo_step (bundles (mgr p)) (bundles (mgr p'))"
  using assms
proof cases
  case (load_done t h s b m' s')
  then have "bundles (mgr p) h = None" using pool_invD(3) [OF assms(2), of t h] by simp
  then show ?thesis using load_done load_locked_new memo_step.insert_new by (simp add: goto_def)
next
  case (load_failed t h s e m' s')
  then show ?thesis using load_locked_failed [of P "mgr p" h s e m' s'] by (simp add: goto_def memo_step.stutter)
qed (simp_all add: goto_def memo_step.stutter)

text \<open>
  C38. The double-checked locking of the cache implements a memo table: every step of every thread is a step of the
  table or leaves it alone, and the bundle with which a thread leaves \<^verbatim>\<open>load_bundle\<close> is the entry of the table.
\<close>

theorem cache_refines_memo:
  assumes "pool_reach P root p" "pool_step P p p'"
  shows "memo_step (bundles (mgr p)) (bundles (mgr p')) \<and>
    (\<forall>t h b. pcs p' t = WantRun h b \<longrightarrow> bundles (mgr p') h = Some b)"
proof -
  note inv = pool_reach_inv [OF assms(1)]
  have "bundles (mgr p') h = Some b" if "pcs p' t = WantRun h b" for t h b
    using pool_invD(4) [OF pool_inv_step [OF assms(2) inv], of t h b] that by simp
  then show ?thesis using pool_step_memo [OF assms(2) inv] by blast
qed

theorem cache_refines_memo_witness:
  "memo_step (bundles (mgr (pool_start ''/b''))) (bundles (mgr (goto 3 (Looking ''a'') (pool_start ''/b''))))"
proof -
  have "pool_step willing_python (pool_start ''/b'') (goto 3 (Looking ''a'') (pool_start ''/b''))"
    by (rule request) (simp add: pool_start_def)
  then show ?thesis using cache_refines_memo [OF pool_reach_start] by blast
qed

subsection \<open>The locks are taken in both orders\<close>

text \<open>
  One thread holds the write lock of the cache and waits for \<^verbatim>\<open>PYTHON_MUTEX\<close> to load a bundle; another one runs a
  bundle, holds \<^verbatim>\<open>PYTHON_MUTEX\<close> and waits for the read lock in a callback.
\<close>

definition deadlocked :: "pool \<Rightarrow> nat \<Rightarrow> nat \<Rightarrow> bool" where
  "deadlocked p t u \<longleftrightarrow>
     (\<exists>h b. pcs p t = Calling h b) \<and> python_mutex p = Some t \<and> (\<exists>h'. pcs p u = WantPython h') \<and> writer p = Some u"

lemma deadlock_is_permanent:
  assumes "pool_step P p p'" "pool_inv p" "deadlocked p t u"
  shows "deadlocked p' t u"
proof -
  have held: "holds_python (pcs p v) \<Longrightarrow> v = t" for v
    using pool_invD(2) [OF assms(2), of v] assms(3) by (simp add: deadlocked_def)
  have "pcs p v \<noteq> Loading h" "pcs p v \<noteq> LoadCalling h" "pcs p v \<noteq> Running h b" for v h b
    using held [of v] assms(3) by (auto simp: deadlocked_def)
  with assms(1) show ?thesis
    by cases (use assms(3) in \<open>auto simp: deadlocked_def goto_def\<close>)
qed

text \<open>Such a state is reached: one bundle is loaded and runs while another one is requested for the first time.\<close>

lemma willing_load: "\<exists>b m' s'. load_locked willing_python (initialize ''/b'') ''a'' idle_thread = (Inr b, m', s')"
proof -
  have "\<exists>b s'. run_state (bundle_interface_new willing_python ''a'' ''/b'') idle_thread = (Inr b, s')"
    by (simp add: bundle_interface_new_def restore_main_state_def save_main_state_def SubInterpreter_new_def
        ThreadScope_new_def ThreadScope_drop_def load_modules_def prepare_globals_def import_modules_def
        append_bundle_path_to_sys_path_def join_path_def has_nul_def set_current_thread_bundle_def
        get_state_slot_def set_state_slot_def PyEval_RestoreThread_def PyEval_SaveThread_def PyThreadState_Get_def
        Py_NewInterpreter_def PyThreadState_Swap_def PyThreadState_New_def PyThreadState_DeleteCurrent_def
        py_new_def py_run_def py_status_def Py_DecRef_def PySys_GetObject_def PyErr_Occurred_def
        clear_current_thread_bundle_def willing_python_def idle_thread_def Let_def)
  then show ?thesis by (auto simp: load_locked_def initialize_def)
qed

lemma deadlock_is_reachable: "\<exists>p. pool_reach willing_python ''/b'' p \<and> deadlocked p 0 1"
proof -
  let ?R = "pool_reach willing_python ''/b''"
  note more = pool_reach_step [of willing_python "''/b''"]
  obtain b m' s' where l: "load_locked willing_python (initialize ''/b'') ''a'' idle_thread = (Inr b, m', s')"
    using willing_load by blast
  have none: "bundles m' ''b'' = None"
    using load_locked_new [OF l] by (simp add: initialize_def)
  let ?s0 = "pool_start ''/b''"
  let ?s3 = "\<lambda>pc. goto 0 pc (?s0\<lparr>writer := Some 0\<rparr>)"
  let ?s5 = "?s0\<lparr>mgr := m', created := [(''a'', b)]\<rparr>"
  let ?p7 = "goto 0 (Calling ''a'' b) (?s5\<lparr>python_mutex := Some 0\<rparr>)"
  have "?R (goto 0 (Looking ''a'') ?s0)"
    by (rule more [OF pool_reach_start request]) (simp add: pool_start_def)
  then have "?R (goto 0 (WantWrite ''a'') ?s0)"
    using more [OF _ look_miss [of "goto 0 (Looking ''a'') ?s0" 0 "''a''"]]
    by (simp add: pool_start_def initialize_def goto_def)
  then have "?R (?s3 (WantPython ''a''))"
    using more [OF _ recheck_miss [of "goto 0 (WantWrite ''a'') ?s0" 0 "''a''"]]
    by (simp add: pool_start_def initialize_def goto_def)
  then have "?R (goto 0 (Loading ''a'') (?s0\<lparr>writer := Some 0, python_mutex := Some 0\<rparr>))"
    using more [OF _ load_begin [of "?s3 (WantPython ''a'')" 0 "''a''"]] by (simp add: pool_start_def goto_def)
  then have "?R (goto 0 (WantRun ''a'' b) ?s5)"
    using more [OF _ load_done [of "goto 0 (Loading ''a'') (?s0\<lparr>writer := Some 0, python_mutex := Some 0\<rparr>)" 0 "''a''"
          willing_python idle_thread b m' s']] l
    by (simp add: pool_start_def goto_def)
  then have "?R (goto 0 (Running ''a'' b) (?s5\<lparr>python_mutex := Some 0\<rparr>))"
    using more [OF _ run_begin [of "goto 0 (WantRun ''a'' b) ?s5" 0 "''a''" b]] by (simp add: pool_start_def goto_def)
  then have "?R ?p7"
    using more [OF _ callback [of "goto 0 (Running ''a'' b) (?s5\<lparr>python_mutex := Some 0\<rparr>)" 0 "''a''" b]]
    by (simp add: pool_start_def goto_def)
  then have "?R (goto 1 (Looking ''b'') ?p7)"
    using more [OF _ request [of ?p7 1]] by (simp add: pool_start_def goto_def)
  then have "?R (goto 1 (WantWrite ''b'') ?p7)"
    using more [OF _ look_miss [of "goto 1 (Looking ''b'') ?p7" 1 "''b''"]] none by (simp add: pool_start_def goto_def)
  then have "?R (goto 1 (WantPython ''b'') (?p7\<lparr>writer := Some 1\<rparr>))"
    using more [OF _ recheck_miss [of "goto 1 (WantWrite ''b'') ?p7" 1 "''b''"]] none
    by (simp add: pool_start_def goto_def)
  then show ?thesis
    by (intro exI conjI, assumption) (simp add: deadlocked_def pool_start_def goto_def)
qed

theorem one_interpreter_per_bundle_witness:
  "\<exists>p h b. pool_reach willing_python ''/b'' p \<and> pcs p 0 = Calling h b \<and> (h, b) \<in> set (created p)"
proof -
  obtain p h b where p: "pool_reach willing_python ''/b'' p" "pcs p 0 = Calling h b"
    using deadlock_is_reachable by (auto simp: deadlocked_def)
  then have "bundle_of (pcs p 0) = Some (h, b)" by simp
  then show ?thesis using p one_interpreter_per_bundle [OF p(1)] by blast
qed

text \<open>
  C37. The two locks are taken in both orders: a state is reachable in which one thread runs a bundle, in a callback
  that waits for the lock of the cache, while another thread loads a bundle, holds that lock and waits for
  \<^verbatim>\<open>PYTHON_MUTEX\<close>; whatever happens after it, both threads stay there.
\<close>

theorem cache_lock_deadlock:
  "\<exists>p. pool_reach willing_python ''/b'' p \<and> {p'. (pool_step willing_python)\<^sup>*\<^sup>* p p'} \<subseteq> {p'. deadlocked p' 0 1}"
proof -
  obtain p where p: "pool_reach willing_python ''/b'' p" "deadlocked p 0 1"
    using deadlock_is_reachable by blast
  have "deadlocked p' 0 1" if "(pool_step willing_python)\<^sup>*\<^sup>* p p'" for p'
    using pool.stable_ever_after [OF that pool_reach_inv [OF p(1)], of "\<lambda>p. deadlocked p 0 1"] p(2) deadlock_is_permanent
    by blast
  with p(1) show ?thesis by blast
qed

end
