(* ===== verification/Bundle_Db.thy ===== *)
theory Bundle_Db
  imports Bundle_Manager
begin

text \<open>
  The modules that bundles import: \<^verbatim>\<open>_bundledb\<close> of \<^verbatim>\<open>src/src/src/bundle_db.rs\<close> and \<^verbatim>\<open>_bundlelogging\<close> of
  \<^verbatim>\<open>bundle_logging.rs\<close>. A callback runs on a thread that holds \<^verbatim>\<open>PYTHON_MUTEX\<close> and the interpreter lock and
  returns a Python object, or NULL with the error indicator set, as the interpreter requires of it.

  \<open>reply\<close> answers a request to the server (the bridge thread of \<^verbatim>\<open>db_bridge.rs\<close> and the websocket behind it), given all
  requests so far; \<open>loaded\<close> is the outcome of \<^verbatim>\<open>load_bundle\<close>.
\<close>

record db_world =
  reply :: "message list \<Rightarrow> string + message"
  loaded :: "string \<Rightarrow> string + bundle_interface"

subsection \<open>Requests and responses\<close>

definition build_bundle_create_or_update_message :: "string \<Rightarrow> u64 \<Rightarrow> string \<Rightarrow> message" where
  "build_bundle_create_or_update_message hash job_id job_data_json =
     push_string (push_string (push_ulong
       (message_new DB_BUNDLE_CREATE_OR_UPDATE_JOB Medium ''database'') job_id) job_data_json) hash"

definition build_bundle_id_message :: "u32 \<Rightarrow> u64 \<Rightarrow> message" where
  "build_bundle_id_message i job_id = push_ulong (message_new i Medium ''database'') job_id"

definition build_bundle_get_by_id_message :: "u64 \<Rightarrow> message" where
  "build_bundle_get_by_id_message job_id = build_bundle_id_message DB_BUNDLE_GET_JOB_BY_ID job_id"

definition build_bundle_delete_message :: "u64 \<Rightarrow> message" where
  "build_bundle_delete_message job_id = build_bundle_id_message DB_BUNDLE_DELETE_JOB job_id"

definition parse_create_or_update_response :: "message \<Rightarrow> string + u64" where
  "parse_create_or_update_response response =
     (case pop_ulong (clone_for_payload_reading response) of (new_job_id, _) \<Rightarrow>
        if new_job_id = 0 then Inl ''Job was unable to be created or updated.'' else Inr new_job_id)"

definition parse_get_job_by_id_response :: "message \<Rightarrow> u64 \<Rightarrow> string + string" where
  "parse_get_job_by_id_response response requested =
     (case pop_uint (clone_for_payload_reading response) of (n, r) \<Rightarrow>
        if n = 0 then Inl (''Job with ID '' @ show_nat (unat requested) @ '' does not exist.'')
        else case pop_ulong r of (_, r') \<Rightarrow> Inr (fst (pop_string r')))"

definition send_and_wait :: "db_world \<Rightarrow> message \<Rightarrow> (string + message) py_m" where
  "send_and_wait W m = State (\<lambda>s. let ms = requests s @ [m] in (reply W ms, s\<lparr>requests := ms\<rparr>))"

subsection \<open>Errors raised in the bundle\<close>

definition err_cstring :: "string \<Rightarrow> string" where
  "err_cstring msg = (if has_nul msg then ''Internal error'' else msg)"

definition set_py_error :: "pyobj \<Rightarrow> string \<Rightarrow> unit py_m" where
  "set_py_error error_obj msg = PyErr_SetString error_obj (err_cstring msg)"

definition set_db_error_and_return_null :: "pyobj \<Rightarrow> string \<Rightarrow> pyobj option py_m" where
  "set_db_error_and_return_null error_obj msg = do { set_py_error error_obj msg; State_Monad.return None }"

text \<open>The map \<^verbatim>\<open>BUNDLE_DB_ERRORS\<close>. An exception object created here is owned by the map from then on.\<close>

definition lookup_error :: "string \<Rightarrow> pyobj option py_m" where
  "lookup_error hash = State (\<lambda>s. (db_errors s hash, s))"

definition keep_error :: "string \<Rightarrow> pyobj \<Rightarrow> unit py_m" where
  "keep_error hash exc = State (\<lambda>s. ((), s\<lparr>owned := owned s - {#exc#}, misused := (misused s \<or> exc \<notin># owned s),
     db_errors := (db_errors s)(hash \<mapsto> exc)\<rparr>))"

definition set_bundle_db_error :: "string \<Rightarrow> pyobj \<Rightarrow> unit py_m" where
  "set_bundle_db_error hash exc = State (\<lambda>s. ((), s\<lparr>db_errors := (db_errors s)(hash \<mapsto> exc)\<rparr>))"

definition get_bundle_db_error :: "python \<Rightarrow> string \<Rightarrow> pyobj option py_m" where
  "get_bundle_db_error P hash = do {
     known \<leftarrow> lookup_error hash;
     case known of
       Some exc \<Rightarrow> State_Monad.return (Some exc)
     | None \<Rightarrow> do {
         err \<leftarrow> py_new P NewException;
         case err of
           None \<Rightarrow> State_Monad.return None
         | Some exc \<Rightarrow> do { keep_error hash exc; State_Monad.return (Some exc) }
       }
   }"

text \<open>Logs if there is no exception object.\<close>

definition get_bundle_db_error_or_abort :: "python \<Rightarrow> string \<Rightarrow> pyobj option py_m" where
  "get_bundle_db_error_or_abort P hash = do {
     error_obj \<leftarrow> get_bundle_db_error P hash;
     case error_obj of
       None \<Rightarrow> State_Monad.return None
     | Some exc \<Rightarrow> State_Monad.return (Some exc)
   }"

definition raise_db_error :: "python \<Rightarrow> string \<Rightarrow> string \<Rightarrow> pyobj option py_m" where
  "raise_db_error P hash msg = do {
     error_obj \<leftarrow> get_bundle_db_error_or_abort P hash;
     case error_obj of
       None \<Rightarrow> State_Monad.return None
     | Some exc \<Rightarrow> set_db_error_and_return_null exc msg
   }"

definition get_job_by_id_load_failure :: "python \<Rightarrow> string \<Rightarrow> pyobj option py_m" where
  "get_job_by_id_load_failure P hash = raise_db_error P hash ''Bundle not found in cache''"

definition load_bundle_failure :: "python \<Rightarrow> string \<Rightarrow> unit py_m" where
  "load_bundle_failure P hash = do {
     raise_db_error P hash ''Bundle not found in cache'';
     State_Monad.return ()
   }"

subsection \<open>The callbacks\<close>

definition current_hash :: "string py_m" where
  "current_hash = do {
     h \<leftarrow> get_current_thread_bundle;
     State_Monad.return (case h of None \<Rightarrow> ''unknown'' | Some h \<Rightarrow> h)
   }"

definition load_bundle_and_job_id :: "python \<Rightarrow> db_world \<Rightarrow> pyobj \<Rightarrow> (string \<times> u64 \<times> json) option py_m" where
  "load_bundle_and_job_id P W dict = do {
     hash \<leftarrow> current_hash;
     case loaded W hash of
       Inl _ \<Rightarrow> do { load_bundle_failure P hash; State_Monad.return None }
     | Inr b \<Rightarrow> do {
         dumped \<leftarrow> json_dumps P b (Some dict);
         case dumped of
           Inl _ \<Rightarrow> do { raise_db_error P hash ''Failed to serialize job data''; State_Monad.return None }
         | Inr json_str \<Rightarrow>
             (let job_data = (case json_parse P json_str of None \<Rightarrow> JNull | Some v \<Rightarrow> v);
                  job_id = (case json_get job_data ''job_id'' of
                              None \<Rightarrow> 0
                            | Some v \<Rightarrow> (case as_u64 v of None \<Rightarrow> 0 | Some n \<Rightarrow> n))
              in State_Monad.return (Some (hash, job_id, job_data)))
       }
   }"

fun json_remove :: "json \<Rightarrow> string \<Rightarrow> json" where
  "json_remove (JObject fs) key = JObject (filter (\<lambda>f. fst f \<noteq> key) fs)"
| "json_remove v key = v"

text \<open>Takes over the reference to the value.\<close>

definition set_job_id_in_dict :: "python \<Rightarrow> pyobj \<Rightarrow> pyobj option \<Rightarrow> pyobj \<Rightarrow> bool py_m" where
  "set_job_id_in_dict P dict value error_obj =
     (case value of
        None \<Rightarrow> do { set_py_error error_obj ''Failed to allocate job_id''; State_Monad.return False }
      | Some v \<Rightarrow> do {
          failed \<leftarrow> py_status P (DictSet dict ''job_id'');
          if failed then do {
            Py_DecRef v;
            set_py_error error_obj ''Failed to set job_id in dict'';
            State_Monad.return False
          } else do { Py_DecRef v; State_Monad.return True }
        })"

definition bundle_create_or_update_job :: "python \<Rightarrow> db_world \<Rightarrow> pyobj \<Rightarrow> pyobj option py_m" where
  "bundle_create_or_update_job P W args = do {
     dict \<leftarrow> PyTuple_GetItem P args 0;
     case dict of
       None \<Rightarrow> State_Monad.return None
     | Some d \<Rightarrow> do {
         found \<leftarrow> load_bundle_and_job_id P W d;
         case found of
           None \<Rightarrow> State_Monad.return None
         | Some (hash, job_id, job_data) \<Rightarrow> do {
             error_obj \<leftarrow> get_bundle_db_error_or_abort P hash;
             case error_obj of
               None \<Rightarrow> State_Monad.return None
             | Some exc \<Rightarrow> do {
                 answer \<leftarrow> send_and_wait W (build_bundle_create_or_update_message hash job_id
                             (json_text P (json_remove job_data ''job_id'')));
                 case answer of
                   Inl e \<Rightarrow> set_db_error_and_return_null exc (''DB error: '' @ e)
                 | Inr response \<Rightarrow>
                     (case parse_create_or_update_response response of
                        Inl message \<Rightarrow> set_db_error_and_return_null exc message
                      | Inr new_job_id \<Rightarrow> do {
                          value \<leftarrow> py_new P (LongFrom new_job_id);
                          stored \<leftarrow> set_job_id_in_dict P d value exc;
                          if stored then return_py_none P else State_Monad.return None
                        })
               }
           }
       }
   }"

definition bundle_get_job_by_id :: "python \<Rightarrow> db_world \<Rightarrow> pyobj \<Rightarrow> pyobj option py_m" where
  "bundle_get_job_by_id P W args = do {
     job_id_obj \<leftarrow> PyTuple_GetItem P args 0;
     case job_id_obj of
       None \<Rightarrow> State_Monad.return None
     | Some x \<Rightarrow> do {
         hash \<leftarrow> current_hash;
         job_id \<leftarrow> PyLong_AsUnsignedLongLong P x;
         e \<leftarrow> PyErr_Occurred;
         if e then do { PyErr_Clear; raise_db_error P hash ''Job ID must be an integer'' }
         else case loaded W hash of
           Inl _ \<Rightarrow> get_job_by_id_load_failure P hash
         | Inr b \<Rightarrow> do {
             error_obj \<leftarrow> get_bundle_db_error_or_abort P hash;
             case error_obj of
               None \<Rightarrow> State_Monad.return None
             | Some exc \<Rightarrow> do {
                 answer \<leftarrow> send_and_wait W (build_bundle_get_by_id_message job_id);
                 case answer of
                   Inl e \<Rightarrow> set_db_error_and_return_null exc (''DB error: '' @ e)
                 | Inr response \<Rightarrow>
                     (case parse_get_job_by_id_response response job_id of
                        Inl message \<Rightarrow> set_db_error_and_return_null exc message
                      | Inr job_data_json \<Rightarrow> do {
                          dict \<leftarrow> json_loads P b job_data_json;
                          case dict of
                            None \<Rightarrow> set_db_error_and_return_null exc ''Failed to parse job data JSON''
                          | Some d \<Rightarrow> do {
                              value \<leftarrow> py_new P (LongFrom job_id);
                              stored \<leftarrow> set_job_id_in_dict P d value exc;
                              if stored then State_Monad.return (Some d)
                              else do { Py_DecRef d; State_Monad.return None }
                            }
                        })
               }
           }
       }
   }"

definition bundle_delete_job :: "python \<Rightarrow> db_world \<Rightarrow> pyobj \<Rightarrow> pyobj option py_m" where
  "bundle_delete_job P W args = do {
     dict \<leftarrow> PyTuple_GetItem P args 0;
     case dict of
       None \<Rightarrow> State_Monad.return None
     | Some d \<Rightarrow> do {
         found \<leftarrow> load_bundle_and_job_id P W d;
         case found of
           None \<Rightarrow> State_Monad.return None
         | Some (hash, job_id, _) \<Rightarrow>
             if job_id = 0 then raise_db_error P hash ''Job ID must be provided.''
             else do {
               answer \<leftarrow> send_and_wait W (build_bundle_delete_message job_id);
               case answer of
                 Inl e \<Rightarrow> raise_db_error P hash (''DB error: '' @ e)
               | Inr _ \<Rightarrow> return_py_none P
             }
       }
   }"

definition PyInit_bundledb :: "python \<Rightarrow> pyobj option py_m" where
  "PyInit_bundledb P = do {
     module \<leftarrow> py_new P (ModuleNew ''_bundledb'');
     case module of
       None \<Rightarrow> State_Monad.return None
     | Some m \<Rightarrow> do {
         exc \<leftarrow> py_new P NewException;
         case exc of
           None \<Rightarrow> do { Py_DecRef m; State_Monad.return None }
         | Some x \<Rightarrow> do {
             failed \<leftarrow> PyModule_AddObject P m ''error'' x;
             if failed then do { Py_DecRef x; Py_DecRef m; State_Monad.return None }
             else do {
               h \<leftarrow> get_current_thread_bundle;
               (case h of None \<Rightarrow> State_Monad.return () | Some hash \<Rightarrow> set_bundle_db_error hash x);
               State_Monad.return (Some m)
             }
           }
       }
   }"

subsection \<open>Output of bundles\<close>

text \<open>One write: a message that ends with a newline completes the line of the thread, any other one extends it.\<close>

definition write_text :: "string \<Rightarrow> bool \<Rightarrow> string \<Rightarrow> unit py_m" where
  "write_text hash is_stdout msg = State (\<lambda>s.
     if msg \<noteq> [] \<and> last msg = CHR 0x0A then
       (let content = butlast msg;
            parts = (if content = [] then line_parts s else line_parts s @ [content])
        in ((), s\<lparr>line_parts := [], logged := logged s @ [(if is_stdout then LogInfo else LogError, ''Bundle ['' @ hash @ '']: '' @ concat parts)]\<rparr>))
     else ((), s\<lparr>line_parts := line_parts s @ [msg]\<rparr>))"

definition write_log :: "python \<Rightarrow> pyobj \<Rightarrow> pyobj option py_m" where
  "write_log P args = do {
     hash \<leftarrow> current_hash;
     is_stdout_obj \<leftarrow> PyTuple_GetItem P args 0;
     arg_msg \<leftarrow> PyTuple_GetItem P args 1;
     case arg_msg of
       None \<Rightarrow> do { PyErr_Clear; return_py_none P }
     | Some m \<Rightarrow> do {
         c_msg \<leftarrow> PyUnicode_AsUTF8 P m;
         case c_msg of
           None \<Rightarrow> do { PyErr_Clear; return_py_none P }
         | Some msg \<Rightarrow> do { write_text hash (is_stdout_obj = Some (a_true P)) msg; return_py_none P }
       }
   }"

definition PyInit_bundlelogging :: "python \<Rightarrow> pyobj option py_m" where
  "PyInit_bundlelogging P = py_new P (ModuleNew ''_bundlelogging'')"

subsection \<open>The calling convention of the interpreter\<close>

text \<open>NULL is returned with an error set, an object without one.\<close>

abbreviation (input) convention :: "pyobj option \<Rightarrow> bool \<Rightarrow> bool \<Rightarrow> bool" where
  "convention r e e' \<equiv> \<not> e \<longrightarrow> (e' \<longleftrightarrow> r = None)"

lemma wp_db [wp_simps]:
  "wp (send_and_wait W m) Qr s = (let ms = requests s @ [m] in Qr (reply W ms) (s\<lparr>requests := ms\<rparr>))"
  "wp (lookup_error h) Qo s = Qo (db_errors s h) s"
  "wp (keep_error h x) Q s = Q () (s\<lparr>owned := owned s - {#x#}, misused := (misused s \<or> x \<notin># owned s),
     db_errors := (db_errors s)(h \<mapsto> x)\<rparr>)"
  "wp (set_bundle_db_error h x) Q s = Q () (s\<lparr>db_errors := (db_errors s)(h \<mapsto> x)\<rparr>)"
  "wp (set_py_error x msg) Q s = wp (PyErr_SetString x (err_cstring msg)) Q s"
  "wp (return_py_none P) Qo s = Qo (Some (a_none P)) (s\<lparr>owned := add_mset (a_none P) (owned s)\<rparr>)"
  by (simp_all add: wp_def send_and_wait_def lookup_error_def keep_error_def set_bundle_db_error_def set_py_error_def
      return_py_none_def Py_IncRef_def Let_def)

lemma get_bundle_db_error_ok: "contract (get_bundle_db_error P h) (\<lambda>_. {#}) convention"
  by (rule contractI) (auto simp: get_bundle_db_error_def wp_simps Let_def thread_of_def split: option.splits)

lemma get_or_abort_ok: "contract (get_bundle_db_error_or_abort P h) (\<lambda>_. {#}) convention"
  by (rule contractI)
     (auto simp: get_bundle_db_error_or_abort_def wp_simps split: option.splits
        intro!: contract_wp [OF get_bundle_db_error_ok])

lemma raise_db_error_ok: "contract (raise_db_error P h msg) (\<lambda>_. {#}) (\<lambda>r e e'. r = None \<and> (\<not> e \<longrightarrow> e'))"
  by (rule contractI)
     (auto simp: raise_db_error_def set_db_error_and_return_null_def wp_simps Let_def thread_of_def
        split: option.splits intro!: contract_wp [OF get_or_abort_ok])

lemma load_bundle_and_job_id_ok:
  "contract (load_bundle_and_job_id P W d) (\<lambda>_. {#}) (\<lambda>r e e'. \<not> e \<longrightarrow> (e' \<longleftrightarrow> r = None))"
  by (rule contractI)
     (auto simp: load_bundle_and_job_id_def load_bundle_failure_def current_hash_def wp_simps Let_def thread_of_def
        split: option.splits sum.splits intro!: contract_wp [OF raise_db_error_ok] contract_wp [OF json_dumps_ok])

lemma set_job_id_wp:
  assumes "refs v \<subseteq># owned s" "\<not> misused s"
    and "\<And>r s'. owned s' = owned s - refs v \<Longrightarrow> \<not> misused s' \<Longrightarrow> thread_of s' = thread_of s
           \<Longrightarrow> (\<not> pending_error s \<longrightarrow> (pending_error s' \<longleftrightarrow> \<not> r)) \<Longrightarrow> (\<not> r \<Longrightarrow> pending_error s')
           \<Longrightarrow> (v = None \<Longrightarrow> \<not> r) \<Longrightarrow> Q r s'"
  shows "wp (set_job_id_in_dict P d v exc) Q s"
  using assms(1,2)
  by (auto simp: set_job_id_in_dict_def wp_simps Let_def thread_of_def split: option.splits intro!: assms(3))

text \<open>What the interpreter requires of a callback, which it enters without an error.\<close>

definition well_behaved :: "pyobj option py_m \<Rightarrow> bool" where
  "well_behaved m \<longleftrightarrow> (\<forall>s. \<not> misused s \<longrightarrow> \<not> pending_error s \<longrightarrow>
     wp m (\<lambda>r s'. owned s' = owned s + refs r \<and> \<not> misused s' \<and> thread_of s' = thread_of s
                  \<and> (pending_error s' \<longleftrightarrow> r = None)) s)"

lemma create_or_update_ok: "well_behaved (bundle_create_or_update_job P W args)"
  unfolding well_behaved_def
  by (auto simp: bundle_create_or_update_job_def set_db_error_and_return_null_def wp_simps Let_def thread_of_def
        split: option.splits sum.splits prod.splits
        intro!: contract_wp [OF load_bundle_and_job_id_ok] contract_wp [OF get_or_abort_ok] set_job_id_wp)

lemma get_job_by_id_ok: "well_behaved (bundle_get_job_by_id P W args)"
  unfolding well_behaved_def
  by (auto simp: bundle_get_job_by_id_def get_job_by_id_load_failure_def current_hash_def
        set_db_error_and_return_null_def wp_simps Let_def thread_of_def
        split: option.splits sum.splits prod.splits
        intro!: contract_wp [OF raise_db_error_ok] contract_wp [OF get_or_abort_ok]
          contract_wp [OF json_loads_ok] set_job_id_wp)

lemma delete_job_ok: "well_behaved (bundle_delete_job P W args)"
  unfolding well_behaved_def
  by (auto simp: bundle_delete_job_def wp_simps Let_def thread_of_def
        split: option.splits sum.splits prod.splits
        intro!: contract_wp [OF load_bundle_and_job_id_ok] contract_wp [OF raise_db_error_ok])

lemma init_bundledb_ok: "well_behaved (PyInit_bundledb P)"
  unfolding well_behaved_def
  by (auto simp: PyInit_bundledb_def wp_simps Let_def thread_of_def split: option.splits)

lemma wp_write [wp_simps]:
  "wp (write_text h so msg) Q s =
     (if msg \<noteq> [] \<and> last msg = CHR 0x0A then
        Q () (s\<lparr>line_parts := [], logged := logged s @ [(if so then LogInfo else LogError, ''Bundle ['' @ h @ '']: '' @
          concat (if butlast msg = [] then line_parts s else line_parts s @ [butlast msg]))]\<rparr>)
      else Q () (s\<lparr>line_parts := line_parts s @ [msg]\<rparr>))"
  by (simp add: wp_def write_text_def Let_def)

text \<open>A tuple that has a second item has a first one.\<close>

definition tuple_items :: "python \<Rightarrow> pyobj \<Rightarrow> bool" where
  "tuple_items P args \<longleftrightarrow> (\<forall>cs. a_obj P (cs @ [TupleGet args 0]) = None
     \<longrightarrow> a_obj P (cs @ [TupleGet args 0, TupleGet args 1]) = None)"

lemma write_log_ok: "tuple_items P args \<Longrightarrow> well_behaved (write_log P args)"
  unfolding well_behaved_def tuple_items_def
  by (auto simp: write_log_def current_hash_def wp_simps Let_def thread_of_def split: option.splits)

lemma init_bundlelogging_ok: "well_behaved (PyInit_bundlelogging P)"
  unfolding well_behaved_def by (auto simp: PyInit_bundlelogging_def wp_simps Let_def thread_of_def)


definition failing_server :: db_world where
  "failing_server = \<lparr>reply = (\<lambda>_. Inl ''WebSocket is disconnected''), loaded = (\<lambda>_. Inl ''no bundle'')\<rparr>"


subsection \<open>Lines\<close>

text \<open>Successive writes of one thread, each to standard output or standard error.\<close>

primrec write_all :: "string \<Rightarrow> (bool \<times> string) list \<Rightarrow> unit py_m" where
  "write_all hash [] = State_Monad.return ()"
| "write_all hash (w # ws) = do { write_text hash (fst w) (snd w); write_all hash ws }"

definition bundle_lines :: "string \<Rightarrow> (log_level \<times> string) list \<Rightarrow> (log_level \<times> string) list" where
  "bundle_lines hash = map (\<lambda>(level, l). (level, ''Bundle ['' @ hash @ '']: '' @ l))"

text \<open>
  No output of a bundle is lost, repeated or reordered: the lines that a sequence of writes logs, each followed by
  the newline that completed it, and the unfinished rest are together exactly what was written, after what
  was unfinished before.
\<close>

theorem output_is_complete:
  assumes "run_state (write_all hash ws) s = ((), s')"
  shows "\<exists>ls. logged s' = logged s @ bundle_lines hash ls
    \<and> concat (map (\<lambda>l. snd l @ [CHR 0x0A]) ls) @ concat (line_parts s') = concat (line_parts s) @ concat (map snd ws)"
  using assms
proof (induction ws arbitrary: s)
  case Nil
  then show ?case by (simp add: bundle_lines_def)
next
  case (Cons w ws)
  obtain u where u: "run_state (write_text hash (fst w) (snd w)) s = ((), u)"
    by (cases "run_state (write_text hash (fst w) (snd w)) s") auto
  with Cons.prems have "run_state (write_all hash ws) u = ((), s')" by simp
  then obtain ls where ls: "logged s' = logged u @ bundle_lines hash ls"
      "concat (map (\<lambda>l. snd l @ [CHR 0x0A]) ls) @ concat (line_parts s') = concat (line_parts u) @ concat (map snd ws)"
    using Cons.IH by blast
  show ?case
  proof (cases "snd w \<noteq> [] \<and> last (snd w) = CHR 0x0A")
    case True
    then obtain c where c: "snd w = c @ [CHR 0x0A]" by (metis append_butlast_last_id)
    then have "line_parts u = []"
      "logged u = logged s @ bundle_lines hash [(if fst w then LogInfo else LogError, concat (line_parts s) @ c)]"
      using u by (auto simp: write_text_def Let_def bundle_lines_def)
    then show ?thesis
      using ls c
      by (intro exI [of _ "(if fst w then LogInfo else LogError, concat (line_parts s) @ c) # ls"])
         (simp add: bundle_lines_def)
  next
    case False
    then have "line_parts u = line_parts s @ [snd w]" "logged u = logged s"
      using u by (auto simp: write_text_def Let_def)
    then show ?thesis using ls by (intro exI [of _ ls]) simp
  qed
qed

theorem output_is_complete_witness:
  "\<exists>ls. logged (snd (run_state (write_all ''h'' [(True, ''a''), (True, ''b'' @ [CHR 0x0A])]) idle_thread)) =
     logged idle_thread @ bundle_lines ''h'' ls
   \<and> concat (map (\<lambda>l. snd l @ [CHR 0x0A]) ls)
       @ concat (line_parts (snd (run_state (write_all ''h'' [(True, ''a''), (True, ''b'' @ [CHR 0x0A])]) idle_thread)))
     = concat (line_parts idle_thread) @ concat (map snd [(True, ''a''), (True, ''b'' @ [CHR 0x0A])])"
  by (rule output_is_complete) (simp add: prod_eq_iff)

text \<open>
  The parts of a line are kept by thread, not by bundle: text that one bundle leaves unfinished appears in the
  next line of another bundle that runs on the same thread.
\<close>

lemma unfinished_line_is_misattributed:
  "logged (snd (run_state (do { write_all ''first'' [(True, ''secret'')]; write_all ''second'' [(True, ''x'' @ [CHR 0x0A])] })
     idle_thread)) = [(LogInfo, ''Bundle [second]: secretx'')]"
  by (simp add: write_text_def idle_thread_def)

end
