(* ===== verification/Db_Bridge.thy ===== *)
theory Db_Bridge
  imports Environment
begin

text \<open>
  The bridge between the threads that run Python and the websocket: \<^verbatim>\<open>src/src/src/db_bridge.rs\<close>. Threads put their
  request into a bounded channel and wait for the response; one bridge thread takes the requests one by one. The
  step relation interleaves \<^verbatim>\<open>send\<close>, from the increment of the depth counter to the response, with the loop of the
  bridge thread. The counter is an integer here, so that a decrement below zero would be visible.
\<close>

abbreviation CHANNEL_CAPACITY :: nat where "CHANNEL_CAPACITY \<equiv> 128"

text \<open>
  \<open>Ready\<close>: before \<^verbatim>\<open>send\<close>; \<open>Counted m\<close>: the counter is incremented and the request is about to be put into the channel;
  \<open>Waiting\<close>: it waits for the response; \<open>Answered r\<close>: \<^verbatim>\<open>send\<close> has returned \<open>r\<close>.
\<close>

datatype sender_pc = Ready | Counted message | Waiting | Answered "string + message"

record bridge =
  queue_depth :: int
  channel :: "(nat \<times> message) list"
  busy :: "(nat \<times> message) option"
  alive :: bool
  senders :: "nat \<Rightarrow> sender_pc"

definition bridge_start :: bridge where
  "bridge_start = \<lparr>queue_depth = 0, channel = [], busy = None, alive = True, senders = (\<lambda>_. Ready)\<rparr>"

text \<open>The outcome of the request on the websocket: a response, an error, or the timeout of the bridge.\<close>

datatype ws_outcome = Response message | Failed string | TimedOut

fun bridge_result :: "ws_outcome \<Rightarrow> string + message" where
  "bridge_result (Response m) = Inr m"
| "bridge_result (Failed e) = Inl (''DB request error: '' @ e)"
| "bridge_result TimedOut = Inl ''DB request timed out after 30s''"

definition answer :: "nat \<Rightarrow> string + message \<Rightarrow> bridge \<Rightarrow> bridge" where
  "answer t r b = b\<lparr>senders := (senders b)(t := Answered r)\<rparr>"

text \<open>When the bridge thread ends, the channel and the senders of the responses in it are dropped.\<close>

definition release_waiting :: "(nat \<Rightarrow> sender_pc) \<Rightarrow> nat \<Rightarrow> sender_pc" where
  "release_waiting f t = (if f t = Waiting then Answered (Inl ''DbBridge response channel closed'') else f t)"

inductive bridge_step :: "bridge \<Rightarrow> bridge \<Rightarrow> bool" where
  count: "senders b t = Ready \<Longrightarrow>
    bridge_step b (b\<lparr>queue_depth := queue_depth b + 1, senders := (senders b)(t := Counted m)\<rparr>)"
| push: "senders b t = Counted m \<Longrightarrow> alive b \<Longrightarrow> length (channel b) < CHANNEL_CAPACITY \<Longrightarrow>
    bridge_step b (b\<lparr>channel := channel b @ [(t, m)], senders := (senders b)(t := Waiting)\<rparr>)"
| closed: "senders b t = Counted m \<Longrightarrow> \<not> alive b \<Longrightarrow>
    bridge_step b (answer t (Inl ''DbBridge channel closed -- bridge thread may have panicked'')
      (b\<lparr>queue_depth := queue_depth b - 1\<rparr>))"
| take: "alive b \<Longrightarrow> busy b = None \<Longrightarrow> channel b = (t, m) # rest \<Longrightarrow>
    bridge_step b (b\<lparr>queue_depth := queue_depth b - 1, channel := rest, busy := Some (t, m)\<rparr>)"
| reject: "alive b \<Longrightarrow> busy b = None \<Longrightarrow> channel b = (t, m) # rest \<Longrightarrow>
    bridge_step b (answer t (Inl ''DB request error: WebSocket is disconnected'')
      (b\<lparr>queue_depth := queue_depth b - 1, channel := rest\<rparr>))"
| finish: "alive b \<Longrightarrow> busy b = Some (t, m) \<Longrightarrow> bridge_step b (answer t (bridge_result r) (b\<lparr>busy := None\<rparr>))"
| panic: "alive b \<Longrightarrow>
    bridge_step b (b\<lparr>alive := False, channel := [], busy := None, senders := release_waiting (senders b)\<rparr>)"
| again: "senders b t = Answered r \<Longrightarrow> bridge_step b (b\<lparr>senders := (senders b)(t := Ready)\<rparr>)"

definition bridge_reach :: "bridge \<Rightarrow> bool" where
  "bridge_reach = bridge_step\<^sup>*\<^sup>* bridge_start"

subsection \<open>Invariant\<close>

definition in_flight :: "bridge \<Rightarrow> nat list" where
  "in_flight b = (case busy b of None \<Rightarrow> [] | Some (t, _) \<Rightarrow> [t]) @ map fst (channel b)"

definition counted :: "(nat \<Rightarrow> sender_pc) \<Rightarrow> nat set" where
  "counted f = {t. \<exists>m. f t = Counted m}"

definition waiting :: "(nat \<Rightarrow> sender_pc) \<Rightarrow> nat set" where
  "waiting f = {t. f t = Waiting}"

definition bridge_inv :: "bridge \<Rightarrow> bool" where
  "bridge_inv b \<longleftrightarrow>
     finite (counted (senders b)) \<and>
     int (length (channel b) + card (counted (senders b))) \<le> queue_depth b \<and>
     (alive b \<longrightarrow> queue_depth b = int (length (channel b) + card (counted (senders b)))) \<and>
     length (channel b) \<le> CHANNEL_CAPACITY \<and>
     distinct (in_flight b) \<and> set (in_flight b) = waiting (senders b)"

lemma bridge_inv_start: "bridge_inv bridge_start"
  by (simp add: bridge_inv_def bridge_start_def in_flight_def counted_def waiting_def)

lemma counted_upd [simp]:
  "counted (f(t := Counted m)) = insert t (counted f)" "counted (f(t := Waiting)) = counted f - {t}"
  "counted (f(t := Ready)) = counted f - {t}" "counted (f(t := Answered r)) = counted f - {t}"
  "counted (release_waiting f) = counted f"
  by (auto simp: counted_def release_waiting_def)

lemma waiting_upd [simp]:
  "waiting (f(t := Counted m)) = waiting f - {t}" "waiting (f(t := Waiting)) = insert t (waiting f)"
  "waiting (f(t := Ready)) = waiting f - {t}" "waiting (f(t := Answered r)) = waiting f - {t}"
  "waiting (release_waiting f) = {}"
  by (auto simp: waiting_def release_waiting_def)

lemma sender_sets:
  "f t = Ready \<Longrightarrow> t \<notin> counted f \<and> t \<notin> waiting f" "f t = Counted m \<Longrightarrow> t \<in> counted f \<and> t \<notin> waiting f"
  "f t = Answered r \<Longrightarrow> t \<notin> counted f \<and> t \<notin> waiting f" "t \<in> waiting f \<Longrightarrow> t \<notin> counted f"
  by (auto simp: counted_def waiting_def)

lemma not_counted [simp]: "t \<notin> counted f \<Longrightarrow> counted f - {t} = counted f"
  and not_waiting [simp]: "t \<notin> waiting f \<Longrightarrow> waiting f - {t} = waiting f"
  by auto

lemma card_counted: "finite (counted f) \<Longrightarrow> t \<in> counted f \<Longrightarrow> Suc (card (counted f - {t})) = card (counted f)"
  by (rule card_Suc_Diff1)

text \<open>A thread leaves the channel: the others are those that still wait.\<close>

lemma leaves_waiting: "insert t A = waiting f \<Longrightarrow> t \<notin> A \<Longrightarrow> A = waiting f - {t} \<and> t \<notin> counted f"
  using sender_sets(4) [of t f] by blast

lemma bridge_inv_step: "bridge_step b b' \<Longrightarrow> bridge_inv b \<Longrightarrow> bridge_inv b'"
proof (induction rule: bridge_step.induct)
  case (count b t m)
  then show ?case
    using sender_sets(1) [of "senders b" t] by (simp add: bridge_inv_def in_flight_def)
next
  case (push b t m)
  define c where "c = card (counted (senders b) - {t})"
  have "card (counted (senders b)) = Suc c"
    using push sender_sets(2) [of "senders b" t m] card_counted [of "senders b" t] by (simp add: bridge_inv_def c_def)
  moreover have "t \<notin> waiting (senders b)" using push sender_sets(2) by blast
  ultimately show ?case
    using push c_def by (auto simp: bridge_inv_def in_flight_def simp del: card_Diff_insert split: option.splits)
next
  case (closed b t m)
  define c where "c = card (counted (senders b) - {t})"
  have "card (counted (senders b)) = Suc c"
    using closed sender_sets(2) [of "senders b" t m] card_counted [of "senders b" t] by (simp add: bridge_inv_def c_def)
  moreover have "t \<notin> waiting (senders b)" using closed sender_sets(2) by blast
  ultimately show ?case
    using closed c_def by (simp add: bridge_inv_def in_flight_def answer_def)
next
  case (take b t m rest)
  then show ?case by (simp add: bridge_inv_def in_flight_def)
next
  case (reject b t m rest)
  then have "fst ` set rest = waiting (senders b) - {t} \<and> t \<notin> counted (senders b)"
    by (intro leaves_waiting) (simp_all add: bridge_inv_def in_flight_def)
  then show ?case using reject by (simp add: bridge_inv_def in_flight_def answer_def)
next
  case (finish b t m r)
  then have "fst ` set (channel b) = waiting (senders b) - {t} \<and> t \<notin> counted (senders b)"
    by (intro leaves_waiting) (simp_all add: bridge_inv_def in_flight_def)
  then show ?case using finish by (simp add: bridge_inv_def in_flight_def answer_def)
next
  case (panic b)
  then show ?case by (simp add: bridge_inv_def in_flight_def)
next
  case (again b t r)
  then show ?case
    using sender_sets(3) [of "senders b" t r] by (simp add: bridge_inv_def in_flight_def)
qed

interpretation bridge: invariant_system bridge_start bridge_step bridge_inv
  by unfold_locales (fact bridge_inv_start, fact bridge_inv_step)

lemma bridge_reach_inv: "bridge_reach b \<Longrightarrow> bridge_inv b"
  unfolding bridge_reach_def by (rule bridge.inv_always)

text \<open>
  C40. No request is forgotten in the bridge: a thread waits for a response exactly if its request is in the channel
  or being processed, there once, so that each gets one answer; the channel never holds more than its
  capacity; and the depth counter counts at least the requests in the channel, so taking one never makes it negative.
\<close>

theorem bridge_forgets_nobody:
  assumes "bridge_reach b"
  shows "(senders b t = Waiting \<longleftrightarrow> t \<in> set (in_flight b)) \<and> distinct (in_flight b)
    \<and> length (channel b) \<le> CHANNEL_CAPACITY \<and> int (length (channel b)) \<le> queue_depth b"
  using bridge_reach_inv [OF assms] by (auto simp: bridge_inv_def waiting_def)

theorem bridge_forgets_nobody_witness:
  "length (channel (bridge_start\<lparr>queue_depth := 1, senders := (\<lambda>_. Ready)(4 := Counted (message_new 1 Medium ''d''))\<rparr>)) \<le> 128"
proof -
  have "bridge_step bridge_start
      (bridge_start\<lparr>queue_depth := queue_depth bridge_start + 1,
         senders := (senders bridge_start)(4 := Counted (message_new 1 Medium ''d''))\<rparr>)"
    by (rule count) (simp add: bridge_start_def)
  then have "bridge_reach
      (bridge_start\<lparr>queue_depth := 1, senders := (\<lambda>_. Ready)(4 := Counted (message_new 1 Medium ''d''))\<rparr>)"
    by (simp add: bridge_reach_def bridge_start_def r_into_rtranclp)
  then show ?thesis using bridge_forgets_nobody by blast
qed

end
