(* ===== verification/Spec2Isabelle.thy ===== *)
theory Spec2Isabelle
  imports Main_Loop Archive Submit_Tasks Row_Writers File_List_Limit Dispatch Client_Singleton Connection_End Update_Check Bundle_Locks Bundle_Db Db_Bridge
begin

text \<open>
  \<^bold>\<open>Verification of the ADACS job controller client\<close>

  The client (Rust, \<^verbatim>\<open>src/src/src/\<close>) runs on a compute cluster. It keeps one websocket to the job controller server,
  over which it receives requests and sends prioritised messages, and through which it also reads and
  writes the job database, which lives on the server. Jobs are run by bundles, Python packages that it loads
  into sub-interpreters. File listings, downloads and uploads use further websockets, one for each transfer.

  \<^bold>\<open>Theories and sources\<close>

  \<^item> \<open>Client_Prelude\<close>: integer types and their conversions, bytes and UTF-8, decimal printing, the collections of
    rewrite rules, and the interface \<open>invariant_system\<close> of step relations with an inductive invariant, which the systems
    of interleaved tasks below interpret.
  \<^item> \<open>Once_Cell\<close>: cells of the process that are filled once, an interface that the cached configuration, the result of the
    Python set-up, its main thread state and the cached Python singletons interpret.
  \<^item> \<open>Messaging\<close> (\<^verbatim>\<open>messaging.rs\<close>): the message format, every push and pop. The interface \<open>wire_codec\<close> states what an
    encoder and a decoder promise each other; every field type and every record of the protocol interprets it. Shown:
    what was pushed is popped, on any bytes decoding is type safe and stays inside the message, and a short message reads as defaults.
  \<^item> \<open>Message_Queue\<close> (\<^verbatim>\<open>websocket.rs\<close>): the outgoing queue by priority and source and the scheduler task as a step
    function, with arbitrary hash order, lock contention and interleaving. Interface \<open>source_queue\<close>. Shown: order within a
    source, that a scan drains the queue, and when a lower priority may overtake a higher one.
  \<^item> \<open>Websocket\<close> (\<^verbatim>\<open>websocket.rs\<close>): connection state, the tasks of a connection, the supervisor, and database requests as a step
    relation of many tasks. Shown: no promise leaks, a disconnect wakes all waiters, a response reaches its
    request, stale connections change nothing, the supervisor backs off, a silent peer is detected.
  \<^item> \<open>Paths\<close>, \<open>Environment\<close>: paths as components; what handlers see of their surroundings, as events whose answers an
    arbitrary \<open>outside\<close> gives, depending on all events so far; JSON values.
  \<^item> \<open>Database\<close> (\<^verbatim>\<open>db/mod.rs\<close>, \<^verbatim>\<open>db/job.rs\<close>, \<^verbatim>\<open>db/jobstatus.rs\<close>): all requests and decoders. Shown: what is saved is read back.
  \<^item> \<open>Jobs\<close> (\<^verbatim>\<open>jobs/mod.rs\<close>): submit, status check, cancel, delete, each as one task among arbitrary others. Shown: a job is
    claimed in the database before the bundle runs, every submission reports its outcome, when a job is
    closed, which statuses are sent, only running jobs are cancelled.
  \<^item> \<open>Submit_Tasks\<close> (\<^verbatim>\<open>jobs/mod.rs\<close>): all submit tasks of one job together, over its row and the mutex. Shown: at most one
    submits at a time and the bundle accepts at most one submission; and that an overlapping save can undo the record of a running job.
  \<^item> \<open>Row_Writers\<close> (\<^verbatim>\<open>jobs/mod.rs\<close>): all checks, cancellations and deletions of one submitted job together, over its row. Shown: they
    change only its three marks, a job is marked or reported as deleted only after the bundle has deleted it, the bundle deletes no
    running job and a stopped job stays stopped; and that a late save can undo the record of a deletion.
  \<^item> \<open>Archive\<close> (\<^verbatim>\<open>jobs/mod.rs\<close>): the archive of a finished job. Shown: an archive reported as made has every entry and keeps its size limit.
  \<^item> \<open>Dispatch\<close>: from a frame on the main connection through dispatch and decoding to the task of its handler. Shown: every request
    of the server reaches its handler with exactly its fields, and the messages of a task leave the queue complete and in order.
  \<^item> \<open>Connection_End\<close> (\<^verbatim>\<open>websocket.rs\<close>): \<^verbatim>\<open>run_connection\<close> beside the tasks it spawns. Shown: it returns exactly at the end of a
    connection that is open when it waits; and that an earlier end is missed for ever.
  \<^item> \<open>Client_Singleton\<close> (\<^verbatim>\<open>websocket.rs\<close>): the one client of the process. Shown: all threads get the same one.
  \<^item> \<open>Files\<close>, \<open>File_Socket\<close>, \<open>File_Transfer\<close>, \<open>Download\<close>, \<open>Upload\<close> (\<^verbatim>\<open>files/mod.rs\<close>): the containment check of paths, listing, the
    connection of a transfer, the two-phase download loop with pause and resume, the download supervisor, and uploads.
    Shown: accepted paths are inside the working directory, a recursive listing is complete and ends, the
    bytes sent are the bytes read, a pause stops the transfer, an upload is exact or undone, and neither leaves its directory.
  \<^item> \<open>File_List_Limit\<close> (\<^verbatim>\<open>files/mod.rs\<close>): list requests under the semaphore. Shown: at most four run at a time, served in order, none starves.
  \<^item> \<open>Config\<close> (\<^verbatim>\<open>config.rs\<close>), \<open>Logging\<close> (\<^verbatim>\<open>logging.rs\<close>), \<open>Daemon\<close> (\<^verbatim>\<open>daemon.rs\<close>), \<open>Python_Init\<close> (\<^verbatim>\<open>python_interface.rs\<close>) and
    \<open>Main_Loop\<close> (\<^verbatim>\<open>main.rs\<close>): the configuration read once and validated, the log, daemonization over a model of processes and
    descriptors, loading and initialising Python, and the whole program from its command line to the end of its main
    loop. Shown: exactly one process goes on after the forks, detached and with its descriptors redirected; Python is
    set up at most once and only with its lock functions hooked; of all processes of a start one connects, after everything it
    needs; when jobs are checked and the loop ends.
  \<^item> \<open>Update_Check\<close> (\<^verbatim>\<open>update_check.rs\<close>): release description, bounded download with retries, digest, replacement of the binary.
    Shown: an installed binary is the verified download of a newer release, and a failed update changes nothing.
  \<^item> \<open>Python_Refs\<close> (\<^verbatim>\<open>python_interface.rs\<close>, \<^verbatim>\<open>thread_bundle_map.rs\<close>): the Python C API with the ownership of references, the error
    indicator and thread states, and a calculus of weakest preconditions for code that calls it.
  \<^item> \<open>Bundle_Interface\<close> (\<^verbatim>\<open>bundle_interface.rs\<close>), \<open>Bundle_Manager\<close> and \<open>Bundle_Locks\<close> (\<^verbatim>\<open>bundle_manager.rs\<close>), \<open>Bundle_Db\<close>
    (\<^verbatim>\<open>bundle_db.rs\<close>, \<^verbatim>\<open>bundle_logging.rs\<close>), \<open>Db_Bridge\<close> (\<^verbatim>\<open>db_bridge.rs\<close>): loading and running bundles, the cache under concurrent use,
    the callbacks, the bridge to the websocket. Shown: on every branch each reference is released once, the
    interpreter lock and the main thread state are handed back, one interpreter per bundle, the cache
    implements a memo table, callbacks keep the interpreter's calling convention, no output and no request is lost;
    and that the locks of the cache and of Python are taken in both orders, so two threads can block each other for ever.

  \<^bold>\<open>How the theories model the code\<close>

  State is passed explicitly: a record for each object of the source, one function for each function of the source, with a
  branch for every early return. Handlers thread a trace of events. Code that calls Python is in the
  state monad. Errors are values of sum and option types. Integers are words of their width wherever they
  are on the wire or can overflow; the depth counter of the bridge is an integer so that an underflow would show.

  Loops over what the outside delivers (frames, polls, events, send results) are recursion over the list of what they
  see, with an explicit result for a list that ends while the loop still runs; theorems hold for all lists. Loops of
  the program itself are total functions, with a measure where the recursion is not structural (the search for an existing
  parent directory, a scan of the queue, download retries by the attempts left). The traversal of a directory tree is a
  partial function whose value \<open>None\<close> means that it does not end; it is shown to return on every finite tree. There is no fuel.

  Code that is not in the repository is a parameter with arbitrary behaviour: the server, the file system, Python and the
  bundles (\<open>python\<close>, where the ownership rules of the C API are part of the model), JSON text, version comparison and SHA-256.

  \<^bold>\<open>Not modelled\<close>

  Log output, except the lines of exception reports and of bundles; TLS and the HTTP handshakes; the crates that walk a
  directory, build a tar stream and compress it, and the tracing library, of which the calls are modelled and not the
  work. The text of messages to the terminal is left out. Code under \<^verbatim>\<open>#[cfg(test)]\<close> and the test modules are not part of the program.
\<close>

end
